(* ===== verification/Prelude.thy ===== *)
theory Prelude
  imports Main "HOL-Library.Sublist" "HOL-Library.List_Lexorder" "HOL-Library.Char_ord"
    "HOL-Library.While_Combinator"
begin

text \<open>
  Shared vocabulary of the development: JavaScript string and array helpers, the
  result type used for thrown errors, insertion-ordered sets, and the lemma collections
  that the component theories feed and use.

  Strings are lists of 8-bit characters; the code's strings are sequences of UTF-16 units.
  The model therefore covers the strings all of whose units are below 256; the order of
  strings is the code unit order of the default JavaScript sort.
\<close>

named_theorems result_iff \<open>inversion of computations that may fail\<close>
named_theorems frame_simps \<open>what an operation leaves unchanged\<close>

section \<open>Results\<close>

type_synonym ('e, 'a) result = "'e + 'a"

definition bind_result :: "('e, 'a) result \<Rightarrow> ('a \<Rightarrow> ('e, 'b) result) \<Rightarrow> ('e, 'b) result" where
  "bind_result m f = (case m of Inl e \<Rightarrow> Inl e | Inr a \<Rightarrow> f a)"

lemma bind_result_simps [simp]:
  "bind_result (Inl e) f = Inl e"
  "bind_result (Inr a) f = f a"
  by (simp_all add: bind_result_def)

lemma bind_result_Inr [result_iff]:
  "bind_result m f = Inr b \<longleftrightarrow> (\<exists>a. m = Inr a \<and> f a = Inr b)"
  by (cases m) auto

lemma bind_result_Inl [result_iff]:
  "bind_result m f = Inl e \<longleftrightarrow> m = Inl e \<or> (\<exists>a. m = Inr a \<and> f a = Inl e)"
  by (cases m) auto

section \<open>Arrays\<close>

text \<open>\<open>[...new Set(list)]\<close>: the first occurrence of each element, in order.\<close>

fun dedup_acc :: "'a list \<Rightarrow> 'a list \<Rightarrow> 'a list" where
  "dedup_acc seen [] = []"
| "dedup_acc seen (x # xs) =
     (if x \<in> set seen then dedup_acc seen xs else x # dedup_acc (x # seen) xs)"

definition dedup :: "'a list \<Rightarrow> 'a list" where
  "dedup xs = dedup_acc [] xs"

lemma set_dedup_acc: "set (dedup_acc seen xs) = set xs - set seen"
  by (induction seen xs rule: dedup_acc.induct) auto

lemma set_dedup [simp]: "set (dedup xs) = set xs"
  by (simp add: dedup_def set_dedup_acc)

lemma distinct_dedup_acc: "distinct (dedup_acc seen xs)"
  by (induction seen xs rule: dedup_acc.induct) (auto simp: set_dedup_acc)

lemma distinct_dedup [simp]: "distinct (dedup xs)"
  by (simp add: dedup_def distinct_dedup_acc)

lemma dedup_acc_id: "distinct xs \<Longrightarrow> set xs \<inter> set seen = {} \<Longrightarrow> dedup_acc seen xs = xs"
  by (induction seen xs rule: dedup_acc.induct) auto

lemma dedup_id [simp]: "distinct xs \<Longrightarrow> dedup xs = xs"
  by (simp add: dedup_def dedup_acc_id)

text \<open>\<open>[...new Set(list)].sort()\<close>, the set-like normal form of the compiler.\<close>

definition sort_unique :: "'a::linorder list \<Rightarrow> 'a list" where
  "sort_unique xs = sort (dedup xs)"

lemma sort_unique_eq: "sort_unique xs = sorted_list_of_set (set xs)"
  by (metis sort_unique_def set_dedup distinct_dedup sorted_list_of_set_sort_remdups
      distinct_remdups_id)

lemma set_sort_unique [simp]: "set (sort_unique xs) = set xs"
  by (simp add: sort_unique_def)

lemma distinct_sort_unique [simp]: "distinct (sort_unique xs)"
  by (simp add: sort_unique_def)

lemma sorted_sort_unique [simp]: "sorted (sort_unique xs)"
  by (simp add: sort_unique_def)

lemma sort_unique_cong: "set xs = set ys \<Longrightarrow> sort_unique xs = sort_unique ys"
  by (simp add: sort_unique_eq)

lemma sort_unique_idem [simp]: "sort_unique (sort_unique xs) = sort_unique xs"
  by (rule sort_unique_cong) simp

text \<open>\<open>xs.indexOf(x)\<close>, \<open>None\<close> for -1.\<close>

fun index_of :: "'a \<Rightarrow> 'a list \<Rightarrow> nat option" where
  "index_of x [] = None"
| "index_of x (y # ys) = (if x = y then Some 0 else map_option Suc (index_of x ys))"

lemma index_of_None [simp]: "index_of x xs = None \<longleftrightarrow> x \<notin> set xs"
  by (induction xs) auto

lemma index_of_Some:
  "index_of x xs = Some i \<Longrightarrow> i < length xs \<and> xs ! i = x"
  by (induction xs arbitrary: i) (auto split: if_splits)

lemma index_of_drop:
  "index_of x xs = Some i \<Longrightarrow> \<exists>ys. drop i xs = x # ys"
  by (metis index_of_Some Cons_nth_drop_Suc)

lemma find_None_iff_ball: "List.find P xs = None \<longleftrightarrow> (\<forall>x \<in> set xs. \<not> P x)"
  by (auto simp: find_None_iff)

lemma find_SomeD: "List.find P xs = Some x \<Longrightarrow> x \<in> set xs \<and> P x"
  by (auto simp: find_Some_iff in_set_conv_nth)

section \<open>Strings\<close>

text \<open>\<open>s.split(c)\<close> for a one-character separator: never the empty array.\<close>

fun split_on :: "char \<Rightarrow> string \<Rightarrow> string list" where
  "split_on c [] = [[]]"
| "split_on c (x # xs) =
     (if x = c then [] # split_on c xs
      else (case split_on c xs of [] \<Rightarrow> [[x]] | s # ss \<Rightarrow> (x # s) # ss))"

text \<open>\<open>xs.join(sep)\<close>.\<close>

fun join_with :: "string \<Rightarrow> string list \<Rightarrow> string" where
  "join_with sep [] = []"
| "join_with sep [x] = x"
| "join_with sep (x # y # ys) = x @ sep @ join_with sep (y # ys)"

lemma split_on_not_Nil [simp]: "split_on c xs \<noteq> []"
  by (cases xs) (auto split: list.splits)

lemma split_on_no_sep: "s \<in> set (split_on c xs) \<Longrightarrow> c \<notin> set s"
  by (induction xs arbitrary: s) (auto split: if_splits list.splits)

lemma split_on_id [simp]: "c \<notin> set xs \<Longrightarrow> split_on c xs = [xs]"
  by (induction xs) auto

lemma split_on_append_sep [simp]:
  "c \<notin> set s \<Longrightarrow> split_on c (s @ c # xs) = s # split_on c xs"
  by (induction s) auto

lemma join_split [simp]: "join_with [c] (split_on c xs) = xs"
proof (induction xs)
  case (Cons x xs)
  obtain s ss where "split_on c xs = s # ss" by (metis split_on_not_Nil neq_Nil_conv)
  with Cons show ?case by (cases ss) auto
qed simp

lemma join_with_Cons: "xs \<noteq> [] \<Longrightarrow> join_with sep (x # xs) = x @ sep @ join_with sep xs"
  by (cases xs) auto

lemma split_join [simp]:
  "xs \<noteq> [] \<Longrightarrow> (\<And>x. x \<in> set xs \<Longrightarrow> c \<notin> set x) \<Longrightarrow> split_on c (join_with [c] xs) = xs"
  by (induction "[c]" xs rule: join_with.induct) auto

lemma set_join_with: "c \<in> set (join_with sep xs) \<Longrightarrow> c \<in> set sep \<or> (\<exists>x \<in> set xs. c \<in> set x)"
  by (induction sep xs rule: join_with.induct) auto

section \<open>Numbers in strings\<close>

text \<open>\<open>String(n)\<close> for integers below \<open>10\<^sup>2\<^sup>1\<close>, where the notation is plain decimal.\<close>

definition digit :: "nat \<Rightarrow> char" where
  "digit d = char_of (48 + d)"

fun show_nat :: "nat \<Rightarrow> string" where
  "show_nat n = (if n < 10 then [digit n] else show_nat (n div 10) @ [digit (n mod 10)])"

declare show_nat.simps [simp del]

definition show_int :: "int \<Rightarrow> string" where
  "show_int i = (if i < 0 then CHR ''-'' # show_nat (nat (- i)) else show_nat (nat i))"

definition is_digit :: "char \<Rightarrow> bool" where
  "is_digit c \<longleftrightarrow> CHR ''0'' \<le> c \<and> c \<le> CHR ''9''"

definition digit_val :: "char \<Rightarrow> nat" where
  "digit_val c = of_char c - 48"

definition read_nat :: "string \<Rightarrow> nat" where
  "read_nat s = foldl (\<lambda>n c. 10 * n + digit_val c) 0 s"

lemma digit_val_digit [simp]: "d < 10 \<Longrightarrow> digit_val (digit d) = d"
  by (simp add: digit_val_def digit_def)

lemma is_digit_digit [simp]: "d < 10 \<Longrightarrow> is_digit (digit d)"
  by (simp add: is_digit_def digit_def less_eq_char_def)

lemma read_show_nat [simp]: "read_nat (show_nat n) = n"
proof (induction n rule: show_nat.induct)
  case (1 n)
  then show ?case by (subst show_nat.simps) (auto simp: read_nat_def)
qed

lemma show_nat_digits: "c \<in> set (show_nat n) \<Longrightarrow> is_digit c"
proof (induction n rule: show_nat.induct)
  case (1 n)
  from 1(2) show ?case by (subst (asm) show_nat.simps) (use 1(1) in \<open>auto split: if_splits\<close>)
qed

lemma show_nat_not_Nil [simp]: "show_nat n \<noteq> []"
  by (subst show_nat.simps) simp

lemma show_nat_inject [simp]: "show_nat m = show_nat n \<longleftrightarrow> m = n"
  by (metis read_show_nat)

lemma show_nat_no_minus: "CHR ''-'' \<notin> set (show_nat n)"
  using show_nat_digits [of "CHR ''-''" n] by (auto simp: is_digit_def less_eq_char_def)

lemma show_int_inject [simp]: "show_int i = show_int j \<longleftrightarrow> i = j"
proof
  have "CHR ''-'' # s \<noteq> show_nat n" for s n
    using show_nat_no_minus [of n] by (metis list.set_intros(1))
  moreover assume "show_int i = show_int j"
  ultimately show "i = j" by (auto simp: show_int_def split: if_splits dest: sym)
qed simp

text \<open>\<open>s.padStart(n, c)\<close>.\<close>

definition pad_start :: "nat \<Rightarrow> char \<Rightarrow> string \<Rightarrow> string" where
  "pad_start n c s = replicate (n - length s) c @ s"

text \<open>\<open>s.trim()\<close>.\<close>

definition js_space :: "char \<Rightarrow> bool" where
  "js_space c \<longleftrightarrow> c \<in> {CHR '' '', CHR 0x09, CHR 0x0A, CHR 0x0B, CHR 0x0C, CHR 0x0D, CHR 0xA0}"

definition trim :: "string \<Rightarrow> string" where
  "trim s = rev (dropWhile js_space (rev (dropWhile js_space s)))"

lemma trim_id:
  assumes "s \<noteq> []" "\<not> js_space (hd s)" "\<not> js_space (last s)"
  shows "trim s = s"
proof -
  have "dropWhile js_space s = s" using assms(1,2) by (cases s) auto
  moreover have "dropWhile js_space (rev s) = rev s"
    using assms(1,3) by (cases "rev s") (auto simp: hd_rev [symmetric])
  ultimately show ?thesis by (simp add: trim_def)
qed

lemma trim_Nil [simp]: "trim [] = []"
  by (simp add: trim_def)

section \<open>Insertion-ordered maps and sets\<close>

fun map_set :: "'k \<Rightarrow> 'v \<Rightarrow> ('k \<times> 'v) list \<Rightarrow> ('k \<times> 'v) list" where
  "map_set k v [] = [(k, v)]"
| "map_set k v ((k', v') # kvs) = (if k = k' then (k, v) # kvs else (k', v') # map_set k v kvs)"

definition map_delete :: "'k \<Rightarrow> ('k \<times> 'v) list \<Rightarrow> ('k \<times> 'v) list" where
  "map_delete k kvs = filter (\<lambda>(k', v). k' \<noteq> k) kvs"

definition set_add :: "'a \<Rightarrow> 'a list \<Rightarrow> 'a list" where
  "set_add x xs = (if x \<in> set xs then xs else xs @ [x])"

definition set_delete :: "'a \<Rightarrow> 'a list \<Rightarrow> 'a list" where
  "set_delete x xs = filter (\<lambda>y. y \<noteq> x) xs"

lemma map_of_map_set [simp]: "map_of (map_set k v kvs) = (map_of kvs)(k \<mapsto> v)"
  by (induction k v kvs rule: map_set.induct) auto

lemma map_of_map_delete [simp]: "map_of (map_delete k kvs) = (map_of kvs)(k := None)"
  by (induction kvs) (auto simp: map_delete_def)

lemma map_set_keys: "map fst (map_set k v kvs) = (if k \<in> fst ` set kvs then map fst kvs else map fst kvs @ [k])"
  by (induction k v kvs rule: map_set.induct) auto

lemma map_set_distinct: "distinct (map fst kvs) \<Longrightarrow> distinct (map fst (map_set k v kvs))"
  by (simp add: map_set_keys)

lemma map_delete_distinct: "distinct (map fst kvs) \<Longrightarrow> distinct (map fst (map_delete k kvs))"
  by (simp add: map_delete_def distinct_map_filter)

lemma set_ops [simp]:
  "set (set_add x xs) = insert x (set xs)" "set (set_delete x xs) = set xs - {x}"
  by (auto simp: set_add_def set_delete_def)

lemma set_ops_distinct: "distinct xs \<Longrightarrow> distinct (set_add x xs)" "distinct xs \<Longrightarrow> distinct (set_delete x xs)"
  by (auto simp: set_add_def set_delete_def)

end
