(* ===== verification/TaskGraph.thy ===== *)
theory TaskGraph
  imports Prelude
begin

text \<open>
  The graph utilities of \<^verbatim>\<open>packages/core/src/graph.ts\<close>, which specification validation,
  plan validation and plan amendments share: cycle search, reachability and a topological
  order. An edge function gives the successors of a node (\<open>EdgeFn\<close>).
\<close>

type_synonym 'a edge_fn = "'a \<Rightarrow> 'a list"

definition edge_rel :: "'a edge_fn \<Rightarrow> ('a \<times> 'a) set" where
  "edge_rel edges = {(x, y). y \<in> set (edges x)}"

lemma edge_rel_iff [simp]: "(x, y) \<in> edge_rel edges \<longleftrightarrow> y \<in> set (edges x)"
  by (simp add: edge_rel_def)

text \<open>
  Every caller builds its edge function from a list of records and answers the empty list
  for an unknown node: the edges are supported on the nodes it passes.
\<close>

definition supported :: "'a list \<Rightarrow> 'a edge_fn \<Rightarrow> bool" where
  "supported nodes edges \<longleftrightarrow> (\<forall>n. n \<notin> set nodes \<longrightarrow> edges n = [])"

section \<open>findCycle\<close>

text \<open>
  The search keeps a colour per node and the array \<open>stack\<close> of the grey nodes, in push
  order. \<open>visit\<close> recurses on the depth that JavaScript's call stack bounds; the fuel counts
  that depth and \<open>None\<close> is running out of it. An answer \<open>Some (Some c, s)\<close> is the cycle
  \<open>c\<close>, \<open>Some (None, s)\<close> is null.
\<close>

datatype colour = White | Gray | Black

record 'a dfs =
  colour_of :: "'a \<Rightarrow> colour option"
  stack :: "'a list"

fun visit :: "nat \<Rightarrow> 'a edge_fn \<Rightarrow> 'a \<Rightarrow> 'a dfs \<Rightarrow> ('a list option \<times> 'a dfs) option"
  and visit_succs :: "nat \<Rightarrow> 'a edge_fn \<Rightarrow> 'a list \<Rightarrow> 'a dfs \<Rightarrow> ('a list option \<times> 'a dfs) option"
where
  "visit 0 edges n st = None"
| "visit (Suc k) edges n st =
    (if colour_of st n = Some Gray then
       Some (Some (drop (case index_of n (stack st) of None \<Rightarrow> 0 | Some i \<Rightarrow> i) (stack st) @ [n]), st)
     else if colour_of st n = Some Black then Some (None, st)
     else
       (case visit_succs k edges (edges n)
               (st\<lparr>colour_of := (colour_of st)(n \<mapsto> Gray), stack := stack st @ [n]\<rparr>) of
          None \<Rightarrow> None
        | Some (Some cyc, st') \<Rightarrow> Some (Some cyc, st')
        | Some (None, st') \<Rightarrow>
            Some (None, st'\<lparr>colour_of := (colour_of st')(n \<mapsto> Black), stack := butlast (stack st')\<rparr>)))"
| "visit_succs k edges [] st = Some (None, st)"
| "visit_succs k edges (m # ms) st =
    (case visit k edges m
            (if colour_of st m = None then st\<lparr>colour_of := (colour_of st)(m \<mapsto> White)\<rparr> else st) of
       None \<Rightarrow> None
     | Some (Some cyc, st') \<Rightarrow> Some (Some cyc, st')
     | Some (None, st') \<Rightarrow> visit_succs k edges ms st')"

fun visit_roots :: "nat \<Rightarrow> 'a edge_fn \<Rightarrow> 'a list \<Rightarrow> 'a dfs \<Rightarrow> 'a list option option" where
  "visit_roots k edges [] st = Some None"
| "visit_roots k edges (n # ns) st =
    (if colour_of st n = Some White then
       (case visit k edges n st of
          None \<Rightarrow> None
        | Some (Some cyc, _) \<Rightarrow> Some (Some cyc)
        | Some (None, st') \<Rightarrow> visit_roots k edges ns st')
     else visit_roots k edges ns st)"

definition dfs_init :: "'a list \<Rightarrow> 'a dfs" where
  "dfs_init nodes = \<lparr>colour_of = map_of (map (\<lambda>n. (n, White)) nodes), stack = []\<rparr>"

definition find_cycle_fuel :: "nat \<Rightarrow> 'a list \<Rightarrow> 'a edge_fn \<Rightarrow> 'a list option option" where
  "find_cycle_fuel k nodes edges = visit_roots k edges nodes (dfs_init nodes)"

text \<open>More than the number of nodes an edge function supported on \<open>nodes\<close> can name.\<close>

definition cycle_fuel :: "'a list \<Rightarrow> 'a edge_fn \<Rightarrow> nat" where
  "cycle_fuel nodes edges = Suc (length (nodes @ concat (map edges nodes)))"

definition find_cycle :: "'a list \<Rightarrow> 'a edge_fn \<Rightarrow> 'a list option" where
  "find_cycle nodes edges = the (find_cycle_fuel (cycle_fuel nodes edges) nodes edges)"

subsection \<open>The fuel is enough\<close>

definition unexplored :: "'a set \<Rightarrow> 'a dfs \<Rightarrow> 'a set" where
  "unexplored U st = {x \<in> U. colour_of st x \<noteq> Some Gray \<and> colour_of st x \<noteq> Some Black}"

lemma unexplored_simps [simp]:
  "unexplored U (st\<lparr>stack := s\<rparr>) = unexplored U st"
  by (simp add: unexplored_def)

lemma finite_unexplored [simp]: "finite U \<Longrightarrow> finite (unexplored U st)"
  by (simp add: unexplored_def)

definition closed_under :: "'a set \<Rightarrow> 'a edge_fn \<Rightarrow> bool" where
  "closed_under U edges \<longleftrightarrow> (\<forall>x \<in> U. set (edges x) \<subseteq> U)"

lemma visit_enough:
  assumes "finite U"
  shows "closed_under U edges \<Longrightarrow> n \<in> U \<Longrightarrow> card (unexplored U st) < k \<Longrightarrow>
           \<exists>r st'. visit k edges n st = Some (r, st') \<and> unexplored U st' \<subseteq> unexplored U st"
    and "closed_under U edges \<Longrightarrow> set ms \<subseteq> U \<Longrightarrow> card (unexplored U st) < k \<Longrightarrow>
           \<exists>r st'. visit_succs k edges ms st = Some (r, st') \<and> unexplored U st' \<subseteq> unexplored U st"
proof (induction k edges n st and k edges ms st rule: visit_visit_succs.induct)
  case (2 k edges n st)
  let ?st1 = "st\<lparr>colour_of := (colour_of st)(n \<mapsto> Gray), stack := stack st @ [n]\<rparr>"
  show ?case
  proof (cases "colour_of st n = Some Gray \<or> colour_of st n = Some Black")
    case True
    then show ?thesis by auto
  next
    case False
    have n: "n \<in> unexplored U st" using False "2.prems" by (simp add: unexplored_def)
    have un: "unexplored U ?st1 = unexplored U st - {n}" by (auto simp: unexplored_def)
    have "card (unexplored U st - {n}) < card (unexplored U st)"
      using n \<open>finite U\<close> by (intro card_Diff1_less) auto
    then have "card (unexplored U ?st1) < k" using un "2.prems" by simp
    moreover have "set (edges n) \<subseteq> U" using "2.prems" by (auto simp: closed_under_def)
    ultimately obtain r st' where r: "visit_succs k edges (edges n) ?st1 = Some (r, st')"
      and sub: "unexplored U st' \<subseteq> unexplored U ?st1"
      using "2.IH" False "2.prems"(1) by blast
    have "unexplored U (st'\<lparr>colour_of := (colour_of st')(n \<mapsto> Black), stack := s\<rparr>) \<subseteq> unexplored U st'"
      for s by (auto simp: unexplored_def)
    then have "unexplored U (st'\<lparr>colour_of := (colour_of st')(n \<mapsto> Black), stack := s\<rparr>) \<subseteq> unexplored U st"
      for s using sub un by blast
    moreover have "unexplored U st' \<subseteq> unexplored U st" using sub un by blast
    ultimately show ?thesis using False r by (cases r) simp_all
  qed
next
  case (4 k edges m ms st)
  let ?st1 = "if colour_of st m = None then st\<lparr>colour_of := (colour_of st)(m \<mapsto> White)\<rparr> else st"
  have un: "unexplored U ?st1 = unexplored U st" by (auto simp: unexplored_def)
  have prem: "m \<in> U" "set ms \<subseteq> U" using "4.prems" by auto
  obtain r st' where r: "visit k edges m ?st1 = Some (r, st')"
    and sub: "unexplored U st' \<subseteq> unexplored U st"
    using "4.IH"(1) "4.prems"(1,3) prem un by metis
  have "card (unexplored U st') < k"
    using card_mono [OF finite_unexplored [OF \<open>finite U\<close>] sub] "4.prems" by simp
  then have "r = None \<Longrightarrow>
      \<exists>r' st''. visit_succs k edges ms st' = Some (r', st'') \<and> unexplored U st'' \<subseteq> unexplored U st'"
    using "4.IH"(2) [OF r refl] "4.prems"(1) prem by blast
  with r sub show ?case by (cases r) (auto intro: subset_trans)
qed auto

subsection \<open>A null answer means no cycle, a path means a cycle\<close>

abbreviation is_path :: "'a edge_fn \<Rightarrow> 'a list \<Rightarrow> bool" where
  "is_path edges \<equiv> successively (\<lambda>x y. y \<in> set (edges x))"

text \<open>The shape \<open>[A, B, A]\<close> of a reported cycle.\<close>

definition is_cycle :: "'a edge_fn \<Rightarrow> 'a list \<Rightarrow> bool" where
  "is_cycle edges c \<longleftrightarrow> 2 \<le> length c \<and> hd c = last c \<and> is_path edges c"

definition dfs_inv :: "'a edge_fn \<Rightarrow> 'a dfs \<Rightarrow> bool" where
  "dfs_inv edges st \<longleftrightarrow>
     distinct (stack st) \<and> set (stack st) = {x. colour_of st x = Some Gray} \<and>
     is_path edges (stack st) \<and>
     (\<forall>b. colour_of st b = Some Black \<longrightarrow>
        (\<forall>m \<in> set (edges b). colour_of st m = Some Black) \<and> (b, b) \<notin> (edge_rel edges)\<^sup>+)"

text \<open>What a call may change: the stack is back, black nodes stay black, no colour is lost.\<close>

definition dfs_grows :: "'a dfs \<Rightarrow> 'a dfs \<Rightarrow> bool" where
  "dfs_grows st st' \<longleftrightarrow> stack st' = stack st \<and>
     (\<forall>b. colour_of st b = Some Black \<longrightarrow> colour_of st' b = Some Black) \<and>
     (\<forall>b. colour_of st b \<noteq> None \<longrightarrow> colour_of st' b \<noteq> None)"

lemma dfs_grows_trans: "dfs_grows a b \<Longrightarrow> dfs_grows b c \<Longrightarrow> dfs_grows a c"
  by (simp add: dfs_grows_def)

lemma dfs_inv_white:
  "dfs_inv edges st \<Longrightarrow> colour_of st m = None \<Longrightarrow>
     dfs_inv edges (st\<lparr>colour_of := (colour_of st)(m \<mapsto> White)\<rparr>)"
  by (auto simp: dfs_inv_def set_eq_iff)

lemma dfs_inv_push:
  assumes "dfs_inv edges st" and "colour_of st n \<noteq> Some Gray" "colour_of st n \<noteq> Some Black"
    and "stack st \<noteq> [] \<Longrightarrow> n \<in> set (edges (last (stack st)))"
  shows "dfs_inv edges (st\<lparr>colour_of := (colour_of st)(n \<mapsto> Gray), stack := stack st @ [n]\<rparr>)"
  using assms unfolding dfs_inv_def by (auto simp: successively_append_iff)

lemma black_closed_trancl:
  assumes "\<And>b m. B b \<Longrightarrow> m \<in> set (edges b) \<Longrightarrow> B m"
  shows "(b, c) \<in> (edge_rel edges)\<^sup>* \<Longrightarrow> B b \<Longrightarrow> B c"
  by (induction rule: rtrancl_induct) (auto intro: assms)

lemma dfs_inv_pop:
  assumes inv: "dfs_inv edges st'" and st: "stack st' = s @ [n]"
    and succs: "\<And>m. m \<in> set (edges n) \<Longrightarrow> colour_of st' m = Some Black"
  shows "dfs_inv edges (st'\<lparr>colour_of := (colour_of st')(n \<mapsto> Black), stack := s\<rparr>)"
proof -
  have n: "n \<notin> set s" "colour_of st' n = Some Gray"
    using inv st by (auto simp: dfs_inv_def)
  have "(n, n) \<notin> (edge_rel edges)\<^sup>+"
  proof
    assume "(n, n) \<in> (edge_rel edges)\<^sup>+"
    then obtain m where "m \<in> set (edges n)" "(m, n) \<in> (edge_rel edges)\<^sup>*"
      by (auto dest: tranclD)
    then have "colour_of st' n = Some Black"
      using succs inv black_closed_trancl [of "\<lambda>b. colour_of st' b = Some Black" edges m n]
      by (auto simp: dfs_inv_def)
    with n show False by simp
  qed
  with inv st succs n show ?thesis
    by (auto simp: dfs_inv_def successively_append_iff set_eq_iff)
qed

lemma gray_cycle:
  assumes inv: "dfs_inv edges st" and n: "colour_of st n = Some Gray"
    and edge: "stack st \<noteq> [] \<Longrightarrow> n \<in> set (edges (last (stack st)))"
  shows "is_cycle edges (drop (case index_of n (stack st) of None \<Rightarrow> 0 | Some i \<Rightarrow> i) (stack st) @ [n])"
proof -
  have "n \<in> set (stack st)" using inv n by (simp add: dfs_inv_def)
  then obtain i where i: "index_of n (stack st) = Some i"
    by (cases "index_of n (stack st)") auto
  then obtain ys where ys: "drop i (stack st) = n # ys" by (blast dest: index_of_drop)
  have "is_path edges (take i (stack st) @ drop i (stack st))"
    using inv by (simp add: dfs_inv_def)
  then have "is_path edges (n # ys)" using ys by (simp add: successively_append_iff del: append_take_drop_id)
  moreover have "last (n # ys) = last (stack st)" using ys
    by (metis append_take_drop_id last_appendR list.discI)
  moreover have "stack st \<noteq> []" using ys by auto
  ultimately have "is_path edges ((n # ys) @ [n])"
    using edge by (subst successively_append_iff) auto
  then show ?thesis using i ys by (simp add: is_cycle_def)
qed

lemma visit_spec:
  shows "visit k edges n st = Some (r, st') \<Longrightarrow> dfs_inv edges st \<Longrightarrow>
           (stack st \<noteq> [] \<Longrightarrow> n \<in> set (edges (last (stack st)))) \<Longrightarrow>
           (case r of Some c \<Rightarrow> is_cycle edges c
            | None \<Rightarrow> dfs_inv edges st' \<and> dfs_grows st st' \<and> colour_of st' n = Some Black)"
    and "visit_succs k edges ms st = Some (r, st') \<Longrightarrow> dfs_inv edges st \<Longrightarrow> stack st \<noteq> [] \<Longrightarrow>
           set ms \<subseteq> set (edges (last (stack st))) \<Longrightarrow>
           (case r of Some c \<Rightarrow> is_cycle edges c
            | None \<Rightarrow> dfs_inv edges st' \<and> dfs_grows st st' \<and> (\<forall>m \<in> set ms. colour_of st' m = Some Black))"
proof (induction k edges n st and k edges ms st arbitrary: r st' and r st' rule: visit_visit_succs.induct)
  case (2 k edges n st)
  let ?st1 = "st\<lparr>colour_of := (colour_of st)(n \<mapsto> Gray), stack := stack st @ [n]\<rparr>"
  consider (g) "colour_of st n = Some Gray" | (b) "colour_of st n = Some Black"
    | (w) "colour_of st n \<noteq> Some Gray" "colour_of st n \<noteq> Some Black" by blast
  then show ?case
  proof cases
    case g
    have "r = Some (drop (case index_of n (stack st) of None \<Rightarrow> 0 | Some i \<Rightarrow> i) (stack st) @ [n])"
      using "2.prems"(1) g by auto
    then show ?thesis using gray_cycle [OF "2.prems"(2) g "2.prems"(3)] by simp
  next
    case b
    with "2.prems"(1) have "r = None" "st' = st" by simp_all
    with b "2.prems"(2) show ?thesis by (simp add: dfs_grows_def)
  next
    case w
    then obtain r1 st1 where v: "visit_succs k edges (edges n) ?st1 = Some (r1, st1)"
      using "2.prems"(1) by (cases "visit_succs k edges (edges n) ?st1") auto
    have *: "case r1 of Some c \<Rightarrow> is_cycle edges c
        | None \<Rightarrow> dfs_inv edges st1 \<and> dfs_grows ?st1 st1 \<and> (\<forall>m \<in> set (edges n). colour_of st1 m = Some Black)"
      using "2.IH" [OF w v] dfs_inv_push [OF "2.prems"(2) w "2.prems"(3)] by simp
    show ?thesis
    proof (cases r1)
      case (Some c)
      with w v * "2.prems"(1) show ?thesis by (cases r) simp_all
    next
      case None
      then have "stack st1 = stack st @ [n]" using * by (simp add: dfs_grows_def)
      then have "dfs_inv edges (st1\<lparr>colour_of := (colour_of st1)(n \<mapsto> Black), stack := stack st\<rparr>)"
        using * None by (intro dfs_inv_pop) auto
      moreover have "r = None" "st' = st1\<lparr>colour_of := (colour_of st1)(n \<mapsto> Black), stack := stack st\<rparr>"
        using w v None \<open>stack st1 = stack st @ [n]\<close> "2.prems"(1) by simp_all
      ultimately show ?thesis using * None w by (simp add: dfs_grows_def)
    qed
  qed
next
  case (4 k edges m ms st)
  let ?st1 = "if colour_of st m = None then st\<lparr>colour_of := (colour_of st)(m \<mapsto> White)\<rparr> else st"
  have inv1: "dfs_inv edges ?st1" using "4.prems"(2) dfs_inv_white by auto
  have st1: "stack ?st1 = stack st" "dfs_grows st ?st1" by (auto simp: dfs_grows_def)
  obtain r1 st2 where v: "visit k edges m ?st1 = Some (r1, st2)"
    using "4.prems"(1) by (cases "visit k edges m ?st1") auto
  have *: "case r1 of Some c \<Rightarrow> is_cycle edges c
      | None \<Rightarrow> dfs_inv edges st2 \<and> dfs_grows ?st1 st2 \<and> colour_of st2 m = Some Black"
    using "4.IH"(1) [OF v inv1] "4.prems"(4) st1 by simp
  show ?case
  proof (cases r1)
    case (Some c)
    with v * "4.prems"(1) show ?thesis by (cases r) simp_all
  next
    case None
    then have v2: "visit_succs k edges ms st2 = Some (r, st')" using v "4.prems"(1) by simp
    have "stack st2 = stack st" using * None st1 by (auto simp: dfs_grows_def)
    then have "case r of Some c \<Rightarrow> is_cycle edges c
        | None \<Rightarrow> dfs_inv edges st' \<and> dfs_grows st2 st' \<and> (\<forall>m \<in> set ms. colour_of st' m = Some Black)"
      using "4.IH"(2) [OF v refl None v2] * None "4.prems"(3,4) by simp
    moreover have "dfs_grows st st2" using * None st1(2) dfs_grows_trans by auto
    ultimately show ?thesis using * None
      by (cases r) (auto simp: dfs_grows_def)
  qed
qed (auto simp: dfs_grows_def)

lemma dfs_init_inv: "dfs_inv edges (dfs_init nodes)"
  by (auto simp: dfs_inv_def dfs_init_def map_of_eq_None_iff dest: map_of_SomeD)

lemma dfs_init_colour:
  "colour_of (dfs_init nodes) n = (if n \<in> set nodes then Some White else None)"
  by (induction nodes) (auto simp: dfs_init_def)

lemma visit_roots_spec:
  assumes "visit_roots k edges ns st = Some r" "dfs_inv edges st" "stack st = []"
    and "\<And>n. n \<in> set ns \<Longrightarrow> colour_of st n \<noteq> None"
  shows "case r of Some c \<Rightarrow> is_cycle edges c
         | None \<Rightarrow> \<exists>st'. dfs_inv edges st' \<and> dfs_grows st st' \<and> (\<forall>n \<in> set ns. colour_of st' n = Some Black)"
  using assms
proof (induction ns arbitrary: st)
  case Nil
  then show ?case by (auto simp: dfs_grows_def)
next
  case (Cons n ns)
  note no_gray = Cons.prems(2,3)
  show ?case
  proof (cases "colour_of st n = Some White")
    case False
    then have black: "colour_of st n = Some Black"
      using Cons.prems(2-4) by (cases "colour_of st n"; cases "the (colour_of st n)") (auto simp: dfs_inv_def)
    have "case r of Some c \<Rightarrow> is_cycle edges c
        | None \<Rightarrow> \<exists>st'. dfs_inv edges st' \<and> dfs_grows st st' \<and> (\<forall>n \<in> set ns. colour_of st' n = Some Black)"
      using False Cons.prems by (intro Cons.IH) auto
    with black show ?thesis by (cases r) (auto simp: dfs_grows_def)
  next
    case True
    then obtain r1 st1 where v: "visit k edges n st = Some (r1, st1)"
      using Cons.prems(1) by (cases "visit k edges n st") auto
    have *: "case r1 of Some c \<Rightarrow> is_cycle edges c
        | None \<Rightarrow> dfs_inv edges st1 \<and> dfs_grows st st1 \<and> colour_of st1 n = Some Black"
      using visit_spec(1) [OF v Cons.prems(2)] Cons.prems(3) by simp
    show ?thesis
    proof (cases r1)
      case (Some c)
      with True v * Cons.prems(1) show ?thesis by auto
    next
      case None
      then have roots: "visit_roots k edges ns st1 = Some r" using True v Cons.prems(1) by simp
      have grows: "dfs_inv edges st1" "dfs_grows st st1" "colour_of st1 n = Some Black" "stack st1 = []"
        using * None Cons.prems(3) by (auto simp: dfs_grows_def)
      have "case r of Some c \<Rightarrow> is_cycle edges c
          | None \<Rightarrow> \<exists>st'. dfs_inv edges st' \<and> dfs_grows st1 st' \<and> (\<forall>n \<in> set ns. colour_of st' n = Some Black)"
        using Cons.IH [OF roots] grows Cons.prems(4) by (auto simp: dfs_grows_def)
      then show ?thesis
      proof (cases r)
        case None
        then obtain st' where st': "dfs_inv edges st'" "dfs_grows st1 st'"
          "\<forall>n \<in> set ns. colour_of st' n = Some Black"
          using \<open>case r of Some c \<Rightarrow> _ c | None \<Rightarrow> _\<close> by auto
        then have "colour_of st' n = Some Black" using grows by (simp add: dfs_grows_def)
        with st' None grows(2) show ?thesis by (auto intro!: exI [of _ st'] intro: dfs_grows_trans)
      qed simp
    qed
  qed
qed

lemma visit_roots_enough:
  assumes "finite U" "closed_under U edges" "set ns \<subseteq> U" "card (unexplored U st) < k"
  shows "\<exists>r. visit_roots k edges ns st = Some r"
  using assms(3,4)
proof (induction ns arbitrary: st)
  case (Cons n ns)
  show ?case
  proof (cases "colour_of st n = Some White")
    case True
    obtain r st' where v: "visit k edges n st = Some (r, st')" "unexplored U st' \<subseteq> unexplored U st"
      using visit_enough(1) [OF assms(1,2)] Cons.prems by (metis insert_subset list.simps(15))
    then have "card (unexplored U st') < k"
      using card_mono [OF finite_unexplored [OF assms(1)] v(2)] Cons.prems by simp
    with Cons v True show ?thesis by (cases r) auto
  qed (use Cons in auto)
qed simp

text \<open>
  With edges supported on the nodes, the fuel of \<^term>\<open>find_cycle\<close> never runs out, so
  \<^term>\<open>find_cycle\<close> is the value the code returns.
\<close>

lemma supported_closed:
  "supported nodes edges \<Longrightarrow> closed_under (set (nodes @ concat (map edges nodes))) edges"
  by (auto simp: closed_under_def supported_def)

lemma find_cycle_total:
  assumes "supported nodes edges"
  shows "find_cycle_fuel (cycle_fuel nodes edges) nodes edges = Some (find_cycle nodes edges)"
proof -
  let ?us = "nodes @ concat (map edges nodes)"
  have "card (unexplored (set ?us) (dfs_init nodes)) \<le> card (set ?us)"
    by (intro card_mono) (auto simp: unexplored_def)
  also have "\<dots> \<le> length ?us" by (rule card_length)
  finally have "card (unexplored (set ?us) (dfs_init nodes)) < cycle_fuel nodes edges"
    by (simp add: cycle_fuel_def)
  then have "\<exists>r. find_cycle_fuel (cycle_fuel nodes edges) nodes edges = Some r"
    unfolding find_cycle_fuel_def
    by (intro visit_roots_enough [OF _ supported_closed [OF assms]]) auto
  then show ?thesis by (auto simp: find_cycle_def)
qed

lemma find_cycle_SomeD:
  assumes "supported nodes edges" "find_cycle nodes edges = Some c"
  shows "is_cycle edges c"
proof -
  have "visit_roots (cycle_fuel nodes edges) edges nodes (dfs_init nodes) = Some (Some c)"
    using find_cycle_total [OF assms(1)] assms(2) by (simp add: find_cycle_fuel_def)
  from visit_roots_spec [OF this dfs_init_inv] show ?thesis
    by (simp add: dfs_init_colour) (simp add: dfs_init_def)
qed

lemma find_cycle_NoneD:
  assumes "supported nodes edges" "find_cycle nodes edges = None"
  shows "acyclic (edge_rel edges)"
proof -
  have "visit_roots (cycle_fuel nodes edges) edges nodes (dfs_init nodes) = Some None"
    using find_cycle_total [OF assms(1)] assms(2) by (simp add: find_cycle_fuel_def)
  from visit_roots_spec [OF this dfs_init_inv] obtain st' where
    st': "dfs_inv edges st'" "\<forall>n \<in> set nodes. colour_of st' n = Some Black"
    by (simp add: dfs_init_colour) (auto simp: dfs_init_def)
  have "(x, x) \<notin> (edge_rel edges)\<^sup>+" for x
  proof (cases "x \<in> set nodes")
    case True
    with st' show ?thesis by (simp add: dfs_inv_def)
  next
    case False
    then have "edges x = []" using assms(1) by (simp add: supported_def)
    then show ?thesis by (auto dest!: tranclD)
  qed
  then show ?thesis by (simp add: acyclic_def)
qed

lemma path_trancl: "is_path edges (x # ys) \<Longrightarrow> ys \<noteq> [] \<Longrightarrow> (x, last ys) \<in> (edge_rel edges)\<^sup>+"
proof (induction ys arbitrary: x)
  case (Cons y ys)
  then show ?case
    by (cases "ys = []") (auto intro: trancl_into_trancl2 simp: successively_Cons)
qed simp

lemma is_cycle_not_acyclic: "is_cycle edges c \<Longrightarrow> \<not> acyclic (edge_rel edges)"
proof -
  assume c: "is_cycle edges c"
  then obtain x ys where "c = x # ys" "ys \<noteq> []"
    by (cases c; cases "tl c") (auto simp: is_cycle_def)
  with c path_trancl [of edges x ys] show ?thesis by (auto simp: is_cycle_def acyclic_def)
qed

text \<open>The two facts the validators use.\<close>

lemma find_cycle_None_iff:
  "supported nodes edges \<Longrightarrow> find_cycle nodes edges = None \<longleftrightarrow> acyclic (edge_rel edges)"
  by (metis find_cycle_NoneD find_cycle_SomeD is_cycle_not_acyclic option.exhaust)

section \<open>reachableFrom\<close>

text \<open>
  The array \<open>queue\<close> is popped at its end. The loop ends when finitely many nodes are
  reachable; \<open>None\<close> would be a loop that does not.
\<close>

definition reach_step :: "'a edge_fn \<Rightarrow> 'a set \<times> 'a list \<Rightarrow> 'a set \<times> 'a list" where
  "reach_step edges = (\<lambda>(out, queue).
     if last queue \<in> out then (out, butlast queue)
     else (insert (last queue) out, butlast queue @ edges (last queue)))"

definition reachable_from :: "'a \<Rightarrow> 'a edge_fn \<Rightarrow> 'a set option" where
  "reachable_from start edges =
     map_option fst (while_option (\<lambda>(out, queue). queue \<noteq> []) (reach_step edges) ({}, edges start))"

definition reach_inv :: "'a \<Rightarrow> 'a edge_fn \<Rightarrow> 'a set \<times> 'a list \<Rightarrow> bool" where
  "reach_inv start edges = (\<lambda>(out, queue).
     out \<union> set queue \<subseteq> (edge_rel edges)\<^sup>+ `` {start} \<and>
     set (edges start) \<subseteq> out \<union> set queue \<and> edge_rel edges `` out \<subseteq> out \<union> set queue)"

lemma reach_inv_step:
  assumes "reach_inv start edges s" "case s of (out, queue) \<Rightarrow> queue \<noteq> []"
  shows "reach_inv start edges (reach_step edges s)"
proof -
  obtain out queue where s: "s = (out, queue)" by (cases s)
  then obtain q n where queue: "queue = q @ [n]" using assms(2) by (cases queue rule: rev_cases) auto
  have "(start, n) \<in> (edge_rel edges)\<^sup>+" using assms(1) s queue by (auto simp: reach_inv_def)
  then have "set (edges n) \<subseteq> (edge_rel edges)\<^sup>+ `` {start}" by (auto intro: trancl_into_trancl)
  with assms(1) s queue show ?thesis
    by (auto simp: reach_inv_def reach_step_def)
qed

lemma reachable_from_total:
  assumes "finite U" "closed_under U edges" "start \<in> U"
  shows "reachable_from start edges = Some ((edge_rel edges)\<^sup>+ `` {start})"
proof -
  let ?b = "\<lambda>(out::'a set, queue::'a list). queue \<noteq> []"
  let ?P = "\<lambda>s. reach_inv start edges s \<and> fst s \<union> set (snd s) \<subseteq> U"
  let ?R = "(\<lambda>(out, queue). card (U - out)) <*mlex*> measure (\<lambda>(out::'a set, queue::'a list). length queue)"
  have step: "?P (reach_step edges s)" if "?P s" "?b s" for s
    using that reach_inv_step [of start edges s] assms(2)
    by (cases s; cases "snd s" rule: rev_cases)
       (auto simp: reach_step_def closed_under_def split: if_splits)
  have dec: "(reach_step edges s, s) \<in> ?R" if "?P s" "?b s" for s
  proof -
    obtain out q n where s: "s = (out, q @ [n])" using \<open>?b s\<close> by (cases s; cases "snd s" rule: rev_cases) auto
    show ?thesis
    proof (cases "n \<in> out")
      case True
      with s show ?thesis by (simp add: reach_step_def mlex_prod_def inv_image_def)
    next
      case False
      then have "U - insert n out \<subset> U - out" using s \<open>?P s\<close> by auto
      then have "card (U - insert n out) < card (U - out)" using assms(1) by (simp add: psubset_card_mono)
      with False s show ?thesis by (simp add: reach_step_def mlex_prod_def inv_image_def)
    qed
  qed
  have init: "?P ({}, edges start)"
    using assms by (auto simp: reach_inv_def closed_under_def)
  have "wf ?R" by (intro wf_mlex) simp
  from wf_rel_while_option_Some [of ?R ?P ?b "reach_step edges", OF this _ _ init] dec step
  obtain t where t: "while_option ?b (reach_step edges) ({}, edges start) = Some t" by auto
  have inv: "reach_inv start edges t"
    by (rule while_option_rule [OF _ t]) (use reach_inv_step init in auto)
  obtain out where out: "t = (out, [])" using while_option_stop [OF t] by (cases t) auto
  have "m \<in> out" if "(start, m) \<in> (edge_rel edges)\<^sup>+" for m
    using that by induction (use inv out in \<open>auto simp: reach_inv_def Image_def edge_rel_def subset_iff\<close>)
  then have "out = (edge_rel edges)\<^sup>+ `` {start}" using inv out by (auto simp: reach_inv_def)
  with t out show ?thesis by (simp add: reachable_from_def)
qed

lemma reachable_from_supported:
  assumes "supported nodes edges"
  shows "reachable_from start edges = Some ((edge_rel edges)\<^sup>+ `` {start})"
proof (rule reachable_from_total)
  show "closed_under (insert start (set (nodes @ concat (map edges nodes)))) edges"
    using assms by (cases "start \<in> set nodes") (auto simp: closed_under_def supported_def)
qed auto

section \<open>topoSort\<close>

text \<open>
  Kahn's algorithm. \<open>indeg\<close> is the map of pending in-degrees, \<open>ready\<close> the queue that is
  shifted at its front. An order lists a node before the nodes its edges name.
\<close>

definition count_indegrees :: "'a list \<Rightarrow> 'a edge_fn \<Rightarrow> 'a \<Rightarrow> int option" where
  "count_indegrees nodes edges =
     fold (\<lambda>m indeg. case indeg m of None \<Rightarrow> indeg | Some d \<Rightarrow> indeg(m \<mapsto> d + 1))
       (concat (map edges nodes)) (map_of (map (\<lambda>n. (n, 0)) nodes))"

fun topo_relax :: "'a list \<Rightarrow> ('a \<Rightarrow> int option) \<times> 'a list \<Rightarrow> ('a \<Rightarrow> int option) \<times> 'a list" where
  "topo_relax [] (indeg, ready) = (indeg, ready)"
| "topo_relax (m # ms) (indeg, ready) =
     (case indeg m of
        None \<Rightarrow> topo_relax ms (indeg, ready)
      | Some d \<Rightarrow> topo_relax ms (indeg(m \<mapsto> d - 1), if d - 1 = 0 then ready @ [m] else ready))"

definition topo_step ::
  "'a edge_fn \<Rightarrow> ('a list \<times> ('a \<Rightarrow> int option) \<times> 'a list) \<Rightarrow> ('a list \<times> ('a \<Rightarrow> int option) \<times> 'a list)" where
  "topo_step edges = (\<lambda>(order, indeg, ready).
     (order @ [hd ready], topo_relax (edges (hd ready)) (indeg, tl ready)))"

definition topo_loop :: "'a list \<Rightarrow> 'a edge_fn \<Rightarrow> ('a list \<times> ('a \<Rightarrow> int option) \<times> 'a list) option" where
  "topo_loop nodes edges =
     (let indeg = count_indegrees nodes edges in
      while_option (\<lambda>(order, indeg, ready). ready \<noteq> []) (topo_step edges)
        ([], indeg, filter (\<lambda>n. (case indeg n of None \<Rightarrow> 0 | Some d \<Rightarrow> d) = 0) nodes))"

definition topo_sort :: "'a list \<Rightarrow> 'a edge_fn \<Rightarrow> 'a list option" where
  "topo_sort nodes edges =
     (if find_cycle nodes edges \<noteq> None then None
      else (let order = fst (the (topo_loop nodes edges)) in
            if length order = length nodes then Some order else None))"

text \<open>The edges into \<open>m\<close> from the nodes not yet in \<open>done\<close>.\<close>

definition pending :: "'a list \<Rightarrow> 'a edge_fn \<Rightarrow> 'a list \<Rightarrow> 'a \<Rightarrow> nat" where
  "pending nodes edges done m = (\<Sum>n \<in> set nodes - set done. count_list (edges n) m)"

lemma pending_0_iff:
  "pending nodes edges done m = 0 \<longleftrightarrow> (\<forall>n \<in> set nodes - set done. m \<notin> set (edges n))"
  by (auto simp: pending_def count_list_0_iff)

lemma pending_done:
  assumes "n \<in> set nodes" "n \<notin> set done"
  shows "pending nodes edges done m = count_list (edges n) m + pending nodes edges (done @ [n]) m"
proof -
  have "set nodes - set (done @ [n]) = (set nodes - set done) - {n}" by auto
  then show ?thesis using assms unfolding pending_def
    by (subst sum.remove [of _ n]) auto
qed

lemma count_indegrees_fold:
  "fold (\<lambda>m indeg. case indeg m of None \<Rightarrow> indeg | Some d \<Rightarrow> indeg(m \<mapsto> d + 1)) ms indeg x
     = map_option (\<lambda>d. d + int (count_list ms x)) (indeg x)"
  by (induction ms arbitrary: indeg) (auto split: option.splits simp: option.map_ident)

lemma count_indegrees_eq:
  assumes "distinct nodes"
  shows "count_indegrees nodes edges m =
    (if m \<in> set nodes then Some (int (pending nodes edges [] m)) else None)"
proof -
  have "count_list (concat (map edges nodes)) m = (\<Sum>n\<leftarrow>nodes. count_list (edges n) m)"
    by (induction nodes) (auto simp: count_list_append)
  also have "\<dots> = pending nodes edges [] m"
    using assms by (simp add: pending_def sum_list_distinct_conv_sum_set)
  finally have "count_list (concat (map edges nodes)) m = pending nodes edges [] m" .
  moreover have "map_of (map (\<lambda>n. (n, 0::int)) nodes) m = (if m \<in> set nodes then Some 0 else None)"
    by (induction nodes) auto
  ultimately show ?thesis by (simp add: count_indegrees_def count_indegrees_fold)
qed

lemma topo_relax_spec:
  assumes "topo_relax ms (indeg, ready) = (indeg', ready')"
    and "\<And>m. indeg m = (if m \<in> N then Some (int (p m + count_list ms m)) else None)"
  shows "(\<forall>m. indeg' m = (if m \<in> N then Some (int (p m)) else None)) \<and>
    (\<exists>new. ready' = ready @ new \<and> distinct new \<and> set new = {m \<in> N. m \<in> set ms \<and> p m = 0})"
  using assms
proof (induction ms arbitrary: indeg ready)
  case Nil
  then show ?case by auto
next
  case (Cons x ms)
  show ?case
  proof (cases "x \<in> N")
    case False
    then have "indeg x = None" using Cons.prems(2) [of x] by simp
    then have "topo_relax ms (indeg, ready) = (indeg', ready')" using Cons.prems(1) by simp
    moreover have "indeg m = (if m \<in> N then Some (int (p m + count_list ms m)) else None)" for m
      using Cons.prems(2) False by auto
    ultimately have "(\<forall>m. indeg' m = (if m \<in> N then Some (int (p m)) else None)) \<and>
        (\<exists>new. ready' = ready @ new \<and> distinct new \<and> set new = {m \<in> N. m \<in> set ms \<and> p m = 0})"
      by (rule Cons.IH)
    moreover have "{m \<in> N. m \<in> set (x # ms) \<and> p m = 0} = {m \<in> N. m \<in> set ms \<and> p m = 0}"
      using False by auto
    ultimately show ?thesis by simp
  next
    case True
    then have x: "indeg x = Some (int (p x + count_list ms x) + 1)" using Cons.prems(2) by simp
    let ?indeg = "indeg(x \<mapsto> int (p x + count_list ms x))"
    let ?ready = "if p x + count_list ms x = 0 then ready @ [x] else ready"
    have "topo_relax ms (?indeg, ?ready) = (indeg', ready')" using Cons.prems(1) x by (auto split: if_splits)
    moreover have "?indeg m = (if m \<in> N then Some (int (p m + count_list ms m)) else None)" for m
      using Cons.prems(2) True by auto
    ultimately have IH: "\<forall>m. indeg' m = (if m \<in> N then Some (int (p m)) else None)"
      "\<exists>new. ready' = ?ready @ new \<and> distinct new \<and> set new = {m \<in> N. m \<in> set ms \<and> p m = 0}"
      using Cons.IH by blast+
    then obtain new where new: "ready' = ?ready @ new" "distinct new"
      "set new = {m \<in> N. m \<in> set ms \<and> p m = 0}" by blast
    show ?thesis
    proof (cases "p x + count_list ms x = 0")
      case True
      then have "x \<notin> set new" using new(3) by (simp add: count_list_0_iff)
      with True IH(1) new \<open>x \<in> N\<close> show ?thesis
        by (intro conjI exI [of _ "x # new"]) auto
    next
      case False
      then have "p x = 0 \<Longrightarrow> x \<in> set ms" by (simp add: count_list_0_iff)
      with False IH(1) new \<open>x \<in> N\<close> show ?thesis
        by (intro conjI exI [of _ new]) auto
    qed
  qed
qed

definition topo_inv :: "'a list \<Rightarrow> 'a edge_fn \<Rightarrow> 'a list \<times> ('a \<Rightarrow> int option) \<times> 'a list \<Rightarrow> bool" where
  "topo_inv nodes edges = (\<lambda>(order, indeg, ready).
     distinct (order @ ready) \<and>
     (\<forall>m. indeg m = (if m \<in> set nodes then Some (int (pending nodes edges order m)) else None)) \<and>
     set (order @ ready) = {m \<in> set nodes. pending nodes edges order m = 0} \<and>
     sorted_wrt (\<lambda>a b. a \<notin> set (edges b)) order)"

lemma topo_inv_step:
  assumes inv: "topo_inv nodes edges s" and b: "case s of (order, indeg, ready) \<Rightarrow> ready \<noteq> []"
  shows "topo_inv nodes edges (topo_step edges s)"
proof -
  obtain order indeg n ready where s: "s = (order, indeg, n # ready)"
    using b by (cases s) (auto simp: neq_Nil_conv)
  obtain indeg' ready' where relax: "topo_relax (edges n) (indeg, ready) = (indeg', ready')" by force
  have n: "n \<in> set nodes" "n \<notin> set order" "distinct (order @ n # ready)"
    and ok: "set (order @ n # ready) = {m \<in> set nodes. pending nodes edges order m = 0}"
    using inv s by (auto simp: topo_inv_def)
  note pd = pending_done [OF n(1,2), of edges]
  have ind: "indeg m = (if m \<in> set nodes then
      Some (int (pending nodes edges (order @ [n]) m + count_list (edges n) m)) else None)" for m
    using inv s by (simp add: topo_inv_def pd add.commute)
  from topo_relax_spec [OF relax ind] obtain new where
    ind': "\<forall>m. indeg' m = (if m \<in> set nodes then Some (int (pending nodes edges (order @ [n]) m)) else None)"
    and new: "ready' = ready @ new" "distinct new"
      "set new = {m \<in> set nodes. m \<in> set (edges n) \<and> pending nodes edges (order @ [n]) m = 0}"
    by blast
  have zero: "pending nodes edges order m = 0 \<longleftrightarrow>
      m \<notin> set (edges n) \<and> pending nodes edges (order @ [n]) m = 0" for m
    using pd [of m] by (auto simp: count_list_0_iff)
  have "set new \<inter> set (order @ n # ready) = {}" using new(3) ok zero by auto
  then have "distinct ((order @ [n]) @ ready')" using n(3) new by auto
  moreover have "set ((order @ [n]) @ ready') = {m \<in> set nodes. pending nodes edges (order @ [n]) m = 0}"
    using ok new zero by auto
  moreover have "\<forall>a \<in> set order. a \<notin> set (edges n)"
    using ok n by (auto simp: pending_0_iff)
  ultimately show ?thesis
    using inv s relax ind' by (simp add: topo_inv_def topo_step_def sorted_wrt_append)
qed

lemma topo_loop_total:
  assumes "distinct nodes"
  shows "\<exists>order indeg. topo_loop nodes edges = Some (order, indeg, []) \<and> topo_inv nodes edges (order, indeg, [])"
proof -
  let ?b = "\<lambda>(order::'a list, indeg::'a \<Rightarrow> int option, ready::'a list). ready \<noteq> []"
  let ?indeg = "count_indegrees nodes edges"
  let ?init = "([], ?indeg, filter (\<lambda>n. (case ?indeg n of None \<Rightarrow> 0 | Some d \<Rightarrow> d) = 0) nodes)"
  have init: "topo_inv nodes edges ?init"
    using assms by (auto simp: topo_inv_def count_indegrees_eq)
  have dec: "length nodes - length (fst (topo_step edges s)) < length nodes - length (fst s)"
    if "topo_inv nodes edges s" "?b s" for s
  proof -
    obtain order indeg n ready where s: "s = (order, indeg, n # ready)"
      using \<open>?b s\<close> by (cases s) (auto simp: neq_Nil_conv)
    then have "distinct (order @ [n])" "set (order @ [n]) \<subseteq> set nodes"
      using \<open>topo_inv nodes edges s\<close> by (auto simp: topo_inv_def)
    then have "length (order @ [n]) \<le> length nodes"
      by (metis List.finite_set assms card_mono distinct_card)
    with s show ?thesis by (simp add: topo_step_def)
  qed
  have "\<exists>t. while_option ?b (topo_step edges) ?init = Some t"
    by (rule measure_while_option_Some [where P = "topo_inv nodes edges"
          and f = "\<lambda>s. length nodes - length (fst s)"])
       (use topo_inv_step dec init in auto)
  then obtain t where t: "while_option ?b (topo_step edges) ?init = Some t" by blast
  moreover have "topo_inv nodes edges t"
    by (rule while_option_rule [OF _ t]) (use topo_inv_step init in auto)
  moreover have "\<not> ?b t" by (rule while_option_stop [OF t])
  ultimately show ?thesis by (cases t) (auto simp: topo_loop_def Let_def)
qed

lemma topo_complete:
  assumes "acyclic (edge_rel edges)" "set ord \<subseteq> set nodes"
    and zero: "set ord = {m \<in> set nodes. pending nodes edges ord m = 0}"
  shows "set ord = set nodes"
proof (rule ccontr)
  assume "set ord \<noteq> set nodes"
  let ?R = "set nodes - set ord"
  let ?r = "edge_rel edges \<inter> ?R \<times> ?R"
  have "?R \<noteq> {}" using \<open>set ord \<noteq> set nodes\<close> assms(2) by blast
  have "finite ?r" by (rule finite_subset [of _ "?R \<times> ?R"]) auto
  moreover have "acyclic ?r" by (rule acyclic_subset [OF assms(1)]) auto
  ultimately have "wf ?r" by (rule finite_acyclic_wf)
  obtain x where "x \<in> ?R" using \<open>?R \<noteq> {}\<close> by blast
  then obtain z where z: "z \<in> ?R" "\<And>y. (y, z) \<in> ?r \<Longrightarrow> y \<notin> ?R"
    by (rule wfE_min [OF \<open>wf ?r\<close>]) (rule that)
  from z(1) have "pending nodes edges ord z \<noteq> 0" by (subst (asm) zero) simp
  then obtain n where n: "n \<in> ?R" "z \<in> set (edges n)"
    unfolding pending_0_iff by blast
  then have "(n, z) \<in> ?r" using z(1) by simp
  from z(2) [OF this] n(1) show False by contradiction
qed

lemma topo_sort_spec:
  assumes "distinct nodes" "supported nodes edges"
  shows "topo_sort nodes edges = None \<longleftrightarrow> \<not> acyclic (edge_rel edges)"
    and "topo_sort nodes edges = Some order \<Longrightarrow>
      distinct order \<and> set order = set nodes \<and> sorted_wrt (\<lambda>a b. a \<notin> set (edges b)) order"
proof -
  obtain ord indeg where loop: "topo_loop nodes edges = Some (ord, indeg, [])"
    and inv: "topo_inv nodes edges (ord, indeg, [])"
    using topo_loop_total [OF assms(1)] by blast
  have ord: "distinct ord" "set ord \<subseteq> set nodes" "sorted_wrt (\<lambda>a b. a \<notin> set (edges b)) ord"
    and zero: "set ord = {m \<in> set nodes. pending nodes edges ord m = 0}"
    using inv by (simp_all add: topo_inv_def)
  have "length ord = card (set ord)" "length nodes = card (set nodes)"
    using ord(1) assms(1) by (simp_all add: distinct_card)
  then have len: "length ord = length nodes \<longleftrightarrow> set ord = set nodes"
    using card_subset_eq [OF _ ord(2)] by auto
  note cyc = find_cycle_None_iff [OF assms(2)] topo_complete [OF _ ord(2) zero]
  show "topo_sort nodes edges = None \<longleftrightarrow> \<not> acyclic (edge_rel edges)"
    unfolding topo_sort_def Let_def loop option.sel fst_conv len using cyc by simp
  show "topo_sort nodes edges = Some order \<Longrightarrow>
      distinct order \<and> set order = set nodes \<and> sorted_wrt (\<lambda>a b. a \<notin> set (edges b)) order"
    unfolding topo_sort_def Let_def loop option.sel fst_conv len using ord by (simp split: if_splits)
qed

end
