(* ===== verification/Glob.thy ===== *)
theory Glob
  imports Prelude
begin

text \<open>
  Path patterns, \<^verbatim>\<open>packages/core/src/glob.ts\<close>: normalisation and safety of relative paths,
  physical containment, the translation of a glob to a regular expression, matching and
  the overlap test of write targets.
\<close>

section \<open>Relative paths\<close>

fun strip_dot_slash :: "string \<Rightarrow> string" where
  "strip_dot_slash (c # d # s) =
     (if c = CHR ''.'' \<and> d = CHR ''/'' then strip_dot_slash s else c # d # s)"
| "strip_dot_slash s = s"

fun strip_trailing_slash :: "string \<Rightarrow> string" where
  "strip_trailing_slash s =
     (if suffix ''/'' s \<and> 1 < length s then strip_trailing_slash (butlast s) else s)"

declare strip_trailing_slash.simps [simp del]

definition normalize_rel_path :: "string \<Rightarrow> string" where
  "normalize_rel_path p =
     strip_trailing_slash (strip_dot_slash (map (\<lambda>c. if c = CHR 0x5C then CHR ''/'' else c) p))"

text \<open>The test \<^verbatim>\<open>/^[a-zA-Z]:/\<close>.\<close>

definition is_letter :: "char \<Rightarrow> bool" where
  "is_letter c \<longleftrightarrow> (CHR ''a'' \<le> c \<and> c \<le> CHR ''z'') \<or> (CHR ''A'' \<le> c \<and> c \<le> CHR ''Z'')"

fun has_drive :: "string \<Rightarrow> bool" where
  "has_drive (c # d # _) = (is_letter c \<and> d = CHR '':'')"
| "has_drive _ = False"

definition is_safe_relative_path :: "string \<Rightarrow> bool" where
  "is_safe_relative_path p =
     (let norm = normalize_rel_path p in
      if norm = [] then False
      else if prefix ''/'' norm \<or> has_drive norm then False
      else list_all (\<lambda>s. s \<noteq> [] \<and> s \<noteq> ''.'' \<and> s \<noteq> ''..'') (split_on CHR ''/'' norm))"

subsection \<open>Normalisation is idempotent\<close>

lemma strip_dot_slash_no_prefix: "\<not> prefix ''./'' (strip_dot_slash s)"
  by (induction s rule: strip_dot_slash.induct) auto

lemma strip_dot_slash_id: "\<not> prefix ''./'' s \<Longrightarrow> strip_dot_slash s = s"
  by (induction s rule: strip_dot_slash.induct) auto

lemma strip_dot_slash_suffix: "suffix (strip_dot_slash s) s"
  by (induction s rule: strip_dot_slash.induct) (auto intro: suffix_ConsI)

lemma strip_trailing_step:
  "suffix ''/'' s \<and> 1 < length s \<Longrightarrow> strip_trailing_slash s = strip_trailing_slash (butlast s)"
  by (subst strip_trailing_slash.simps) auto

lemma strip_trailing_id:
  "\<not> (suffix ''/'' s \<and> 1 < length s) \<Longrightarrow> strip_trailing_slash s = s"
  by (subst strip_trailing_slash.simps) auto

lemma strip_trailing_prefix: "prefix (strip_trailing_slash s) s"
proof (induction s rule: strip_trailing_slash.induct)
  case (1 s)
  then show ?case
    by (cases "suffix ''/'' s \<and> 1 < length s")
       (auto simp: strip_trailing_step strip_trailing_id intro: prefix_order.trans prefixeq_butlast)
qed

lemma strip_trailing_done:
  "\<not> (suffix ''/'' (strip_trailing_slash s) \<and> 1 < length (strip_trailing_slash s))"
proof (induction s rule: strip_trailing_slash.induct)
  case (1 s)
  then show ?case
    by (cases "suffix ''/'' s \<and> 1 < length s") (simp_all add: strip_trailing_step strip_trailing_id)
qed

lemma normalize_rel_path_chars: "CHR 0x5C \<notin> set (normalize_rel_path p)"
proof -
  have "set (strip_dot_slash s) \<subseteq> set s" for s
    by (rule set_mono_suffix [OF strip_dot_slash_suffix])
  moreover have "set (strip_trailing_slash s) \<subseteq> set s" for s
    by (rule set_mono_prefix [OF strip_trailing_prefix])
  ultimately have "set (normalize_rel_path p) \<subseteq> set (map (\<lambda>c. if c = CHR 0x5C then CHR ''/'' else c) p)"
    unfolding normalize_rel_path_def by (meson subset_trans)
  then show ?thesis by (auto split: if_splits)
qed

lemma normalize_rel_path_idem [simp]:
  "normalize_rel_path (normalize_rel_path p) = normalize_rel_path p"
proof -
  let ?n = "normalize_rel_path p"
  have "map (\<lambda>c. if c = CHR 0x5C then CHR ''/'' else c) ?n = ?n"
    using normalize_rel_path_chars [of p] by (intro map_idI) auto
  moreover have "\<not> prefix ''./'' ?n"
    unfolding normalize_rel_path_def
    by (meson strip_dot_slash_no_prefix strip_trailing_prefix prefix_order.trans)
  moreover have "\<not> (suffix ''/'' ?n \<and> 1 < length ?n)"
    unfolding normalize_rel_path_def by (rule strip_trailing_done)
  ultimately show ?thesis
    by (simp add: normalize_rel_path_def [of ?n] strip_dot_slash_id strip_trailing_id)
qed

lemma is_safe_normalize [simp]:
  "is_safe_relative_path (normalize_rel_path p) = is_safe_relative_path p"
  by (simp add: is_safe_relative_path_def)

lemma is_safe_segments:
  "is_safe_relative_path p \<Longrightarrow> s \<in> set (split_on CHR ''/'' (normalize_rel_path p)) \<Longrightarrow>
     s \<noteq> [] \<and> s \<noteq> ''.'' \<and> s \<noteq> ''..''"
  by (simp add: is_safe_relative_path_def Let_def list_all_iff split: if_splits)

section \<open>Physical containment\<close>

text \<open>
  \<open>lstat\<close> is the file system: for a path as its list of components, \<open>None\<close> when the
  call throws, otherwise whether the entry is a symbolic link. \<open>path_join\<close> is
  \<open>path.join\<close> for the components that can occur here: an empty one and \<open>.\<close> are dropped.
\<close>

type_synonym lstat = "string list \<Rightarrow> bool option"

definition path_join :: "string list \<Rightarrow> string \<Rightarrow> string list" where
  "path_join current part = (if part = [] \<or> part = ''.'' then current else current @ [part])"

fun contained_from :: "lstat \<Rightarrow> string list \<Rightarrow> string list \<Rightarrow> bool" where
  "contained_from lstat current [] = True"
| "contained_from lstat current (part # parts) =
     (let current' = path_join current part in
      case lstat current' of
        None \<Rightarrow> True
      | Some is_symlink \<Rightarrow> if is_symlink then False else contained_from lstat current' parts)"

definition is_physically_contained :: "lstat \<Rightarrow> string list \<Rightarrow> string \<Rightarrow> bool" where
  "is_physically_contained lstat root rel_path =
     (if \<not> is_safe_relative_path rel_path then False
      else contained_from lstat root (split_on CHR ''/'' rel_path))"

text \<open>
  A file system lists nothing below a missing entry. Under that hypothesis an accepted path
  has no symbolic link at any of its components.
\<close>

definition fs_tree :: "lstat \<Rightarrow> bool" where
  "fs_tree lstat \<longleftrightarrow> (\<forall>p q. lstat p = None \<longrightarrow> lstat (p @ q) = None)"

lemma contained_from_no_symlink:
  assumes "fs_tree lstat" "contained_from lstat current parts" "qs \<noteq> []" "prefix qs parts"
  shows "lstat (foldl path_join current qs) \<noteq> Some True"
  using assms(2-4)
proof (induction parts arbitrary: current qs)
  case (Cons part parts)
  then obtain qs' where qs: "qs = part # qs'" "prefix qs' parts" by (cases qs) auto
  have mono: "\<exists>r. foldl path_join c ps = c @ r" for c ps
  proof (induction ps arbitrary: c)
    case (Cons a ps)
    obtain r where "foldl path_join (path_join c a) ps = path_join c a @ r" using Cons by blast
    moreover have "\<exists>r. path_join c a = c @ r" by (simp add: path_join_def)
    ultimately show ?case by auto
  qed simp
  show ?case
  proof (cases "lstat (path_join current part)")
    case None
    with assms(1) mono [of "path_join current part" qs'] qs show ?thesis
      by (auto simp: fs_tree_def)
  next
    case (Some b)
    then have "\<not> b" "contained_from lstat (path_join current part) parts"
      using Cons.prems(1) by (auto simp: Let_def split: if_splits)
    with Some qs Cons.IH [of "path_join current part" qs'] show ?thesis
      by (cases "qs' = []") auto
  qed
qed simp

section \<open>Globs as regular expressions\<close>

text \<open>
  The regular expressions \<^verbatim>\<open>globToRegExp\<close> can build, anchored at both ends, as the list of
  their atoms: an escaped character, \<^verbatim>\<open>[^/]\<close>, \<^verbatim>\<open>[^/]*\<close>, \<^verbatim>\<open>.*\<close> and \<^verbatim>\<open>(?:[^/]+/)*\<close>. A dot
  does not match a line terminator.
\<close>

datatype atom = Lit char | NonSlash | NonSlashStar | DotStar | DirStar

definition line_terminator :: "char \<Rightarrow> bool" where
  "line_terminator c \<longleftrightarrow> c = CHR 0x0A \<or> c = CHR 0x0D"

definition segment_to_regex :: "string \<Rightarrow> atom list" where
  "segment_to_regex seg =
     map (\<lambda>ch. if ch = CHR ''*'' then NonSlashStar else if ch = CHR ''?'' then NonSlash else Lit ch) seg"

fun segments_to_regex :: "string list \<Rightarrow> atom list" where
  "segments_to_regex [] = []"
| "segments_to_regex [seg] = (if seg = ''**'' then [DotStar] else segment_to_regex seg)"
| "segments_to_regex (seg # segs) =
     (if seg = ''**'' then DirStar # segments_to_regex segs
      else segment_to_regex seg @ Lit CHR ''/'' # segments_to_regex segs)"

definition glob_to_reg_exp :: "string \<Rightarrow> atom list" where
  "glob_to_reg_exp pattern = segments_to_regex (split_on CHR ''/'' (normalize_rel_path pattern))"

text \<open>Anchored matching; \<open>in_dir\<close> is inside an iteration of \<^verbatim>\<open>(?:[^/]+/)*\<close>.\<close>

function re_test :: "atom list \<Rightarrow> string \<Rightarrow> bool" and in_dir :: "atom list \<Rightarrow> string \<Rightarrow> bool" where
  "re_test [] s = (s = [])"
| "re_test (Lit c # as) s = (case s of [] \<Rightarrow> False | x # xs \<Rightarrow> x = c \<and> re_test as xs)"
| "re_test (NonSlash # as) s = (case s of [] \<Rightarrow> False | x # xs \<Rightarrow> x \<noteq> CHR ''/'' \<and> re_test as xs)"
| "re_test (NonSlashStar # as) s =
     (re_test as s \<or> (case s of [] \<Rightarrow> False | x # xs \<Rightarrow> x \<noteq> CHR ''/'' \<and> re_test (NonSlashStar # as) xs))"
| "re_test (DotStar # as) s =
     (re_test as s \<or> (case s of [] \<Rightarrow> False | x # xs \<Rightarrow> \<not> line_terminator x \<and> re_test (DotStar # as) xs))"
| "re_test (DirStar # as) s =
     (re_test as s \<or> (case s of [] \<Rightarrow> False | x # xs \<Rightarrow> x \<noteq> CHR ''/'' \<and> in_dir as xs))"
| "in_dir as [] = False"
| "in_dir as (x # xs) = (if x = CHR ''/'' then re_test (DirStar # as) xs else in_dir as xs)"
  by pat_completeness auto
termination
  by (relation "measures [\<lambda>p. case p of Inl (as, s) \<Rightarrow> length s | Inr (as, s) \<Rightarrow> length s,
        \<lambda>p. case p of Inl (as, s) \<Rightarrow> length as | Inr (as, s) \<Rightarrow> 0]") auto

definition glob_match :: "string \<Rightarrow> string \<Rightarrow> bool" where
  "glob_match pattern path = re_test (glob_to_reg_exp pattern) (normalize_rel_path path)"

definition glob_match_any :: "string list \<Rightarrow> string \<Rightarrow> bool" where
  "glob_match_any patterns path = list_ex (\<lambda>p. glob_match p path) patterns"

text \<open>The leading segments before the first wildcard segment.\<close>

definition literal_prefix :: "string \<Rightarrow> string" where
  "literal_prefix pattern =
     join_with ''/'' (takeWhile
       (\<lambda>seg. \<not> (seg = ''**'' \<or> CHR ''*'' \<in> set seg \<or> CHR ''?'' \<in> set seg))
       (split_on CHR ''/'' (normalize_rel_path pattern)))"

definition patterns_overlap :: "string \<Rightarrow> string \<Rightarrow> bool" where
  "patterns_overlap a b =
     (if normalize_rel_path a = normalize_rel_path b then True
      else
        (let pa = literal_prefix a; pb = literal_prefix b in
         if pa = [] \<or> pb = [] then True
         else re_test (glob_to_reg_exp a) pb \<or> re_test (glob_to_reg_exp b) pa))"

text \<open>\<open>assertSafeGlob\<close> throws \<open>SPC_GLOB_ERROR\<close> for the pattern, or returns.\<close>

datatype glob_error = UnsafePattern string

definition assert_safe_glob :: "string \<Rightarrow> (glob_error, unit) result" where
  "assert_safe_glob pattern =
     (if \<not> is_safe_relative_path pattern \<and> normalize_rel_path pattern \<noteq> ''**''
      then Inl (UnsafePattern pattern) else Inr ())"

section \<open>What a glob means on path segments\<close>

text \<open>
  The reference: \<open>*\<close> and \<open>?\<close> inside one segment, and \<open>**\<close> for any number of segments (at
  least one in the last position).
\<close>

fun wild_match :: "string \<Rightarrow> string \<Rightarrow> bool" where
  "wild_match [] s = (s = [])"
| "wild_match (p # ps) [] = (p = CHR ''*'' \<and> wild_match ps [])"
| "wild_match (p # ps) (x # xs) =
     (if p = CHR ''*'' then wild_match ps (x # xs) \<or> wild_match (p # ps) xs
      else if p = CHR ''?'' then wild_match ps xs
      else p = x \<and> wild_match ps xs)"

fun seg_match :: "string list \<Rightarrow> string list \<Rightarrow> bool" where
  "seg_match [] ss = (ss = [])"
| "seg_match [p] ss = (if p = ''**'' then ss \<noteq> [] else (case ss of [s] \<Rightarrow> wild_match p s | _ \<Rightarrow> False))"
| "seg_match (p # ps) [] = (p = ''**'' \<and> seg_match ps [])"
| "seg_match (p # ps) (s # ss) =
     (if p = ''**'' then seg_match ps (s # ss) \<or> seg_match (p # ps) ss
      else wild_match p s \<and> seg_match ps ss)"

subsection \<open>The regular expression agrees with the reference\<close>

lemma segment_to_regex_simps [simp]:
  "segment_to_regex [] = []"
  "segment_to_regex (p # ps) =
     (if p = CHR ''*'' then NonSlashStar else if p = CHR ''?'' then NonSlash else Lit p) # segment_to_regex ps"
  by (simp_all add: segment_to_regex_def)

lemma re_test_segment_slash:
  "CHR ''/'' \<notin> set p \<Longrightarrow> CHR ''/'' \<notin> set s \<Longrightarrow>
     re_test (segment_to_regex p @ Lit CHR ''/'' # as) (s @ CHR ''/'' # t) \<longleftrightarrow>
       wild_match p s \<and> re_test as t"
proof (induction p s rule: wild_match.induct)
  case (1 s)
  then show ?case by (cases s) auto
qed auto

lemma re_test_segment_no_slash:
  "CHR ''/'' \<notin> set p \<Longrightarrow> CHR ''/'' \<notin> set s \<Longrightarrow>
     \<not> re_test (segment_to_regex p @ Lit CHR ''/'' # as) s"
proof (induction p s rule: wild_match.induct)
  case (1 s)
  then show ?case by (cases s) auto
qed auto

lemma re_test_segment_last:
  "CHR ''/'' \<notin> set p \<Longrightarrow> CHR ''/'' \<notin> set s \<Longrightarrow> re_test (segment_to_regex p) s \<longleftrightarrow> wild_match p s"
  by (induction p s rule: wild_match.induct) auto

lemma re_test_segment_slash_last:
  "CHR ''/'' \<notin> set p \<Longrightarrow> re_test (segment_to_regex p) s \<Longrightarrow> CHR ''/'' \<notin> set s"
  by (induction p s rule: wild_match.induct) (auto split: if_splits)

lemma re_test_dot_star: "re_test [DotStar] s \<longleftrightarrow> (\<forall>c \<in> set s. \<not> line_terminator c)"
  by (induction s) auto

lemma in_dir_append: "CHR ''/'' \<notin> set x \<Longrightarrow> in_dir as (x @ CHR ''/'' # t) = re_test (DirStar # as) t"
  by (induction x) auto

lemma in_dir_no_slash: "CHR ''/'' \<notin> set x \<Longrightarrow> \<not> in_dir as x"
  by (induction x) auto

lemma re_test_dir_star_slash:
  assumes "CHR ''/'' \<notin> set x" "x \<noteq> []"
  shows "re_test (DirStar # as) (x @ CHR ''/'' # t) \<longleftrightarrow> re_test as (x @ CHR ''/'' # t) \<or> re_test (DirStar # as) t"
proof -
  obtain a y where x: "x = a # y" using assms(2) by (cases x) auto
  then have "in_dir as (y @ CHR ''/'' # t) = re_test (DirStar # as) t"
    using assms(1) by (intro in_dir_append) simp
  with x assms(1) show ?thesis by (subst re_test.simps) (auto simp del: re_test.simps)
qed

lemma re_test_dir_star_last:
  assumes "CHR ''/'' \<notin> set x"
  shows "re_test (DirStar # as) x \<longleftrightarrow> re_test as x"
  using assms in_dir_no_slash [of "tl x" as]
  by (subst re_test.simps) (auto split: list.splits simp del: re_test.simps)

lemmas re_test_dir_star = re_test_dir_star_slash re_test_dir_star_last

lemma seg_match_Nil: "ps \<noteq> [] \<Longrightarrow> \<not> seg_match ps []"
  by (induction ps "[] :: string list" rule: seg_match.induct) auto

definition plain_segments :: "string list \<Rightarrow> bool" where
  "plain_segments ss \<longleftrightarrow> ss \<noteq> [] \<and>
     (\<forall>s \<in> set ss. s \<noteq> [] \<and> (\<forall>c \<in> set s. c \<noteq> CHR ''/'' \<and> \<not> line_terminator c))"

lemma re_test_one_segment:
  assumes "CHR ''/'' \<notin> set p" "plain_segments ss"
  shows "re_test (segments_to_regex [p]) (join_with ''/'' ss) \<longleftrightarrow> seg_match [p] ss"
proof -
  obtain s ss' where ss: "ss = s # ss'" "CHR ''/'' \<notin> set s"
    using assms(2) by (cases ss) (auto simp: plain_segments_def)
  show ?thesis
  proof (cases "p = ''**''")
    case True
    have "\<not> line_terminator c" if "c \<in> set (join_with ''/'' ss)" for c
      using set_join_with [OF that] assms(2) by (auto simp: plain_segments_def line_terminator_def)
    with True ss show ?thesis by (simp add: re_test_dot_star del: re_test.simps)
  next
    case False
    show ?thesis
    proof (cases ss')
      case Nil
      with False ss assms(1) show ?thesis by (simp add: re_test_segment_last del: re_test.simps)
    next
      case (Cons t ts)
      then have "\<not> re_test (segment_to_regex p) (join_with ''/'' ss)"
        using re_test_segment_slash_last [OF assms(1)] ss(1) by fastforce
      with False ss Cons show ?thesis by simp
    qed
  qed
qed

lemma re_test_segments:
  "ps \<noteq> [] \<Longrightarrow> (\<And>p. p \<in> set ps \<Longrightarrow> CHR ''/'' \<notin> set p) \<Longrightarrow> plain_segments ss \<Longrightarrow>
   re_test (segments_to_regex ps) (join_with ''/'' ss) \<longleftrightarrow> seg_match ps ss"
proof (induction ps ss rule: seg_match.induct)
  case (2 p ss)
  then show ?case by (intro re_test_one_segment) auto
next
  case (4 p q ps s ss)
  let ?as = "segments_to_regex (q # ps)"
  have s: "s \<noteq> []" "CHR ''/'' \<notin> set s" and p: "CHR ''/'' \<notin> set p"
    and qs: "\<And>x. x \<in> set (q # ps) \<Longrightarrow> CHR ''/'' \<notin> set x"
    using "4.prems"(2,3) by (auto simp: plain_segments_def)
  have here: "p = ''**'' \<Longrightarrow> re_test ?as (join_with ''/'' (s # ss)) \<longleftrightarrow> seg_match (q # ps) (s # ss)"
    using "4.IH"(1) qs "4.prems"(3) by blast
  have regex: "segments_to_regex (p # q # ps) =
      (if p = ''**'' then DirStar # ?as else segment_to_regex p @ Lit CHR ''/'' # ?as)" by simp
  show ?case
  proof (cases ss)
    case Nil
    then have "\<not> seg_match (p # q # ps) ss" "\<not> seg_match (q # ps) ss" by (simp_all add: seg_match_Nil)
    then show ?thesis
      using here Nil re_test_dir_star_last [OF s(2), of ?as] re_test_segment_no_slash [OF p s(2), of ?as]
      unfolding regex by (cases "p = ''**''") (simp_all del: re_test.simps segments_to_regex.simps)
  next
    case (Cons t ts)
    then have join: "join_with ''/'' (s # ss) = s @ CHR ''/'' # join_with ''/'' ss" by simp
    have plain: "plain_segments ss" using "4.prems"(3) Cons by (simp add: plain_segments_def)
    show ?thesis
    proof (cases "p = ''**''")
      case True
      then have "re_test (DirStar # ?as) (join_with ''/'' ss) \<longleftrightarrow> seg_match (p # q # ps) ss"
        using "4.IH"(2) "4.prems"(2) plain regex by auto
      then show ?thesis
        using True here re_test_dir_star_slash [OF s(2,1)] unfolding join regex
        by (simp del: re_test.simps segments_to_regex.simps)
    next
      case False
      then have "re_test ?as (join_with ''/'' ss) \<longleftrightarrow> seg_match (q # ps) ss"
        using "4.IH"(3) qs plain by blast
      then show ?thesis
        using False re_test_segment_slash [OF p s(2)] unfolding join regex
        by (simp del: re_test.simps segments_to_regex.simps)
    qed
  qed
qed (simp_all add: plain_segments_def)

text \<open>The segments of a safe path without line terminators are plain.\<close>

definition one_line :: "string \<Rightarrow> bool" where
  "one_line s \<longleftrightarrow> list_all (\<lambda>c. \<not> line_terminator c) s"

abbreviation path_segments :: "string \<Rightarrow> string list" where
  "path_segments p \<equiv> split_on CHR ''/'' (normalize_rel_path p)"

lemma set_split_on: "s \<in> set (split_on c xs) \<Longrightarrow> set s \<subseteq> set xs"
  by (induction xs arbitrary: s) (fastforce split: if_splits list.splits)+

lemma safe_plain_segments:
  assumes "is_safe_relative_path path" "one_line (normalize_rel_path path)"
  shows "plain_segments (path_segments path)"
  using is_safe_segments [OF assms(1)] assms(2) split_on_no_sep set_split_on
  unfolding plain_segments_def one_line_def list_all_iff
  by (metis split_on_not_Nil subset_iff)

lemma glob_match_iff_seg_match:
  assumes "is_safe_relative_path path" "one_line (normalize_rel_path path)"
  shows "glob_match pattern path \<longleftrightarrow> seg_match (path_segments pattern) (path_segments path)"
  using re_test_segments [OF split_on_not_Nil split_on_no_sep safe_plain_segments [OF assms],
      of "CHR ''/''" "normalize_rel_path pattern"]
  by (simp add: glob_match_def glob_to_reg_exp_def)

section \<open>Literal patterns\<close>

definition literal_pattern :: "string \<Rightarrow> bool" where
  "literal_pattern p \<longleftrightarrow> CHR ''*'' \<notin> set p \<and> CHR ''?'' \<notin> set p"

lemma re_test_map_Lit: "re_test (map Lit s) t \<longleftrightarrow> t = s"
  by (induction s arbitrary: t) (auto split: list.splits)

lemma segments_to_regex_literal:
  "\<forall>s \<in> set segs. literal_pattern s \<Longrightarrow> segs \<noteq> [] \<Longrightarrow>
     segments_to_regex segs = map Lit (join_with ''/'' segs)"
proof (induction segs rule: segments_to_regex.induct)
  case (2 seg)
  then show ?case by (auto simp: literal_pattern_def segment_to_regex_def)
next
  case (3 seg v va)
  then have "segment_to_regex seg = map Lit seg" "seg \<noteq> ''**''"
    by (auto simp: literal_pattern_def segment_to_regex_def)
  with 3 show ?case by simp
qed simp

lemma set_normalize_rel_path: "c \<in> set (normalize_rel_path p) \<Longrightarrow> c \<in> set p \<or> c = CHR ''/''"
proof -
  assume "c \<in> set (normalize_rel_path p)"
  then have "c \<in> set (map (\<lambda>c. if c = CHR 0x5C then CHR ''/'' else c) p)"
    unfolding normalize_rel_path_def
    by (meson set_mono_prefix [OF strip_trailing_prefix] set_mono_suffix [OF strip_dot_slash_suffix] subset_iff)
  then show ?thesis by (auto split: if_splits)
qed

lemma literal_pattern_subset:
  "literal_pattern p \<Longrightarrow> set s \<subseteq> insert CHR ''/'' (set p) \<Longrightarrow> literal_pattern s"
  by (auto simp: literal_pattern_def)

lemma literal_segments:
  assumes "literal_pattern p" "s \<in> set (path_segments p)"
  shows "literal_pattern s"
  by (rule literal_pattern_subset [OF assms(1)])
     (use set_split_on [OF assms(2)] set_normalize_rel_path in blast)

lemma glob_literal:
  assumes "literal_pattern p"
  shows "re_test (glob_to_reg_exp p) t \<longleftrightarrow> t = normalize_rel_path p"
proof -
  have "glob_to_reg_exp p = map Lit (normalize_rel_path p)"
    using segments_to_regex_literal [of "path_segments p"] literal_segments [OF assms]
    by (simp add: glob_to_reg_exp_def)
  then show ?thesis by (simp add: re_test_map_Lit)
qed

lemma literal_prefix_literal: "literal_pattern p \<Longrightarrow> literal_prefix p = normalize_rel_path p"
proof -
  assume p: "literal_pattern p"
  have "\<not> (seg = ''**'' \<or> CHR ''*'' \<in> set seg \<or> CHR ''?'' \<in> set seg)" if "seg \<in> set (path_segments p)" for seg
    using literal_segments [OF p that] by (auto simp: literal_pattern_def)
  then have "takeWhile (\<lambda>seg. \<not> (seg = ''**'' \<or> CHR ''*'' \<in> set seg \<or> CHR ''?'' \<in> set seg)) (path_segments p)
      = path_segments p"
    unfolding takeWhile_eq_all_conv by blast
  then show ?thesis by (simp only: literal_prefix_def join_split)
qed

lemma patterns_overlap_sym: "patterns_overlap a b = patterns_overlap b a"
  by (auto simp: patterns_overlap_def Let_def)

lemma patterns_overlap_literal:
  assumes "literal_pattern b" "glob_match a p" "glob_match b p"
  shows "patterns_overlap a b"
proof -
  have "normalize_rel_path p = normalize_rel_path b"
    using assms(1,3) by (simp add: glob_match_def glob_literal)
  then have "re_test (glob_to_reg_exp a) (literal_prefix b)"
    using assms(1,2) by (simp add: glob_match_def literal_prefix_literal)
  then show ?thesis by (simp add: patterns_overlap_def Let_def)
qed

end
