(* ===== verification/Canonical.thy ===== *)
theory Canonical
  imports Prelude "HOL-Library.Multiset"
begin

text \<open>
  Canonical JSON and digests, \<^verbatim>\<open>packages/core/src/canonical.ts\<close> and \<^verbatim>\<open>hash.ts\<close>.

  A JavaScript value is a primitive or a reference into a heap of objects, so that sharing
  and cycles are expressible. Numbers are integers and the three non-finite values;
  finite fractions are outside the model.
\<close>

section \<open>JavaScript values\<close>

datatype js_value =
    JsNull | JsBool bool | JsNum int | JsNaN | JsInfinity bool | JsString string
  | JsBigint int | JsSymbol | JsFunction | JsUndefined | JsRef nat

text \<open>
  \<open>JsPlain\<close> is an object whose prototype is \<^verbatim>\<open>Object.prototype\<close> or null, with its own
  enumerable properties; \<open>JsOther\<close> is an instance of some other class.
\<close>

datatype js_object =
    JsArray "js_value list" | JsDate | JsPlain "(string \<times> js_value) list" | JsOther string

type_synonym js_heap = "js_object list"

text \<open>The canonical values that come out.\<close>

datatype json =
    JNull | JBool bool | JNum int | JString string | JArray "json list" | JObject "(string \<times> json) list"

text \<open>The reasons of \<open>SPC_CANONICALIZATION_ERROR\<close>; \<open>Dangling\<close> is a reference outside the heap.\<close>

datatype canonical_error =
    NotFinite | Bigint | Symbol | Function | UndefinedValue | DateObject | CycleDetected
  | UndefinedItem nat | UnsupportedType string | Dangling

section \<open>canonicalize\<close>

text \<open>
  Own properties with a defined value, by key. A property assignment \<open>out[k] = v\<close> replaces
  or appends, except that the key \<open>__proto__\<close> names the prototype accessor and adds no own
  property. Reading the result back enumerates integer keys first, in ascending order.
\<close>

definition defined_fields :: "(string \<times> js_value) list \<Rightarrow> (string \<times> js_value) list" where
  "defined_fields fields = sort_key fst (filter (\<lambda>(k, v). v \<noteq> JsUndefined) fields)"

definition array_index :: "string \<Rightarrow> bool" where
  "array_index k \<longleftrightarrow> k = ''0'' \<or>
     (k \<noteq> [] \<and> hd k \<noteq> CHR ''0'' \<and> length k \<le> 10 \<and> list_all (\<lambda>c. CHR ''0'' \<le> c \<and> c \<le> CHR ''9'') k
      \<and> (length k < 10 \<or> k < ''4294967295''))"

definition own_key_order :: "(string \<times> 'a) list \<Rightarrow> (string \<times> 'a) list" where
  "own_key_order fields =
     sort_key (\<lambda>(k, v). length k) (filter (\<lambda>(k, v). array_index k) fields)
     @ filter (\<lambda>(k, v). \<not> array_index k) fields"

lemma card_seen_less:
  "a < (n::nat) \<Longrightarrow> a \<notin> seen \<Longrightarrow> card ({..<n} - insert a seen) < card ({..<n} - seen)"
  by (subst Diff_insert, rule card_Diff1_less) simp_all

function transform :: "js_heap \<Rightarrow> nat set \<Rightarrow> js_value \<Rightarrow> (canonical_error, json) result"
  and transform_items :: "js_heap \<Rightarrow> nat set \<Rightarrow> nat \<Rightarrow> js_value list \<Rightarrow> (canonical_error, json list) result"
  and transform_fields ::
    "js_heap \<Rightarrow> nat set \<Rightarrow> (string \<times> js_value) list \<Rightarrow> (canonical_error, (string \<times> json) list) result"
where
  "transform heap seen v =
     (case v of
        JsNull \<Rightarrow> Inr JNull
      | JsBool b \<Rightarrow> Inr (JBool b)
      | JsString s \<Rightarrow> Inr (JString s)
      | JsNum i \<Rightarrow> Inr (JNum i)
      | JsNaN \<Rightarrow> Inl NotFinite
      | JsInfinity _ \<Rightarrow> Inl NotFinite
      | JsBigint _ \<Rightarrow> Inl Bigint
      | JsSymbol \<Rightarrow> Inl Symbol
      | JsFunction \<Rightarrow> Inl Function
      | JsUndefined \<Rightarrow> Inl UndefinedValue
      | JsRef a \<Rightarrow>
          (if length heap \<le> a then Inl Dangling
           else
             (case heap ! a of
                JsDate \<Rightarrow> Inl DateObject
              | JsArray items \<Rightarrow>
                  (if a \<in> seen then Inl CycleDetected
                   else bind_result (transform_items heap (insert a seen) 0 items) (\<lambda>js. Inr (JArray js)))
              | JsOther cls \<Rightarrow> Inl (UnsupportedType cls)
              | JsPlain fields \<Rightarrow>
                  (if a \<in> seen then Inl CycleDetected
                   else bind_result (transform_fields heap (insert a seen) (defined_fields fields))
                          (\<lambda>js. Inr (JObject (own_key_order js)))))))"
| "transform_items heap seen i [] = Inr []"
| "transform_items heap seen i (v # vs) =
     (if v = JsUndefined then Inl (UndefinedItem i)
      else bind_result (transform heap seen v) (\<lambda>j.
           bind_result (transform_items heap seen (Suc i) vs) (\<lambda>js. Inr (j # js))))"
| "transform_fields heap seen [] = Inr []"
| "transform_fields heap seen ((k, v) # kvs) =
     bind_result (transform heap seen v) (\<lambda>j.
     bind_result (transform_fields heap seen kvs) (\<lambda>js.
       Inr (if k = ''__proto__'' then js else (k, j) # js)))"
  by pat_completeness auto
termination
  by (relation "measures
        [\<lambda>p. case p of Inl (heap, seen, v) \<Rightarrow> card ({..<length heap} - seen)
              | Inr (Inl (heap, seen, i, vs)) \<Rightarrow> card ({..<length heap} - seen)
              | Inr (Inr (heap, seen, kvs)) \<Rightarrow> card ({..<length heap} - seen),
         \<lambda>p. case p of Inl (heap, seen, v) \<Rightarrow> 0
              | Inr (Inl (heap, seen, i, vs)) \<Rightarrow> Suc (length vs)
              | Inr (Inr (heap, seen, kvs)) \<Rightarrow> Suc (length kvs)]")
     (auto intro!: card_seen_less simp del: card_Diff_insert simp: not_le)

declare transform.simps [simp del]

lemma transform_simps:
  "transform heap seen JsNull = Inr JNull"
  "transform heap seen (JsBool b) = Inr (JBool b)"
  "transform heap seen (JsString s) = Inr (JString s)"
  "transform heap seen (JsNum i) = Inr (JNum i)"
  "transform heap seen JsNaN = Inl NotFinite"
  "transform heap seen (JsInfinity b) = Inl NotFinite"
  "transform heap seen (JsBigint i) = Inl Bigint"
  "transform heap seen JsSymbol = Inl Symbol"
  "transform heap seen JsFunction = Inl Function"
  "transform heap seen JsUndefined = Inl UndefinedValue"
  by (simp_all add: transform.simps)

definition canonicalize :: "js_heap \<Rightarrow> js_value \<Rightarrow> (canonical_error, json) result" where
  "canonicalize heap v = transform heap {} v"

section \<open>canonicalJson and digests\<close>

text \<open>\<open>JSON.stringify\<close> of a canonical value.\<close>

definition hex_digit :: "nat \<Rightarrow> char" where
  "hex_digit d = char_of (if d < 10 then 48 + d else 87 + d)"

definition escape_char :: "char \<Rightarrow> string" where
  "escape_char c =
     (if c = CHR 0x22 then [CHR 0x5C, CHR 0x22]
      else if c = CHR 0x5C then [CHR 0x5C, CHR 0x5C]
      else if c = CHR 0x08 then [CHR 0x5C, CHR ''b'']
      else if c = CHR 0x09 then [CHR 0x5C, CHR ''t'']
      else if c = CHR 0x0A then [CHR 0x5C, CHR ''n'']
      else if c = CHR 0x0C then [CHR 0x5C, CHR ''f'']
      else if c = CHR 0x0D then [CHR 0x5C, CHR ''r'']
      else if c < CHR 0x20 then
        [CHR 0x5C, CHR ''u'', CHR ''0'', CHR ''0'', hex_digit (of_char c div 16), hex_digit (of_char c mod 16)]
      else [c])"

definition quote :: "string \<Rightarrow> string" where
  "quote s = CHR 0x22 # concat (map escape_char s) @ [CHR 0x22]"

fun stringify :: "json \<Rightarrow> string"
  and stringify_items :: "json list \<Rightarrow> string"
  and stringify_fields :: "(string \<times> json) list \<Rightarrow> string" where
  "stringify JNull = ''null''"
| "stringify (JBool b) = (if b then ''true'' else ''false'')"
| "stringify (JNum i) = show_int i"
| "stringify (JString s) = quote s"
| "stringify (JArray js) = CHR ''['' # stringify_items js"
| "stringify (JObject fs) = CHR ''{'' # stringify_fields fs"
| "stringify_items [] = [CHR '']'']"
| "stringify_items [j] = stringify j @ [CHR '']'']"
| "stringify_items (j # js) = stringify j @ CHR '','' # stringify_items js"
| "stringify_fields [] = [CHR ''}'']"
| "stringify_fields [(k, j)] = quote k @ CHR '':'' # stringify j @ [CHR ''}'']"
| "stringify_fields ((k, j) # fs) = quote k @ CHR '':'' # stringify j @ CHR '','' # stringify_fields fs"

definition canonical_json :: "js_heap \<Rightarrow> js_value \<Rightarrow> (canonical_error, string) result" where
  "canonical_json heap v = bind_result (canonicalize heap v) (\<lambda>j. Inr (stringify j))"

text \<open>\<open>sha256_hex\<close> is the hash function of \<^verbatim>\<open>node:crypto\<close>.\<close>

definition digest_of :: "(string \<Rightarrow> string) \<Rightarrow> js_heap \<Rightarrow> js_value \<Rightarrow> (canonical_error, string) result" where
  "digest_of sha256_hex heap v =
     bind_result (canonical_json heap v) (\<lambda>s. Inr (''sha256:'' @ sha256_hex s))"

section \<open>Cycle detection is exact\<close>

text \<open>
  The plain recursion over the object graph without a set of visited objects, bounded by a
  depth. A value with a finite unfolding reaches it at some depth; a cyclic one at none.
\<close>

fun unfold :: "nat \<Rightarrow> js_heap \<Rightarrow> js_value \<Rightarrow> json option"
  and unfold_items :: "nat \<Rightarrow> js_heap \<Rightarrow> js_value list \<Rightarrow> json list option"
  and unfold_fields :: "nat \<Rightarrow> js_heap \<Rightarrow> (string \<times> js_value) list \<Rightarrow> (string \<times> json) list option" where
  "unfold 0 heap v = None"
| "unfold (Suc n) heap v =
     (case v of
        JsNull \<Rightarrow> Some JNull
      | JsBool b \<Rightarrow> Some (JBool b)
      | JsString s \<Rightarrow> Some (JString s)
      | JsNum i \<Rightarrow> Some (JNum i)
      | JsRef a \<Rightarrow>
          (if length heap \<le> a then None
           else
             (case heap ! a of
                JsArray items \<Rightarrow> map_option JArray (unfold_items n heap items)
              | JsPlain fields \<Rightarrow>
                  map_option (\<lambda>js. JObject (own_key_order js)) (unfold_fields n heap (defined_fields fields))
              | _ \<Rightarrow> None))
      | _ \<Rightarrow> None)"
| "unfold_items n heap [] = Some []"
| "unfold_items n heap (v # vs) =
     (if v = JsUndefined then None
      else Option.bind (unfold n heap v) (\<lambda>j. map_option (\<lambda>js. j # js) (unfold_items n heap vs)))"
| "unfold_fields n heap [] = Some []"
| "unfold_fields n heap ((k, v) # kvs) =
     Option.bind (unfold n heap v) (\<lambda>j.
       map_option (\<lambda>js. if k = ''__proto__'' then js else (k, j) # js) (unfold_fields n heap kvs))"

lemma unfold_Suc:
  "unfold n heap v = Some j \<Longrightarrow> unfold (Suc n) heap v = Some j"
  "unfold_items n heap vs = Some js \<Longrightarrow> unfold_items (Suc n) heap vs = Some js"
  "unfold_fields n heap kvs = Some fs \<Longrightarrow> unfold_fields (Suc n) heap kvs = Some fs"
proof (induction n heap v and n heap vs and n heap kvs arbitrary: j and js and fs
    rule: unfold_unfold_items_unfold_fields.induct)
  case (2 n heap v)
  show ?case
  proof (cases v)
    case (JsRef a)
    show ?thesis
    proof (cases "length heap \<le> a")
      case False
      then show ?thesis using 2(1) [OF JsRef False] 2(2) [OF JsRef False] 2(3) JsRef
        by (cases "heap ! a") (auto simp del: unfold_items.simps unfold_fields.simps)
    qed (use 2(3) JsRef in simp)
  qed (use 2(3) in simp_all)
next
  case (4 n heap v vs)
  then show ?case by (auto split: if_splits simp: Option.bind_eq_Some_conv simp del: unfold.simps)
next
  case (6 n heap k v kvs)
  then show ?case by (fastforce simp: Option.bind_eq_Some_conv simp del: unfold.simps)
qed auto

lemma unfold_le:
  assumes "n \<le> m"
  shows "unfold n heap v = Some j \<Longrightarrow> unfold m heap v = Some j"
    and "unfold_items n heap vs = Some js \<Longrightarrow> unfold_items m heap vs = Some js"
    and "unfold_fields n heap kvs = Some fs \<Longrightarrow> unfold_fields m heap kvs = Some fs"
  using assms by (induction rule: inc_induct) (auto intro: unfold_Suc simp del: unfold.simps)

lemma transform_unfold:
  "transform heap seen v = Inr j \<Longrightarrow> \<exists>n. unfold n heap v = Some j"
  "transform_items heap seen i vs = Inr js \<Longrightarrow> \<exists>n. unfold_items n heap vs = Some js"
  "transform_fields heap seen kvs = Inr fs \<Longrightarrow> \<exists>n. unfold_fields n heap kvs = Some fs"
proof (induction heap seen v and heap seen i vs and heap seen kvs arbitrary: j and js and fs
    rule: transform_transform_items_transform_fields.induct)
  case (1 heap seen v)
  show ?case
  proof (cases v)
    case (JsRef a)
    note tr = 1(3) [unfolded JsRef transform.simps [of heap seen "JsRef a"], simplified]
    then have a: "\<not> length heap \<le> a" by (auto split: if_splits)
    show ?thesis
    proof (cases "heap ! a")
      case (JsArray items)
      then have "a \<notin> seen" and "\<exists>js. transform_items heap (insert a seen) 0 items = Inr js \<and> j = JArray js"
        using tr a by (auto simp: result_iff split: if_splits)
      then obtain js n where "unfold_items n heap items = Some js" "j = JArray js"
        using 1(1) [OF JsRef a JsArray] by blast
      then show ?thesis using JsRef a JsArray by (intro exI [of _ "Suc n"]) simp
    next
      case (JsPlain fields)
      then have "a \<notin> seen" and "\<exists>js. transform_fields heap (insert a seen) (defined_fields fields) = Inr js
          \<and> j = JObject (own_key_order js)"
        using tr a by (auto simp: result_iff split: if_splits)
      then obtain js n where "unfold_fields n heap (defined_fields fields) = Some js" "j = JObject (own_key_order js)"
        using 1(2) [OF JsRef a JsPlain] by blast
      then show ?thesis using JsRef a JsPlain by (intro exI [of _ "Suc n"]) simp
    qed (use tr a in auto)
  qed (use 1(3) in \<open>auto simp: transform_simps intro: exI [of _ 1]\<close>)
next
  case (3 heap seen i v vs)
  then obtain j' js' where j: "v \<noteq> JsUndefined" "transform heap seen v = Inr j'"
    "transform_items heap seen (Suc i) vs = Inr js'" "js = j' # js'"
    by (auto simp: result_iff split: if_splits)
  then obtain n m where "unfold n heap v = Some j'" "unfold_items m heap vs = Some js'"
    using 3 by blast
  then have "unfold (max n m) heap v = Some j'" "unfold_items (max n m) heap vs = Some js'"
    using unfold_le(1) [OF max.cobounded1] unfold_le(2) [OF max.cobounded2] by blast+
  then show ?case using j by (intro exI [of _ "max n m"]) simp
next
  case (5 heap seen k v kvs)
  then obtain j' js' where j: "transform heap seen v = Inr j'" "transform_fields heap seen kvs = Inr js'"
    "fs = (if k = ''__proto__'' then js' else (k, j') # js')"
    by (auto simp: result_iff)
  then obtain n m where "unfold n heap v = Some j'" "unfold_fields m heap kvs = Some js'"
    using 5 by blast
  then have "unfold (max n m) heap v = Some j'" "unfold_fields (max n m) heap kvs = Some js'"
    using unfold_le(1) [OF max.cobounded1] unfold_le(3) [OF max.cobounded2] by blast+
  then show ?case using j by (intro exI [of _ "max n m"]) simp
qed auto

text \<open>Conversely: no object on the way down unfolds at the depth at hand.\<close>

lemma unfold_transform:
  "unfold n heap v = Some j \<Longrightarrow> (\<And>a. a \<in> seen \<Longrightarrow> unfold n heap (JsRef a) = None) \<Longrightarrow>
     transform heap seen v = Inr j"
proof (induction n arbitrary: v j seen)
  case 0
  then show ?case by simp
next
  case (Suc n)
  have none: "unfold n heap (JsRef a) = None" if "a \<in> seen" for a
    using Suc.prems(2) [OF that] unfold_Suc(1) by (metis option.exhaust option.distinct(1))
  show ?case
  proof (cases "unfold n heap v")
    case (Some j')
    with Suc none unfold_Suc(1) show ?thesis by (metis option.inject)
  next
    case None
    have items: "transform_items heap seen' i vs = Inr js"
      if "unfold_items n heap vs = Some js" "\<And>a. a \<in> seen' \<Longrightarrow> unfold n heap (JsRef a) = None" for i vs js seen'
      using that by (induction vs arbitrary: js i)
        (auto simp: Option.bind_eq_Some_conv Suc.IH split: if_splits simp del: unfold.simps)
    have fields: "transform_fields heap seen' kvs = Inr fs"
      if "unfold_fields n heap kvs = Some fs" "\<And>a. a \<in> seen' \<Longrightarrow> unfold n heap (JsRef a) = None" for kvs fs seen'
      using that by (induction kvs arbitrary: fs)
        (auto simp: Option.bind_eq_Some_conv Suc.IH simp del: unfold.simps)
    show ?thesis
    proof (cases v)
      case (JsRef a)
      then have a: "\<not> length heap \<le> a" and fresh: "a \<notin> seen"
        using Suc.prems(1) Suc.prems(2) [of a] by (auto split: if_splits)
      have none': "unfold n heap (JsRef b) = None" if "b \<in> insert a seen" for b
        using that none None JsRef by auto
      show ?thesis
      proof (cases "heap ! a")
        case (JsArray its)
        then obtain js where "unfold_items n heap its = Some js" "j = JArray js"
          using JsRef a Suc.prems(1) by auto
        then show ?thesis using JsRef a fresh JsArray items [of its js "insert a seen"] none'
          by (simp add: transform.simps [of heap seen])
      next
        case (JsPlain fs)
        then obtain js where "unfold_fields n heap (defined_fields fs) = Some js" "j = JObject (own_key_order js)"
          using JsRef a Suc.prems(1) by auto
        then show ?thesis using JsRef a fresh JsPlain fields [of "defined_fields fs" js "insert a seen"] none'
          by (simp add: transform.simps [of heap seen])
      qed (use JsRef a Suc.prems(1) in auto)
    qed (use Suc.prems(1) in \<open>auto simp: transform_simps\<close>)
  qed
qed

lemma canonicalize_iff_unfold: "canonicalize heap v = Inr j \<longleftrightarrow> (\<exists>n. unfold n heap v = Some j)"
  unfolding canonicalize_def
  using transform_unfold(1) [of heap "{}" v j] unfold_transform [of _ heap v j "{}"] by blast

section \<open>Canonical JSON determines the canonical value\<close>

text \<open>Reading one escaped character back, and then unique readability of the whole text.\<close>

definition hex_val :: "char \<Rightarrow> nat" where
  "hex_val c = (let n = of_char c in if n < 58 then n - 48 else n - 87)"

lemma hex_val_digit [simp]: "d < 16 \<Longrightarrow> hex_val (hex_digit d) = d"
  by (simp add: hex_val_def hex_digit_def)

fun unescape :: "string \<Rightarrow> char \<times> string" where
  "unescape (c # s) =
     (if c = CHR 0x5C then
        (case s of
           e # r \<Rightarrow>
             (if e = CHR ''b'' then (CHR 0x08, r) else if e = CHR ''t'' then (CHR 0x09, r)
              else if e = CHR ''n'' then (CHR 0x0A, r) else if e = CHR ''f'' then (CHR 0x0C, r)
              else if e = CHR ''r'' then (CHR 0x0D, r)
              else if e = CHR ''u'' then
                (char_of (16 * hex_val (r ! 2) + hex_val (r ! 3)), drop 4 r)
              else (e, r))
         | [] \<Rightarrow> (c, s))
      else (c, s))"
| "unescape [] = (CHR 0x00, [])"

lemma less_0x20: "c < CHR 0x20 \<longleftrightarrow> (of_char c :: nat) < 32"
  by (simp add: less_char_def)

lemma unescape_escape: "unescape (escape_char c @ s) = (c, s)"
proof (cases "c < CHR 0x20 \<and> c \<notin> {CHR 0x08, CHR 0x09, CHR 0x0A, CHR 0x0C, CHR 0x0D, CHR 0x22, CHR 0x5C}")
  case True
  then have "escape_char c = [CHR 0x5C, CHR ''u'', CHR ''0'', CHR ''0'', hex_digit (of_char c div 16), hex_digit (of_char c mod 16)]"
    by (simp add: escape_char_def)
  moreover have "(of_char c :: nat) < 32" using True by (simp add: less_0x20)
  then have "(of_char c :: nat) div 16 < 16" by arith
  ultimately show ?thesis by (simp add: numeral_2_eq_2 numeral_3_eq_3)
next
  case False
  then show ?thesis by (auto simp: escape_char_def)
qed

lemma escape_char_inj: "escape_char c @ s = escape_char d @ t \<Longrightarrow> c = d \<and> s = t"
  by (metis unescape_escape prod.inject)

lemma escape_char_hd: "escape_char c = x # xs \<Longrightarrow> x \<noteq> CHR 0x22"
  by (auto simp: escape_char_def split: if_splits)

lemma escape_char_not_Nil: "escape_char c \<noteq> []"
  by (simp add: escape_char_def)

lemma quote_inj: "quote s @ r = quote t @ u \<Longrightarrow> s = t \<and> r = u"
proof -
  have "concat (map escape_char s) @ CHR 0x22 # r = concat (map escape_char t) @ CHR 0x22 # u \<Longrightarrow> s = t \<and> r = u"
  proof (induction s arbitrary: t)
    case Nil
    then show ?case
    proof (cases t)
      case (Cons d t')
      then obtain x xs where "escape_char d = x # xs" by (cases "escape_char d") (auto simp: escape_char_not_Nil)
      with Nil Cons escape_char_hd [of d x xs] show ?thesis by simp
    qed simp
  next
    case (Cons c s)
    show ?case
    proof (cases t)
      case Nil
      obtain x xs where "escape_char c = x # xs" by (cases "escape_char c") (auto simp: escape_char_not_Nil)
      with Nil Cons.prems escape_char_hd [of c x xs] show ?thesis by simp
    next
      case (Cons d t')
      then have "escape_char c @ (concat (map escape_char s) @ CHR 0x22 # r) =
          escape_char d @ (concat (map escape_char t') @ CHR 0x22 # u)" using Cons.prems by simp
      from escape_char_inj [OF this] show ?thesis using Cons.IH [of t'] Cons by simp
    qed
  qed
  then show "quote s @ r = quote t @ u \<Longrightarrow> s = t \<and> r = u" by (simp add: quote_def)
qed

definition number_char :: "char \<Rightarrow> bool" where
  "number_char c \<longleftrightarrow> is_digit c \<or> c = CHR ''-''"

definition delimited :: "string \<Rightarrow> bool" where
  "delimited r \<longleftrightarrow> (case r of [] \<Rightarrow> True | c # _ \<Rightarrow> c \<in> {CHR '','', CHR '']'', CHR ''}''})"

lemma show_int_chars: "c \<in> set (show_int i) \<Longrightarrow> number_char c"
  by (auto simp: show_int_def number_char_def dest: show_nat_digits split: if_splits)

lemma takeWhile_number: "delimited r \<Longrightarrow> takeWhile number_char (show_int i @ r) = show_int i"
  using show_int_chars by (cases r)
    (auto simp: takeWhile_append delimited_def number_char_def is_digit_def less_eq_char_def)

lemma show_int_delimited:
  "show_int i @ r = show_int k @ u \<Longrightarrow> delimited r \<Longrightarrow> delimited u \<Longrightarrow> i = k \<and> r = u"
  by (metis takeWhile_number show_int_inject same_append_eq)

text \<open>The first character tells the constructor.\<close>

definition first_char :: "json \<Rightarrow> char \<Rightarrow> bool" where
  "first_char j c = (case j of
      JNull \<Rightarrow> c = CHR ''n'' | JBool b \<Rightarrow> c = (if b then CHR ''t'' else CHR ''f'')
    | JNum i \<Rightarrow> number_char c | JString s \<Rightarrow> c = CHR 0x22
    | JArray js \<Rightarrow> c = CHR ''['' | JObject fs \<Rightarrow> c = CHR ''{'')"

lemma stringify_first: "\<exists>c s. stringify j = c # s \<and> first_char j c"
proof (cases j)
  case (JNum i)
  then obtain c s where "show_int i = c # s" by (cases "show_int i") (auto simp: show_int_def split: if_splits)
  then show ?thesis using JNum show_int_chars [of c i] by (auto simp: first_char_def)
qed (auto simp: first_char_def quote_def)

fun same_kind :: "json \<Rightarrow> json \<Rightarrow> bool" where
  "same_kind JNull k = (k = JNull)"
| "same_kind (JBool b) k = (k = JBool b)"
| "same_kind (JNum i) k = (\<exists>x. k = JNum x)"
| "same_kind (JString s) k = (\<exists>x. k = JString x)"
| "same_kind (JArray js) k = (\<exists>x. k = JArray x)"
| "same_kind (JObject fs) k = (\<exists>x. k = JObject x)"

lemma first_char_same_kind: "first_char j c \<Longrightarrow> first_char k c \<Longrightarrow> same_kind j k"
  by (cases j; cases k) (auto simp: first_char_def number_char_def is_digit_def less_eq_char_def split: if_splits)

lemma stringify_same_kind: "stringify j @ r = stringify k @ u \<Longrightarrow> same_kind j k"
  using stringify_first [of j] stringify_first [of k] first_char_same_kind by (metis append_Cons list.inject)

lemma stringify_not_bracket: "stringify j @ r \<noteq> CHR '']'' # u" "stringify j @ r \<noteq> CHR ''}'' # u"
  using stringify_first [of j]
  by (cases j; auto simp: first_char_def number_char_def is_digit_def less_eq_char_def split: if_splits)+

lemma delimited_simps [simp]:
  "delimited []" "delimited (CHR '','' # r)" "delimited (CHR '']'' # r)" "delimited (CHR ''}'' # r)"
  by (simp_all add: delimited_def)

lemma stringify_items_Cons:
  "stringify_items (j # js) = stringify j @ (if js = [] then [CHR '']''] else CHR '','' # stringify_items js)"
  by (cases js) auto

lemma stringify_fields_Cons:
  "stringify_fields ((k, j) # fs) = quote k @ CHR '':'' # stringify j @ (if fs = [] then [CHR ''}''] else CHR '','' # stringify_fields fs)"
  by (cases fs) auto

lemma stringify_items_Nil_Cons: "stringify_items (j # js) @ r \<noteq> stringify_items [] @ u"
  using stringify_not_bracket(1) by (simp add: stringify_items_Cons del: stringify_items.simps(2,3))

lemma stringify_fields_Nil_Cons: "stringify_fields (f # fs) @ r \<noteq> stringify_fields [] @ u"
  by (cases f) (simp add: stringify_fields_Cons quote_def del: stringify_fields.simps(2,3))

lemma stringify_unique:
  "stringify j @ r = stringify k @ u \<Longrightarrow> delimited r \<Longrightarrow> delimited u \<Longrightarrow> j = k \<and> r = u"
  "stringify_items js @ r = stringify_items ks @ u \<Longrightarrow> js = ks \<and> r = u"
  "stringify_fields fs @ r = stringify_fields gs @ u \<Longrightarrow> fs = gs \<and> r = u"
proof (induction j and js and fs arbitrary: k r u and ks r u and gs r u
    rule: stringify_stringify_items_stringify_fields.induct)
  case 1
  then show ?case using stringify_same_kind [OF 1(1)] by auto
next
  case (2 b)
  then show ?case using stringify_same_kind [OF 2(1)] by auto
next
  case (3 i)
  then show ?case using stringify_same_kind [OF 3(1)] show_int_delimited [of i r _ u] by auto
next
  case (4 s)
  then show ?case using stringify_same_kind [OF 4(1)] quote_inj [of s r _ u] by auto
next
  case (5 js)
  then show ?case using stringify_same_kind [OF 5(2)] by auto
next
  case (6 fs)
  then show ?case using stringify_same_kind [OF 6(2)] by auto
next
  case 7
  then show ?case using stringify_items_Nil_Cons [of _ _ u r] by (cases ks) auto
next
  case (8 j)
  obtain k ks' where ks: "ks = k # ks'" using 8(2) stringify_items_Nil_Cons [of j "[]" r u] by (cases ks) auto
  then have "stringify j @ CHR '']'' # r = stringify k @ (if ks' = [] then [CHR '']''] else CHR '','' # stringify_items ks') @ u"
    using 8(2) by (simp add: stringify_items_Cons del: stringify_items.simps(3))
  from 8(1) [OF this] show ?case using ks by (cases "ks' = []") auto
next
  case (9 j j' js)
  obtain k ks' where ks: "ks = k # ks'"
    using 9(3) stringify_items_Nil_Cons [of j "j' # js" r u] by (cases ks) blast+
  then have "stringify j @ CHR '','' # stringify_items (j' # js) @ r
      = stringify k @ (if ks' = [] then [CHR '']''] else CHR '','' # stringify_items ks') @ u"
    using 9(3) by (simp add: stringify_items_Cons)
  from 9(1) [OF this] 9(2) show ?case using ks by (cases "ks' = []") auto
next
  case 10
  then show ?case using stringify_fields_Nil_Cons [of _ _ u r] by (cases gs) auto
next
  case (11 q j)
  obtain q' k gs' where gs: "gs = (q', k) # gs'"
    using 11(2) stringify_fields_Nil_Cons [of "(q, j)" "[]" r u] by (cases gs; cases "hd gs") auto
  then have *: "quote q @ CHR '':'' # stringify j @ CHR ''}'' # r
      = quote q' @ CHR '':'' # stringify k @ (if gs' = [] then [CHR ''}''] else CHR '','' # stringify_fields gs') @ u"
    using 11(2) by (simp add: stringify_fields_Cons del: stringify_fields.simps(3))
  with quote_inj [OF *] have "q = q'"
    "stringify j @ CHR ''}'' # r = stringify k @ (if gs' = [] then [CHR ''}''] else CHR '','' # stringify_fields gs') @ u"
    by auto
  with 11(1) [OF this(2)] show ?case using gs \<open>q = q'\<close> by (cases "gs' = []") auto
next
  case (12 q j f fs)
  obtain q' k gs' where gs: "gs = (q', k) # gs'"
    using 12(3) stringify_fields_Nil_Cons [of "(q, j)" "f # fs" r u] by (cases gs; cases "hd gs") auto
  then have *: "quote q @ CHR '':'' # stringify j @ CHR '','' # stringify_fields (f # fs) @ r
      = quote q' @ CHR '':'' # stringify k @ (if gs' = [] then [CHR ''}''] else CHR '','' # stringify_fields gs') @ u"
    using 12(3) by (simp add: stringify_fields_Cons)
  with quote_inj [OF *] have "q = q'"
    "stringify j @ CHR '','' # stringify_fields (f # fs) @ r
      = stringify k @ (if gs' = [] then [CHR ''}''] else CHR '','' # stringify_fields gs') @ u"
    by auto
  with 12(1) [OF this(2)] 12(2) show ?case using gs \<open>q = q'\<close> by (cases "gs' = []") auto
qed

lemma stringify_inject [simp]: "stringify j = stringify k \<longleftrightarrow> j = k"
  using stringify_unique(1) [of j "[]" k "[]"] by auto

text \<open>Two values have the same canonical text exactly when their canonical values agree.\<close>

lemma canonical_json_eq_iff:
  assumes "canonicalize heap v = Inr j" "canonicalize heap' w = Inr k"
  shows "canonical_json heap v = canonical_json heap' w \<longleftrightarrow> j = k"
  using assms by (simp add: canonical_json_def)

section \<open>The order of properties does not matter\<close>

definition same_object :: "js_object \<Rightarrow> js_object \<Rightarrow> bool" where
  "same_object a b \<longleftrightarrow>
     (case (a, b) of
        (JsPlain fs, JsPlain gs) \<Rightarrow> mset fs = mset gs \<and> distinct (map fst fs)
      | _ \<Rightarrow> a = b)"

lemma defined_fields_cong:
  assumes "mset fs = mset gs" "distinct (map fst fs)"
  shows "defined_fields fs = defined_fields gs"
  unfolding defined_fields_def
proof (rule sort_key_inj_key_eq)
  show "inj_on fst (set (filter (\<lambda>(k, v). v \<noteq> JsUndefined) fs))"
    using assms(2) by (simp add: distinct_map inj_on_def)
qed (simp_all add: assms(1) mset_filter)

lemma same_object_simps:
  assumes "same_object a b"
  shows "a = JsPlain fs \<Longrightarrow> \<exists>gs. b = JsPlain gs \<and> defined_fields fs = defined_fields gs"
    and "(\<And>fs. a \<noteq> JsPlain fs) \<Longrightarrow> b = a"
  using assms by (cases a; cases b; auto simp: same_object_def intro: defined_fields_cong)+

lemma transform_same_heap:
  "list_all2 same_object heap heap' \<Longrightarrow> transform heap seen v = transform heap' seen v"
  "list_all2 same_object heap heap' \<Longrightarrow> transform_items heap seen i vs = transform_items heap' seen i vs"
  "list_all2 same_object heap heap' \<Longrightarrow> transform_fields heap seen kvs = transform_fields heap' seen kvs"
proof (induction heap seen v and heap seen i vs and heap seen kvs
    rule: transform_transform_items_transform_fields.induct)
  case (1 heap seen v)
  have len: "length heap = length heap'" using 1(3) by (rule list_all2_lengthD)
  show ?case
  proof (cases "\<exists>a. v = JsRef a \<and> a < length heap")
    case True
    then obtain a where a: "v = JsRef a" "\<not> length heap \<le> a" "same_object (heap ! a) (heap' ! a)"
      using 1(3) list_all2_nthD by (metis not_le)
    show ?thesis
    proof (cases "heap ! a")
      case (JsPlain fs)
      with a same_object_simps(1) obtain gs where "heap' ! a = JsPlain gs" "defined_fields fs = defined_fields gs"
        by blast
      with a JsPlain len 1(2) [OF a(1,2) JsPlain _ 1(3)] show ?thesis
        by (simp add: transform.simps [of _ seen])
    next
      case (JsArray its)
      with a len 1(1) [OF a(1,2) JsArray _ 1(3)] same_object_simps(2) [OF a(3)] show ?thesis
        by (simp add: transform.simps [of _ seen])
    qed (use a len same_object_simps(2) [OF a(3)] in \<open>simp_all add: transform.simps [of _ seen]\<close>)
  next
    case False
    then show ?thesis using len by (cases v) (auto simp: transform.simps [of _ seen])
  qed
qed (auto simp: bind_result_def split: sum.splits)

lemma canonical_json_property_order:
  "list_all2 same_object heap heap' \<Longrightarrow> canonical_json heap v = canonical_json heap' v"
  by (simp add: canonical_json_def canonicalize_def transform_same_heap(1))

end
