(* ===== verification/Schema.thy ===== *)
theory Schema
  imports Canonical
begin

text \<open>
  The persisted data of the system, \<^verbatim>\<open>packages/schema/src\<close>: identifiers, specifications,
  plans, amendments, evidence, follow-ups, run state and events. The field types of the zod
  schemas are the types of the records; their refinements are the predicates here.
\<close>

section \<open>Identifiers (ids.ts)\<close>

definition is_lower :: "char \<Rightarrow> bool" where
  "is_lower c \<longleftrightarrow> CHR ''a'' \<le> c \<and> c \<le> CHR ''z''"

definition is_upper :: "char \<Rightarrow> bool" where
  "is_upper c \<longleftrightarrow> CHR ''A'' \<le> c \<and> c \<le> CHR ''Z''"

text \<open>\<^verbatim>\<open>/^[a-z][a-z0-9]*(?:-[a-z0-9]+)*$/\<close>\<close>

definition spec_id_pattern :: "string \<Rightarrow> bool" where
  "spec_id_pattern s =
     (case split_on CHR ''-'' s of
        [] \<Rightarrow> False
      | first # rest \<Rightarrow>
          first \<noteq> [] \<and> is_lower (hd first) \<and> list_all (\<lambda>c. is_lower c \<or> is_digit c) first
          \<and> list_all (\<lambda>seg. seg \<noteq> [] \<and> list_all (\<lambda>c. is_lower c \<or> is_digit c) seg) rest)"

text \<open>\<^verbatim>\<open>/^[A-Z][A-Z0-9]*(?:-[A-Z0-9]+)+$/\<close>\<close>

definition property_id_pattern :: "string \<Rightarrow> bool" where
  "property_id_pattern s =
     (case split_on CHR ''-'' s of
        [] \<Rightarrow> False
      | first # rest \<Rightarrow>
          first \<noteq> [] \<and> is_upper (hd first) \<and> list_all (\<lambda>c. is_upper c \<or> is_digit c) first
          \<and> rest \<noteq> []
          \<and> list_all (\<lambda>seg. seg \<noteq> [] \<and> list_all (\<lambda>c. is_upper c \<or> is_digit c) seg) rest)"

text \<open>\<^verbatim>\<open>/^T[0-9]{3,}$/\<close>\<close>

definition task_id_pattern :: "string \<Rightarrow> bool" where
  "task_id_pattern s =
     (case s of c # ds \<Rightarrow> c = CHR ''T'' \<and> 3 \<le> length ds \<and> list_all is_digit ds | [] \<Rightarrow> False)"

text \<open>\<^verbatim>\<open>/^sha256:[0-9a-f]{64}$/\<close>\<close>

definition digest_pattern :: "string \<Rightarrow> bool" where
  "digest_pattern s =
     (prefix ''sha256:'' s \<and> length (drop 7 s) = 64
      \<and> list_all (\<lambda>c. is_digit c \<or> CHR ''a'' \<le> c \<and> c \<le> CHR ''f'') (drop 7 s))"

section \<open>Specifications (spec.ts)\<close>

record file_assert =
  assert_exists :: "bool option"
  assert_contains :: "string option"
  assert_not_contains :: "string option"

definition file_assert_ok :: "file_assert \<Rightarrow> bool" where
  "file_assert_ok a \<longleftrightarrow> assert_exists a \<noteq> None \<or> assert_contains a \<noteq> None \<or> assert_not_contains a \<noteq> None"

text \<open>\<open>expect\<close> is an optional object with an optional exit code.\<close>

datatype acceptance_criterion =
    CommandCriterion (criterion_id: string) (criterion_command: string) (criterion_expect: "int option option")
      (criterion_timeout_ms: "int option") (criterion_discriminating: "bool option")
  | FileCriterion (criterion_id: string) (criterion_path: string) (criterion_assert: file_assert)
      (criterion_discriminating: "bool option")
  | SuiteCriterion (criterion_id: string) (criterion_ref: string) (criterion_discriminating: "bool option")
  | AgentCriterion (criterion_id: string) (criterion_instruction: string) (criterion_discriminating: "bool option")
  | HumanCriterion (criterion_id: string) (criterion_instruction: string) (criterion_discriminating: "bool option")

datatype criterion_type = TCommand | TFile | TSuite | TAgent | THuman

fun type_of_criterion :: "acceptance_criterion \<Rightarrow> criterion_type" where
  "type_of_criterion (CommandCriterion _ _ _ _ _) = TCommand"
| "type_of_criterion (FileCriterion _ _ _ _) = TFile"
| "type_of_criterion (SuiteCriterion _ _ _) = TSuite"
| "type_of_criterion (AgentCriterion _ _ _) = TAgent"
| "type_of_criterion (HumanCriterion _ _ _) = THuman"

definition is_deterministic_criterion :: "acceptance_criterion \<Rightarrow> bool" where
  "is_deterministic_criterion c \<longleftrightarrow>
     type_of_criterion c = TCommand \<or> type_of_criterion c = TFile \<or> type_of_criterion c = TSuite"

datatype priority = Must | Should | May

datatype requirement_category =
    Behavioral | Security | Performance | Compatibility | Operational | Architectural | Ux | Compliance

definition high_assurance_categories :: "requirement_category list" where
  "high_assurance_categories = [Security, Compliance]"

record artifact_scope =
  scope_include :: "string list option"
  scope_exclude :: "string list option"

record property_common =
  prop_id :: string
  prop_statement :: string
  prop_category :: "requirement_category option"
  prop_depends_on :: "string list option"
  prop_acceptance :: "acceptance_criterion list option"
  prop_metadata :: "(string \<times> json) list option"

record requirement = property_common +
  req_priority :: priority
  req_scope :: "artifact_scope option"

record spec_constraint = property_common +
  con_priority :: "priority option"

record spec =
  spec_id :: string
  spec_title :: string
  spec_description :: "string option"
  spec_goal :: string
  spec_imports :: "string list option"
  spec_required_secrets :: "string list option option"
  spec_requirements :: "requirement list"
  spec_constraints :: "spec_constraint list option"
  spec_out_of_scope :: "string list option"

datatype property_kind = KRequirement | KConstraint

record desired_property =
  dp_kind :: property_kind
  dp_id :: string
  dp_statement :: string
  dp_priority :: priority
  dp_category :: "requirement_category option"
  dp_depends_on :: "string list"
  dp_acceptance :: "acceptance_criterion list"
  dp_scope :: "artifact_scope option"
  dp_metadata :: "(string \<times> json) list option"

record normalized_spec =
  ns_id :: string
  ns_title :: string
  ns_description :: "string option"
  ns_goal :: string
  ns_imports :: "string list option"
  ns_required_secrets :: "string list option option"
  ns_requirements :: "desired_property list"
  ns_constraints :: "desired_property list"
  ns_out_of_scope :: "string list"

record spec_ir =
  ir_spec :: normalized_spec
  ir_properties :: "desired_property list"
  ir_digest :: string
  ir_imported_files :: "string list option"

record suite_file =
  suite_id :: string
  suite_title :: string
  suite_command :: string

section \<open>Plans (plan.ts) and amendments (amendment.ts)\<close>

datatype task_kind = Inspect | Modify | Test | Verify | Cleanup

datatype risk_level = Low | Medium | High

record task_targets =
  targets_read :: "string list option"
  targets_write :: "string list option"

record task =
  task_id :: string
  task_title :: string
  task_kind :: task_kind
  task_intent :: string
  task_depends_on :: "string list option"
  task_satisfies :: "string list option"
  task_verifies :: "string list option"
  task_targets :: "task_targets option"
  task_risk :: "risk_level option"

definition safe_target_path :: "string \<Rightarrow> bool" where
  "safe_target_path p =
     (if p = [] then False
      else if prefix ''/'' p
        \<or> (case p of c # d # _ \<Rightarrow> (is_lower c \<or> is_upper c) \<and> d = CHR '':'' | _ \<Rightarrow> False) then False
      else list_all (\<lambda>s. s \<noteq> [] \<and> s \<noteq> ''.'' \<and> s \<noteq> ''..'') (split_on CHR ''/'' p))"

definition targets_ok :: "task_targets \<Rightarrow> bool" where
  "targets_ok t \<longleftrightarrow>
     list_all safe_target_path (case targets_read t of None \<Rightarrow> [] | Some ps \<Rightarrow> ps)
     \<and> list_all safe_target_path (case targets_write t of None \<Rightarrow> [] | Some ps \<Rightarrow> ps)"

definition task_ok :: "task \<Rightarrow> bool" where
  "task_ok t \<longleftrightarrow> task_id_pattern (task_id t) \<and> task_title t \<noteq> [] \<and> task_intent t \<noteq> []
     \<and> list_all task_id_pattern (case task_depends_on t of None \<Rightarrow> [] | Some ds \<Rightarrow> ds)
     \<and> list_all property_id_pattern (case task_satisfies t of None \<Rightarrow> [] | Some ps \<Rightarrow> ps)
     \<and> list_all property_id_pattern (case task_verifies t of None \<Rightarrow> [] | Some ps \<Rightarrow> ps)
     \<and> (case task_targets t of None \<Rightarrow> True | Some ts \<Rightarrow> targets_ok ts)"

datatype followup_type =
    HumanInput | Approval | MissingSecret | MissingEnvironment | SpecClarification | SpecChange
  | Investigation | ReplanFollowup | ManualVerification | PostRun

record followup_option =
  option_id :: string
  option_description :: string

record followup_draft =
  fu_type :: followup_type
  fu_blocking :: bool
  fu_title :: string
  fu_description :: string
  fu_property_id :: "string option"
  fu_task_id :: "string option"
  fu_options :: "followup_option list option"
  fu_recommended_default :: "string option"
  fu_criterion_id :: "string option"
  fu_command :: "string option"

datatype followup_status = Open | Resolved

record resolution =
  res_option_id :: "string option"
  res_note :: "string option"
  res_resolved_by :: "string option"

record followup = followup_draft +
  fu_id :: string
  fu_run_id :: string
  fu_status :: followup_status
  fu_created_at :: string
  fu_resolved_at :: "string option"
  fu_resolution :: "resolution option"

record plan =
  plan_id :: string
  plan_title :: "string option"
  plan_created_at :: string
  plan_generated_by :: "(string \<times> string option) option"
  plan_spec_id :: string
  plan_spec_digest :: string
  plan_revision :: string
  plan_snapshot_digest :: string
  plan_tasks :: "task list"
  plan_assumptions :: "string list option"
  plan_followups :: "followup_draft list option"

datatype amendment_operation =
    AddTask task
  | RemoveTask string
  | ReplaceTask string task
  | AddDependency string string
  | ChangeTarget string task_targets

record plan_amendment =
  am_id :: string
  am_plan_id :: string
  am_reason :: string
  am_observation_refs :: "string list"
  am_operations :: "amendment_operation list"
  am_created_at :: string

section \<open>Evidence (evidence.ts)\<close>

datatype evidence_kind = EvCommand | EvTest | EvFile | EvDiff | EvAgent | EvHuman | EvPreparation

datatype evidence_outcome = Supports | Contradicts | Inconclusive

datatype producer_type = ByRuntime | ByAgent | ByHuman

record evidence =
  ev_id :: string
  ev_run_id :: string
  ev_task_id :: "string option"
  ev_criterion_id :: "string option"
  ev_property_refs :: "string list"
  ev_kind :: evidence_kind
  ev_outcome :: evidence_outcome
  ev_producer :: "producer_type \<times> string option"
  ev_timestamp :: string
  ev_revision :: string
  ev_red :: bool
  ev_chain :: "string option"
  ev_payload :: json
  ev_digest :: string

definition chain_genesis :: string where
  "chain_genesis = ''sha256:'' @ replicate 64 CHR ''0''"

fun evidence_trust_level :: "evidence_kind \<Rightarrow> nat" where
  "evidence_trust_level EvCommand = 1"
| "evidence_trust_level EvTest = 1"
| "evidence_trust_level EvFile = 2"
| "evidence_trust_level EvDiff = 2"
| "evidence_trust_level EvPreparation = 2"
| "evidence_trust_level EvAgent = 3"
| "evidence_trust_level EvHuman = 4"

fun evidence_trust_label :: "evidence_kind \<Rightarrow> string" where
  "evidence_trust_label EvCommand = ''deterministic-command''"
| "evidence_trust_label EvTest = ''deterministic-test''"
| "evidence_trust_label EvFile = ''static-file''"
| "evidence_trust_label EvPreparation = ''environment-preparation''"
| "evidence_trust_label EvDiff = ''static-diff''"
| "evidence_trust_label EvAgent = ''agent-review''"
| "evidence_trust_label EvHuman = ''human-review''"

section \<open>Run state (state.ts)\<close>

datatype task_status =
    Pending | Ready | TaskRunning | Completed | TaskFailed | TaskBlocked | NeedsReplan | Skipped | TaskCancelled

datatype requirement_status = Unknown | InProgress | Satisfied | Unsatisfied | Indeterminate | Waived

datatype run_status = RunRunning | Succeeded | PartiallySatisfied | RunBlocked | RunFailed | RunCancelled | TimedOut

record task_failure =
  failure_code :: string
  failure_message :: string

text \<open>
  The failure of a task state is the JSON value an event carried; \<open>failure_json\<close> is the shape
  the runtime writes and \<^verbatim>\<open>taskFailureSchema\<close> describes.
\<close>

definition failure_json :: "task_failure \<Rightarrow> json" where
  "failure_json f = JObject [(''code'', JString (failure_code f)), (''message'', JString (failure_message f))]"

record task_state =
  ts_task_id :: string
  ts_status :: task_status
  ts_attempt :: int
  ts_started_at :: "string option"
  ts_completed_at :: "string option"
  ts_revision :: "string option"
  ts_empty_delta :: "bool option"
  ts_failure :: "json option"

datatype red_phase = Flipped | PassedAtBase | NoRedEvidence

record requirement_state =
  rs_property_id :: string
  rs_status :: requirement_status
  rs_evidence_ids :: "string list"
  rs_updated_at :: string
  rs_reason :: "string option"
  rs_weak_evidence :: "bool option"
  rs_red_phase :: "red_phase option"

datatype run_kind = Apply | VerifyRun

record run_state =
  run_id :: string
  run_kind :: run_kind
  run_spec_id :: string
  run_spec_digest :: string
  run_plan_id :: "string option"
  run_plan_digest :: "string option"
  run_status :: run_status
  run_base_revision :: "string option"
  run_result_revision :: "string option"
  run_branch :: "string option"
  run_worktree :: "string option"
  run_created_at :: string
  run_updated_at :: string
  run_model_calls :: nat
  run_replans :: nat
  run_tasks :: "string \<Rightarrow> task_state option"
  run_requirements :: "string \<Rightarrow> requirement_state option"

section \<open>Events (events.ts)\<close>

datatype event_type =
    RUN_CREATED | SPEC_LOADED | SPEC_VALIDATED | REPOSITORY_OBSERVED | PLAN_GENERATED
  | PLAN_VALIDATED | TASK_READY | TASK_STARTED | FILE_CHANGED | COMMAND_EXECUTED
  | COMMAND_RESULT_REUSED | OBSERVATION_RECORDED | TASK_COMPLETED | TASK_COMMITTED | TASK_FAILED
  | TASK_STAGE_REJECTED | TASK_SUBMISSION_REFUSED | RUN_ENDED_DIRTY | TASK_BLOCKED | TASK_NEEDS_REPLAN
  | REPLAN_REQUESTED | PLAN_AMENDED | PATCH_MERGED | EXECUTION_CONFLICT | EVIDENCE_RECORDED
  | RED_PHASE_RECORDED | PROPERTY_VERIFIED | PROPERTY_INHERITED | PLAN_DRIFT | FOLLOWUP_CREATED
  | FOLLOWUP_RESOLVED | USAGE_RECORDED | RUN_COMPLETED | RUN_FAILED | RUN_ATTESTED
  | BUDGET_SIGNAL | SUPERSEDED_RUN

fun event_type_text :: "event_type \<Rightarrow> string" where
  "event_type_text RUN_CREATED = ''RUN_CREATED''"
| "event_type_text SPEC_LOADED = ''SPEC_LOADED''"
| "event_type_text SPEC_VALIDATED = ''SPEC_VALIDATED''"
| "event_type_text REPOSITORY_OBSERVED = ''REPOSITORY_OBSERVED''"
| "event_type_text PLAN_GENERATED = ''PLAN_GENERATED''"
| "event_type_text PLAN_VALIDATED = ''PLAN_VALIDATED''"
| "event_type_text TASK_READY = ''TASK_READY''"
| "event_type_text TASK_STARTED = ''TASK_STARTED''"
| "event_type_text FILE_CHANGED = ''FILE_CHANGED''"
| "event_type_text COMMAND_EXECUTED = ''COMMAND_EXECUTED''"
| "event_type_text COMMAND_RESULT_REUSED = ''COMMAND_RESULT_REUSED''"
| "event_type_text OBSERVATION_RECORDED = ''OBSERVATION_RECORDED''"
| "event_type_text TASK_COMPLETED = ''TASK_COMPLETED''"
| "event_type_text TASK_COMMITTED = ''TASK_COMMITTED''"
| "event_type_text TASK_FAILED = ''TASK_FAILED''"
| "event_type_text TASK_STAGE_REJECTED = ''TASK_STAGE_REJECTED''"
| "event_type_text TASK_SUBMISSION_REFUSED = ''TASK_SUBMISSION_REFUSED''"
| "event_type_text RUN_ENDED_DIRTY = ''RUN_ENDED_DIRTY''"
| "event_type_text TASK_BLOCKED = ''TASK_BLOCKED''"
| "event_type_text TASK_NEEDS_REPLAN = ''TASK_NEEDS_REPLAN''"
| "event_type_text REPLAN_REQUESTED = ''REPLAN_REQUESTED''"
| "event_type_text PLAN_AMENDED = ''PLAN_AMENDED''"
| "event_type_text PATCH_MERGED = ''PATCH_MERGED''"
| "event_type_text EXECUTION_CONFLICT = ''EXECUTION_CONFLICT''"
| "event_type_text EVIDENCE_RECORDED = ''EVIDENCE_RECORDED''"
| "event_type_text RED_PHASE_RECORDED = ''RED_PHASE_RECORDED''"
| "event_type_text PROPERTY_VERIFIED = ''PROPERTY_VERIFIED''"
| "event_type_text PROPERTY_INHERITED = ''PROPERTY_INHERITED''"
| "event_type_text PLAN_DRIFT = ''PLAN_DRIFT''"
| "event_type_text FOLLOWUP_CREATED = ''FOLLOWUP_CREATED''"
| "event_type_text FOLLOWUP_RESOLVED = ''FOLLOWUP_RESOLVED''"
| "event_type_text USAGE_RECORDED = ''USAGE_RECORDED''"
| "event_type_text RUN_COMPLETED = ''RUN_COMPLETED''"
| "event_type_text RUN_FAILED = ''RUN_FAILED''"
| "event_type_text RUN_ATTESTED = ''RUN_ATTESTED''"
| "event_type_text BUDGET_SIGNAL = ''BUDGET_SIGNAL''"
| "event_type_text SUPERSEDED_RUN = ''SUPERSEDED_RUN''"

definition event_types :: "event_type list" where
  "event_types =
    [RUN_CREATED, SPEC_LOADED, SPEC_VALIDATED, REPOSITORY_OBSERVED, PLAN_GENERATED,
     PLAN_VALIDATED, TASK_READY, TASK_STARTED, FILE_CHANGED, COMMAND_EXECUTED,
     COMMAND_RESULT_REUSED, OBSERVATION_RECORDED, TASK_COMPLETED, TASK_COMMITTED, TASK_FAILED,
     TASK_STAGE_REJECTED, TASK_SUBMISSION_REFUSED, RUN_ENDED_DIRTY, TASK_BLOCKED, TASK_NEEDS_REPLAN,
     REPLAN_REQUESTED, PLAN_AMENDED, PATCH_MERGED, EXECUTION_CONFLICT, EVIDENCE_RECORDED,
     RED_PHASE_RECORDED, PROPERTY_VERIFIED, PROPERTY_INHERITED, PLAN_DRIFT, FOLLOWUP_CREATED,
     FOLLOWUP_RESOLVED, USAGE_RECORDED, RUN_COMPLETED, RUN_FAILED, RUN_ATTESTED,
     BUDGET_SIGNAL, SUPERSEDED_RUN]"

record event =
  e_seq :: int
  e_id :: string
  e_type :: event_type
  e_run_id :: string
  e_timestamp :: string
  e_chain :: "string option"
  e_payload :: "(string \<times> json) list"

text \<open>The refinements of \<^verbatim>\<open>eventSchema\<close>.\<close>

definition event_ok :: "event \<Rightarrow> bool" where
  "event_ok e \<longleftrightarrow> 0 < e_seq e \<and> e_id e \<noteq> [] \<and> e_timestamp e \<noteq> []"

section \<open>Facts about the schemas\<close>

lemma digest_pattern_length: "digest_pattern s \<Longrightarrow> length s = 71"
  by (auto simp: digest_pattern_def prefix_def)

lemma chain_genesis_is_digest: "digest_pattern chain_genesis"
  by (simp add: digest_pattern_def chain_genesis_def list_all_iff is_digit_def less_eq_char_def)

text \<open>The three families of identifiers are disjoint.\<close>

lemma task_id_not_property_id: "task_id_pattern s \<Longrightarrow> \<not> property_id_pattern s"
proof
  assume t: "task_id_pattern s" and p: "property_id_pattern s"
  from t have "CHR ''-'' \<notin> set s"
    by (auto simp: task_id_pattern_def list_all_iff is_digit_def less_eq_char_def split: list.splits)
  with p show False by (simp add: property_id_pattern_def)
qed

section \<open>Sample data for witnesses\<close>

definition sample_task :: "string \<Rightarrow> string list \<Rightarrow> string list \<Rightarrow> task" where
  "sample_task tid deps writes =
     \<lparr>task_id = tid, task_title = ''title'', task_kind = Modify, task_intent = ''intent'',
      task_depends_on = Some deps, task_satisfies = Some [''REQ-001''], task_verifies = None,
      task_targets = Some \<lparr>targets_read = None, targets_write = Some writes\<rparr>, task_risk = None\<rparr>"

definition sample_plan :: "task list \<Rightarrow> plan" where
  "sample_plan tasks =
     \<lparr>plan_id = ''plan'', plan_title = None, plan_created_at = ''2026-01-01'', plan_generated_by = None,
      plan_spec_id = ''spec'', plan_spec_digest = ''digest'', plan_revision = ''rev'',
      plan_snapshot_digest = ''snap'', plan_tasks = tasks, plan_assumptions = None, plan_followups = None\<rparr>"



end
