(* ===== verification/Digest.thy ===== *)
theory Digest
  imports Schema
begin

text \<open>
  Digests of JSON data. Values read back from a parser or built from record literals are
  trees; on trees \<^verbatim>\<open>canonicalize\<close> (canonical.ts) is a plain recursion, \<open>canonical_tree\<close>, and
  \<open>digest_json\<close> is \<^verbatim>\<open>digestOf\<close> (hash.ts). The encoders give the JSON value of each record the
  code hashes, absent optional fields omitted. The hash function is a parameter; equal digests
  mean equal canonical values or two named texts on which it collides.
\<close>

section \<open>canonicalize on trees\<close>

definition tree_fields :: "(string \<times> json) list \<Rightarrow> (string \<times> json) list" where
  "tree_fields fs = own_key_order (filter (\<lambda>(k, j). k \<noteq> ''__proto__'') (sort_key fst fs))"

fun canonical_tree :: "json \<Rightarrow> json" where
  "canonical_tree (JArray js) = JArray (map canonical_tree js)"
| "canonical_tree (JObject fs) = JObject (tree_fields (map (\<lambda>(k, j). (k, canonical_tree j)) fs))"
| "canonical_tree j = j"

text \<open>The value \<open>v\<close> is the tree \<open>j\<close>, in some heap.\<close>

inductive holds :: "js_heap \<Rightarrow> js_value \<Rightarrow> json \<Rightarrow> bool" for heap where
  "holds heap JsNull JNull"
| "holds heap (JsBool b) (JBool b)"
| "holds heap (JsNum i) (JNum i)"
| "holds heap (JsString s) (JString s)"
| "a < length heap \<Longrightarrow> heap ! a = JsArray vs \<Longrightarrow> list_all2 (holds heap) vs js \<Longrightarrow> holds heap (JsRef a) (JArray js)"
| "a < length heap \<Longrightarrow> heap ! a = JsPlain gs \<Longrightarrow> list_all2 (\<lambda>g f. fst g = fst f \<and> holds heap (snd g) (snd f)) gs fs \<Longrightarrow>
     holds heap (JsRef a) (JObject fs)"

inductive_cases holds_undefinedE: "holds heap JsUndefined j"

lemma holds_defined: "holds heap v j \<Longrightarrow> v \<noteq> JsUndefined"
  by (auto elim: holds_undefinedE)

definition digest_json :: "(string \<Rightarrow> string) \<Rightarrow> json \<Rightarrow> string" where
  "digest_json sha256_hex j = ''sha256:'' @ sha256_hex (stringify (canonical_tree j))"

lemma insort_list_all2:
  "list_all2 (\<lambda>g f. fst g = fst f \<and> R (snd g) (snd f)) gs fs \<Longrightarrow> fst g = fst f \<Longrightarrow> R (snd g) (snd f) \<Longrightarrow>
     list_all2 (\<lambda>g f. fst g = fst f \<and> R (snd g) (snd f)) (insort_key fst g gs) (insort_key fst f fs)"
  by (induction rule: list_all2_induct) auto

lemma sort_list_all2:
  "list_all2 (\<lambda>g f. fst g = fst f \<and> R (snd g) (snd f)) gs fs \<Longrightarrow>
     list_all2 (\<lambda>g f. fst g = fst f \<and> R (snd g) (snd f)) (sort_key fst gs) (sort_key fst fs)"
  by (induction rule: list_all2_induct) (auto intro: insort_list_all2)

lemma unfold_items_ex:
  "list_all2 (\<lambda>v j. v \<noteq> JsUndefined \<and> (\<exists>n. unfold n heap v = Some j)) vs js \<Longrightarrow>
     \<exists>n. unfold_items n heap vs = Some js"
proof (induction rule: list_all2_induct)
  case (Cons v vs j js)
  then obtain n m where "unfold n heap v = Some j" "unfold_items m heap vs = Some js" by blast
  then have "unfold (max n m) heap v = Some j" "unfold_items (max n m) heap vs = Some js"
    using unfold_le(1) [of n "max n m"] unfold_le(2) [of m "max n m"] by simp_all
  with Cons have "unfold_items (max n m) heap (v # vs) = Some (j # js)" by (simp del: unfold.simps)
  then show ?case by blast
qed simp

lemma unfold_fields_ex:
  "list_all2 (\<lambda>g f. fst g = fst f \<and> (\<exists>n. unfold n heap (snd g) = Some (snd f))) gs fs \<Longrightarrow>
     \<exists>n. unfold_fields n heap gs = Some (filter (\<lambda>(k, j). k \<noteq> ''__proto__'') fs)"
proof (induction rule: list_all2_induct)
  case (Cons g gs f fs)
  then obtain n m where "unfold n heap (snd g) = Some (snd f)"
      "unfold_fields m heap gs = Some (filter (\<lambda>(k, j). k \<noteq> ''__proto__'') fs)" by blast
  then have "unfold (max n m) heap (snd g) = Some (snd f)"
      "unfold_fields (max n m) heap gs = Some (filter (\<lambda>(k, j). k \<noteq> ''__proto__'') fs)"
    using unfold_le(1) [of n "max n m"] unfold_le(3) [of m "max n m"] by simp_all
  with Cons(1) have "unfold_fields (max n m) heap (g # gs) = Some (filter (\<lambda>(k, j). k \<noteq> ''__proto__'') (f # fs))"
    by (cases g; cases f) (simp del: unfold.simps)
  then show ?case by blast
qed simp

lemma holds_unfold: "holds heap v j \<Longrightarrow> \<exists>n. unfold n heap v = Some (canonical_tree j)"
proof (induction rule: holds.induct)
  case (5 a vs js)
  have "list_all2 (\<lambda>v j. v \<noteq> JsUndefined \<and> (\<exists>n. unfold n heap v = Some j)) vs (map canonical_tree js)"
    using 5(3) by (auto simp: list_all2_conv_all_nth dest!: holds_defined)
  then obtain n where "unfold_items n heap vs = Some (map canonical_tree js)" using unfold_items_ex by blast
  with 5(1,2) have "unfold (Suc n) heap (JsRef a) = Some (canonical_tree (JArray js))"
    by (simp del: unfold_items.simps)
  then show ?case by blast
next
  case (6 a gs fs)
  let ?R = "\<lambda>v j. \<exists>n. unfold n heap v = Some (canonical_tree j)"
  let ?fs = "map (\<lambda>(k, j). (k, canonical_tree j)) fs"
  have def: "defined_fields gs = sort_key fst gs"
  proof -
    have "\<forall>g \<in> set gs. snd g \<noteq> JsUndefined"
      using 6(3) by (auto simp: in_set_conv_nth list_all2_conv_all_nth dest!: holds_defined) (metis holds_defined snd_conv)
    then have "filter (\<lambda>(k, v). v \<noteq> JsUndefined) gs = gs" by (auto simp: filter_id_conv)
    then show ?thesis by (simp add: defined_fields_def)
  qed
  have "list_all2 (\<lambda>g f. fst g = fst f \<and> (\<exists>n. unfold n heap (snd g) = Some (snd f))) gs ?fs"
    using 6(3) by (auto simp: list_all2_conv_all_nth case_prod_beta)
  from sort_list_all2 [OF this] obtain n where
    "unfold_fields n heap (sort_key fst gs) = Some (filter (\<lambda>(k, j). k \<noteq> ''__proto__'') (sort_key fst ?fs))"
    using unfold_fields_ex by blast
  with 6(1,2) have "unfold (Suc n) heap (JsRef a) = Some (canonical_tree (JObject fs))"
    by (simp add: def tree_fields_def del: unfold_fields.simps)
  then show ?case by blast
qed (auto intro: exI [of _ "Suc 0"])

text \<open>On a tree the code computes \<open>canonical_tree\<close> and \<open>digest_json\<close>, wherever it lies in memory.\<close>

lemma canonicalize_tree: "holds heap v j \<Longrightarrow> canonicalize heap v = Inr (canonical_tree j)"
  using holds_unfold by (simp add: canonicalize_iff_unfold)

lemma digest_of_tree: "holds heap v j \<Longrightarrow> digest_of sha256_hex heap v = Inr (digest_json sha256_hex j)"
  by (simp add: digest_of_def canonical_json_def canonicalize_tree digest_json_def)

section \<open>Equal digests\<close>

definition canonical_text :: "json \<Rightarrow> string" where
  "canonical_text j = stringify (canonical_tree j)"

definition collides :: "(string \<Rightarrow> string) \<Rightarrow> json \<Rightarrow> json \<Rightarrow> bool" where
  "collides sha256_hex j k \<longleftrightarrow>
     canonical_text j \<noteq> canonical_text k \<and> sha256_hex (canonical_text j) = sha256_hex (canonical_text k)"

lemma digest_json_eq_iff:
  "digest_json sha256_hex j = digest_json sha256_hex k \<longleftrightarrow>
     canonical_tree j = canonical_tree k \<or> collides sha256_hex j k"
  by (auto simp: digest_json_def collides_def canonical_text_def)

text \<open>Lookup survives canonicalisation of an object with distinct keys.\<close>

lemma own_key_order_mset [simp]: "mset (own_key_order fs) = mset fs"
proof -
  have "mset (own_key_order fs) = filter_mset (\<lambda>(k, v). array_index k) (mset fs)
      + filter_mset (\<lambda>x. \<not> (case x of (k, v) \<Rightarrow> array_index k)) (mset fs)"
    by (simp add: own_key_order_def mset_filter case_prod_beta)
  then show ?thesis by (metis multiset_partition)
qed

lemma map_of_mset:
  assumes "mset xs = mset ys" "distinct (map fst ys)"
  shows "map_of xs = map_of ys"
proof -
  have "mset (map fst xs) = mset (map fst ys)" using assms(1) by simp
  then have "distinct (map fst xs)" using assms(2) mset_eq_imp_distinct_iff by blast
  from map_of_inject_set [OF this assms(2)] show ?thesis using mset_eq_setD [OF assms(1)] by blast
qed

lemma map_of_tree_fields:
  assumes "distinct (map fst fs)"
  shows "map_of (tree_fields fs) k = (if k = ''__proto__'' then None else map_of fs k)"
proof -
  let ?gs = "filter (\<lambda>(k, j). k \<noteq> ''__proto__'') fs"
  have "mset (tree_fields fs) = mset ?gs" by (simp add: tree_fields_def mset_filter)
  moreover have "distinct (map fst ?gs)" using assms by (rule distinct_map_filter)
  ultimately have "map_of (tree_fields fs) = map_of ?gs" by (rule map_of_mset)
  moreover have "map_of ?gs k = (if k = ''__proto__'' then None else map_of fs k)"
    by (induction fs) auto
  ultimately show ?thesis by simp
qed

lemma canonical_object_lookup:
  assumes "canonical_tree (JObject fs) = canonical_tree (JObject gs)"
    "distinct (map fst fs)" "distinct (map fst gs)" "k \<noteq> ''__proto__''"
  shows "map_option canonical_tree (map_of fs k) = map_option canonical_tree (map_of gs k)"
proof -
  have m: "map_of (map (\<lambda>(k, j). (k, canonical_tree j)) hs) k = map_option canonical_tree (map_of hs k)" for hs
    by (induction hs) auto
  have d: "distinct (map fst (map (\<lambda>(k, j). (k, canonical_tree j)) hs)) = distinct (map fst hs)" for hs
    by (simp add: comp_def case_prod_beta)
  from assms have "tree_fields (map (\<lambda>(k, j). (k, canonical_tree j)) fs) = tree_fields (map (\<lambda>(k, j). (k, canonical_tree j)) gs)"
    by simp
  with map_of_tree_fields [of "map (\<lambda>(k, j). (k, canonical_tree j)) fs" k]
    map_of_tree_fields [of "map (\<lambda>(k, j). (k, canonical_tree j)) gs" k] assms(2-4) m d
  show ?thesis by metis
qed

section \<open>Objects with optional fields\<close>

definition present :: "(string \<times> json option) list \<Rightarrow> (string \<times> json) list" where
  "present fs = List.map_filter (\<lambda>(k, j). map_option (Pair k) j) fs"

definition object_of :: "(string \<times> json option) list \<Rightarrow> json" where
  "object_of fs = JObject (present fs)"

lemma present_simps [simp]:
  "present [] = []"
  "present ((k, None) # fs) = present fs"
  "present ((k, Some j) # fs) = (k, j) # present fs"
  by (simp_all add: present_def)

lemma present_keys: "set (map fst (present fs)) \<subseteq> set (map fst fs)"
  by (force simp: present_def map_filter_def)

lemma distinct_present: "distinct (map fst fs) \<Longrightarrow> distinct (map fst (present fs))"
proof (induction fs)
  case (Cons f fs)
  then have "fst f \<notin> set (map fst (present fs))" using present_keys [of fs] by auto
  with Cons show ?case by (cases f; cases "snd f") auto
qed simp

lemma map_of_present:
  "distinct (map fst fs) \<Longrightarrow> (k, j) \<in> set fs \<Longrightarrow> map_of (present fs) k = j"
proof (induction fs)
  case (Cons f fs)
  obtain k' j' where f: "f = (k', j')" by force
  show ?case
  proof (cases "k = k'")
    case True
    with Cons.prems f have "j' = j" "k \<notin> set (map fst (present fs))"
      using present_keys [of fs] by (auto intro: rev_image_eqI)
    then show ?thesis using f True by (cases j) (auto simp: map_of_eq_None_iff)
  next
    case False
    with Cons f show ?thesis by (cases j') auto
  qed
qed simp

lemma object_of_inject:
  assumes "canonical_tree (object_of fs) = canonical_tree (object_of gs)"
    "map fst fs = map fst gs" "distinct (map fst fs)" "''__proto__'' \<notin> set (map fst fs)"
  shows "list_all2 (\<lambda>f g. map_option canonical_tree (snd f) = map_option canonical_tree (snd g)) fs gs"
proof -
  have "map_option canonical_tree (snd (fs ! i)) = map_option canonical_tree (snd (gs ! i))" if i: "i < length fs" for i
  proof -
    have len: "length gs = length fs" using assms(2) by (metis length_map)
    have key: "fst (gs ! i) = fst (fs ! i)" using assms(2) i len by (metis nth_map)
    have mem: "(fst (fs ! i), snd (fs ! i)) \<in> set fs" "(fst (fs ! i), snd (gs ! i)) \<in> set gs"
      using i len key by (metis nth_mem prod.collapse)+
    have "fst (fs ! i) \<noteq> ''__proto__''" using assms(4) i by (metis in_set_conv_nth length_map nth_map)
    from canonical_object_lookup [OF assms(1) [unfolded object_of_def] distinct_present distinct_present this]
      map_of_present [OF _ mem(1)] map_of_present [OF _ mem(2)] assms(2,3)
    show ?thesis by metis
  qed
  moreover have "length fs = length gs" using assms(2) by (metis length_map)
  ultimately show ?thesis by (simp add: list_all2_conv_all_nth)
qed

lemma canonical_scalars [simp]:
  "canonical_tree (JString s) = canonical_tree (JString t) \<longleftrightarrow> s = t"
  "canonical_tree (JNum a) = canonical_tree (JNum b) \<longleftrightarrow> a = b"
  "canonical_tree (JBool p) = canonical_tree (JBool q) \<longleftrightarrow> p = q"
  by simp_all

lemma map_option_canonical [simp]:
  assumes "\<And>a b. canonical_tree (f a) = canonical_tree (f b) \<longleftrightarrow> a = b"
  shows "map_option canonical_tree (map_option f x) = map_option canonical_tree (map_option f y) \<longleftrightarrow> x = y"
  using assms by (cases x; cases y) auto

definition strings_json :: "string list \<Rightarrow> json" where
  "strings_json xs = JArray (map JString xs)"

lemma canonical_strings_json [simp]:
  "canonical_tree (strings_json xs) = canonical_tree (strings_json ys) \<longleftrightarrow> xs = ys"
  by (simp add: strings_json_def comp_def inj_map_eq_map inj_def)

section \<open>Specifications\<close>

fun criterion_json :: "acceptance_criterion \<Rightarrow> json" where
  "criterion_json (CommandCriterion i cmd expect timeout disc) =
     object_of [(''id'', Some (JString i)), (''type'', Some (JString ''command'')), (''command'', Some (JString cmd)),
       (''expect'', map_option (\<lambda>e. object_of [(''exitCode'', map_option JNum e)]) expect),
       (''timeoutMs'', map_option JNum timeout), (''discriminating'', map_option JBool disc)]"
| "criterion_json (FileCriterion i path a disc) =
     object_of [(''id'', Some (JString i)), (''type'', Some (JString ''file'')), (''path'', Some (JString path)),
       (''assert'', Some (object_of [(''exists'', map_option JBool (assert_exists a)),
         (''contains'', map_option JString (assert_contains a)),
         (''notContains'', map_option JString (assert_not_contains a))])),
       (''discriminating'', map_option JBool disc)]"
| "criterion_json (SuiteCriterion i ref disc) =
     object_of [(''id'', Some (JString i)), (''type'', Some (JString ''suite'')), (''ref'', Some (JString ref)),
       (''discriminating'', map_option JBool disc)]"
| "criterion_json (AgentCriterion i ins disc) =
     object_of [(''id'', Some (JString i)), (''type'', Some (JString ''agent'')), (''instruction'', Some (JString ins)),
       (''discriminating'', map_option JBool disc)]"
| "criterion_json (HumanCriterion i ins disc) =
     object_of [(''id'', Some (JString i)), (''type'', Some (JString ''human'')), (''instruction'', Some (JString ins)),
       (''discriminating'', map_option JBool disc)]"

fun priority_text :: "priority \<Rightarrow> string" where
  "priority_text Must = ''must''" | "priority_text Should = ''should''" | "priority_text May = ''may''"

fun category_text :: "requirement_category \<Rightarrow> string" where
  "category_text Behavioral = ''behavioral''" | "category_text Security = ''security''"
| "category_text Performance = ''performance''" | "category_text Compatibility = ''compatibility''"
| "category_text Operational = ''operational''" | "category_text Architectural = ''architectural''"
| "category_text Ux = ''ux''" | "category_text Compliance = ''compliance''"

definition scope_json :: "artifact_scope \<Rightarrow> json" where
  "scope_json s = object_of [(''include'', map_option strings_json (scope_include s)),
     (''exclude'', map_option strings_json (scope_exclude s))]"

definition property_json :: "desired_property \<Rightarrow> json" where
  "property_json p = object_of
     [(''kind'', Some (JString (case dp_kind p of KRequirement \<Rightarrow> ''requirement'' | KConstraint \<Rightarrow> ''constraint''))),
      (''id'', Some (JString (dp_id p))), (''statement'', Some (JString (dp_statement p))),
      (''priority'', Some (JString (priority_text (dp_priority p)))),
      (''category'', map_option (\<lambda>c. JString (category_text c)) (dp_category p)),
      (''dependsOn'', Some (strings_json (dp_depends_on p))),
      (''acceptance'', Some (JArray (map criterion_json (dp_acceptance p)))),
      (''scope'', map_option scope_json (dp_scope p)), (''metadata'', map_option JObject (dp_metadata p))]"

definition spec_json :: "normalized_spec \<Rightarrow> json" where
  "spec_json s = object_of
     [(''apiVersion'', Some (JString ''spc.dev/v1alpha1'')), (''kind'', Some (JString ''Spec'')),
      (''metadata'', Some (object_of [(''id'', Some (JString (ns_id s))), (''title'', Some (JString (ns_title s))),
        (''description'', map_option JString (ns_description s))])),
      (''goal'', Some (JString (ns_goal s))), (''imports'', map_option strings_json (ns_imports s)),
      (''environment'', map_option (\<lambda>secrets. object_of [(''requiredSecrets'', map_option strings_json secrets)])
         (ns_required_secrets s)),
      (''requirements'', Some (JArray (map property_json (ns_requirements s)))),
      (''constraints'', Some (JArray (map property_json (ns_constraints s)))),
      (''outOfScope'', Some (strings_json (ns_out_of_scope s)))]"

text \<open>The encodings are injective, up to the key order inside free-form metadata.\<close>

lemma object_of_eqD:
  assumes "canonical_tree (object_of fs) = canonical_tree (object_of gs)"
    "map fst fs = map fst gs" "distinct (map fst fs)" "''__proto__'' \<notin> set (map fst fs)" "i < length fs"
  shows "map_option canonical_tree (snd (fs ! i)) = map_option canonical_tree (snd (gs ! i))"
  using list_all2_nthD [OF object_of_inject [OF assms(1-4)] assms(5)] .

fun type_text :: "criterion_type \<Rightarrow> string" where
  "type_text TCommand = ''command''" | "type_text TFile = ''file''" | "type_text TSuite = ''suite''"
| "type_text TAgent = ''agent''" | "type_text THuman = ''human''"

lemma type_text_inject [simp]: "type_text a = type_text b \<longleftrightarrow> a = b"
  by (cases a; cases b) simp_all

lemma criterion_json_type:
  "\<exists>fs. criterion_json c = JObject fs \<and> distinct (map fst fs)
     \<and> map_of fs ''type'' = Some (JString (type_text (type_of_criterion c)))"
proof (cases c)
  case (CommandCriterion i cmd e t d)
  then show ?thesis by (cases e; cases t; cases d) (simp_all add: object_of_def)
next
  case (FileCriterion i p a d)
  then show ?thesis by (cases d) (simp_all add: object_of_def)
next
  case (SuiteCriterion i r d)
  then show ?thesis by (cases d) (simp_all add: object_of_def)
next
  case (AgentCriterion i r d)
  then show ?thesis by (cases d) (simp_all add: object_of_def)
next
  case (HumanCriterion i r d)
  then show ?thesis by (cases d) (simp_all add: object_of_def)
qed

lemma criterion_json_same_type:
  assumes "canonical_tree (criterion_json c) = canonical_tree (criterion_json d)"
  shows "type_of_criterion c = type_of_criterion d"
proof -
  obtain fs gs where f: "criterion_json c = JObject fs" "distinct (map fst fs)"
      "map_of fs ''type'' = Some (JString (type_text (type_of_criterion c)))"
    and g: "criterion_json d = JObject gs" "distinct (map fst gs)"
      "map_of gs ''type'' = Some (JString (type_text (type_of_criterion d)))"
    using criterion_json_type by metis
  have "''type'' \<noteq> ''__proto__''" by simp
  from canonical_object_lookup [OF assms [unfolded f(1) g(1)] f(2) g(2) this] show ?thesis
    by (simp add: f(3) g(3))
qed

lemma exit_json_inject [simp]:
  "canonical_tree (object_of [(''exitCode'', map_option JNum e)])
     = canonical_tree (object_of [(''exitCode'', map_option JNum e')]) \<longleftrightarrow> e = e'"
  by (auto dest: object_of_inject)

lemma assert_json_inject [simp]:
  fixes a b :: file_assert
  shows "canonical_tree (object_of [(''exists'', map_option JBool (assert_exists a)),
         (''contains'', map_option JString (assert_contains a)),
         (''notContains'', map_option JString (assert_not_contains a))])
   = canonical_tree (object_of [(''exists'', map_option JBool (assert_exists b)),
         (''contains'', map_option JString (assert_contains b)),
         (''notContains'', map_option JString (assert_not_contains b))]) \<longleftrightarrow> a = b"
  by (cases a; cases b) (auto dest!: object_of_inject)

lemma criterion_json_inject [simp]:
  "canonical_tree (criterion_json c) = canonical_tree (criterion_json d) \<longleftrightarrow> c = d"
proof
  assume eq: "canonical_tree (criterion_json c) = canonical_tree (criterion_json d)"
  note same = criterion_json_same_type [OF eq]
  show "c = d"
    using eq same by (cases c; cases d) (auto dest!: object_of_inject simp del: canonical_tree.simps)
qed simp

lemma text_inject [simp]:
  "priority_text p = priority_text q \<longleftrightarrow> p = q" "category_text c = category_text d \<longleftrightarrow> c = d"
  by (cases p; cases q, simp_all) (cases c; cases d, simp_all)

lemma scope_json_inject [simp]:
  fixes a b :: artifact_scope
  shows "canonical_tree (scope_json a) = canonical_tree (scope_json b) \<longleftrightarrow> a = b"
  by (cases a; cases b) (auto simp: scope_json_def dest!: object_of_inject)

lemma map_inject_canonical:
  assumes "\<And>a b. canonical_tree (f a) = canonical_tree (f b) \<longleftrightarrow> R a b"
  shows "canonical_tree (JArray (map f xs)) = canonical_tree (JArray (map f ys)) \<longleftrightarrow> list_all2 R xs ys"
  using assms by (simp add: list_eq_iff_nth_eq list_all2_conv_all_nth cong: conj_cong)

lemma criteria_json_inject [simp]:
  "canonical_tree (JArray (map criterion_json xs)) = canonical_tree (JArray (map criterion_json ys)) \<longleftrightarrow> xs = ys"
  by (subst map_inject_canonical [where R = "(=)"]) (simp_all add: list.rel_eq)

text \<open>Equal up to the key order inside the metadata.\<close>

definition same_metadata :: "(string \<times> json) list option \<Rightarrow> (string \<times> json) list option \<Rightarrow> bool" where
  "same_metadata a b = rel_option (\<lambda>x y. canonical_tree (JObject x) = canonical_tree (JObject y)) a b"

definition same_property :: "desired_property \<Rightarrow> desired_property \<Rightarrow> bool" where
  "same_property p q \<longleftrightarrow>
     same_metadata (dp_metadata p) (dp_metadata q) \<and> p\<lparr>dp_metadata := None\<rparr> = q\<lparr>dp_metadata := None\<rparr>"

definition same_spec :: "normalized_spec \<Rightarrow> normalized_spec \<Rightarrow> bool" where
  "same_spec s t \<longleftrightarrow>
     list_all2 same_property (ns_requirements s) (ns_requirements t)
     \<and> list_all2 same_property (ns_constraints s) (ns_constraints t)
     \<and> s\<lparr>ns_requirements := [], ns_constraints := []\<rparr> = t\<lparr>ns_requirements := [], ns_constraints := []\<rparr>"

lemma same_metadata_iff [simp]:
  "map_option canonical_tree (map_option JObject a) = map_option canonical_tree (map_option JObject b)
     \<longleftrightarrow> same_metadata a b"
  by (cases a; cases b) (simp_all add: same_metadata_def)

lemma property_json_inject: "canonical_tree (property_json p) = canonical_tree (property_json q) \<Longrightarrow> same_property p q"
proof -
  assume "canonical_tree (property_json p) = canonical_tree (property_json q)"
  from object_of_inject [OF this [unfolded property_json_def]]
  show ?thesis
    by (cases p; cases q) (simp del: canonical_tree.simps add: same_property_def split: property_kind.splits)
qed

lemma secrets_json_inject [simp]:
  "canonical_tree (object_of [(''requiredSecrets'', map_option strings_json a)])
     = canonical_tree (object_of [(''requiredSecrets'', map_option strings_json b)]) \<longleftrightarrow> a = b"
  by (auto dest: object_of_inject)

lemma spec_metadata_inject [simp]:
  "canonical_tree (object_of [(''id'', Some (JString i)), (''title'', Some (JString t)), (''description'', map_option JString d)])
     = canonical_tree (object_of [(''id'', Some (JString i')), (''title'', Some (JString t')), (''description'', map_option JString d')])
   \<longleftrightarrow> i = i' \<and> t = t' \<and> d = d'"
  by (auto dest: object_of_inject simp del: canonical_tree.simps)

lemma properties_json_inject:
  "canonical_tree (JArray (map property_json xs)) = canonical_tree (JArray (map property_json ys)) \<Longrightarrow>
     list_all2 same_property xs ys"
  by (auto simp: list_eq_iff_nth_eq list_all2_conv_all_nth property_json_inject)

lemma spec_json_inject: "canonical_tree (spec_json s) = canonical_tree (spec_json t) \<Longrightarrow> same_spec s t"
proof -
  assume "canonical_tree (spec_json s) = canonical_tree (spec_json t)"
  from object_of_inject [OF this [unfolded spec_json_def]]
  show ?thesis
    by (cases s; cases t) (simp del: canonical_tree.simps add: same_spec_def properties_json_inject)
qed

end
