(* ===== verification/CoreContracts.thy ===== *)
theory CoreContracts
  imports TaskGraph Glob Canonical Digest
begin

text \<open>
  What the core utilities promise their callers: the graph searches, the path patterns and
  the canonical digests.
\<close>

section \<open>Graphs\<close>

definition sample_edges :: "string edge_fn" where
  "sample_edges n = (if n = ''c'' then [''a'', ''b''] else if n = ''b'' then [''a''] else [])"

definition cyclic_edges :: "string edge_fn" where
  "cyclic_edges n = (if n = ''a'' then [''b''] else if n = ''b'' then [''a''] else [])"

lemma sample_edges_supported: "supported [''a'', ''b'', ''c''] sample_edges"
  by (simp add: supported_def sample_edges_def)

text \<open>
  C37: the cycle search returns on every graph, with null exactly when the graph is acyclic and
  otherwise with a closed path of the graph.
\<close>
theorem find_cycle_correct:
  assumes "supported nodes edges"
  shows "find_cycle_fuel (cycle_fuel nodes edges) nodes edges = Some (find_cycle nodes edges)
    \<and> (case find_cycle nodes edges of None \<Rightarrow> acyclic (edge_rel edges) | Some c \<Rightarrow> is_cycle edges c)"
  using find_cycle_total [OF assms] find_cycle_NoneD [OF assms] find_cycle_SomeD [OF assms]
  by (auto split: option.splits)

theorem find_cycle_correct_witness:
  "acyclic (edge_rel sample_edges) \<and> find_cycle [''a'', ''b'', ''c''] sample_edges = None"
proof -
  have "find_cycle [''a'', ''b'', ''c''] sample_edges = None" by code_simp
  with find_cycle_correct [OF sample_edges_supported] show ?thesis by simp
qed

text \<open>
  the topological sort fails exactly on cyclic graphs; otherwise it lists every node once,
  and no node comes before another that it is a successor of.
\<close>
theorem topo_sort_correct:
  assumes "distinct nodes" "supported nodes edges"
  shows "case topo_sort nodes edges of
      None \<Rightarrow> \<not> acyclic (edge_rel edges)
    | Some order \<Rightarrow> acyclic (edge_rel edges) \<and> distinct order \<and> set order = set nodes
        \<and> sorted_wrt (\<lambda>a b. a \<notin> set (edges b)) order"
proof (cases "topo_sort nodes edges")
  case None
  with topo_sort_spec(1) [OF assms] show ?thesis by simp
next
  case (Some order)
  with topo_sort_spec(1) [OF assms] topo_sort_spec(2) [OF assms Some] show ?thesis by simp
qed

theorem topo_sort_correct_witness:
  "case topo_sort [''a'', ''b'', ''c''] sample_edges of
     None \<Rightarrow> False | Some order \<Rightarrow> order = [''c'', ''b'', ''a''] \<and> set order = set [''a'', ''b'', ''c'']"
proof -
  have r: "topo_sort [''a'', ''b'', ''c''] sample_edges = Some [''c'', ''b'', ''a'']" by code_simp
  from topo_sort_correct [OF _ sample_edges_supported] show ?thesis by (simp add: r)
qed

text \<open>
  the reachable set is that of the transitive closure, the start itself only when it lies
  on a cycle, and the search always returns.
\<close>
theorem reachable_from_correct:
  assumes "supported nodes edges"
  shows "reachable_from start edges = Some {y. (start, y) \<in> (edge_rel edges)\<^sup>+}"
  using reachable_from_supported [OF assms, of start] by (simp add: Image_singleton)

theorem reachable_from_correct_witness:
  "(''c'', ''a'') \<in> (edge_rel sample_edges)\<^sup>+ \<and>
   reachable_from ''c'' sample_edges = Some {y. (''c'', y) \<in> (edge_rel sample_edges)\<^sup>+}"
  using reachable_from_correct [OF sample_edges_supported, of "''c''"]
  by (auto simp: sample_edges_def intro: r_into_trancl)

section \<open>Paths and patterns\<close>

text \<open>
  C38: on a safe path of one line a pattern matches exactly by segments: star and question mark
  inside one segment, a double star for any run of segments.
\<close>
theorem glob_match_segments:
  assumes "is_safe_relative_path path" "one_line (normalize_rel_path path)"
  shows "glob_match pattern path \<longleftrightarrow> seg_match (path_segments pattern) (path_segments path)"
  by (rule glob_match_iff_seg_match [OF assms])

theorem glob_match_segments_witness:
  "glob_match ''src/**/*.ts'' ''src/auth/login.ts'' \<and> \<not> glob_match ''src'' ''src/auth.ts''"
  using glob_match_segments [of "''src/auth/login.ts''" "''src/**/*.ts''"]
    glob_match_segments [of "''src/auth.ts''" "''src''"]
  by code_simp

text \<open>
  when one of two patterns is a literal path, the overlap test never misses a path that
  both match.
\<close>
theorem overlap_literal_sound:
  assumes "literal_pattern a \<or> literal_pattern b" "glob_match a p" "glob_match b p"
  shows "patterns_overlap a b"
  using assms patterns_overlap_literal [of b a p] patterns_overlap_literal [of a b p]
  by (auto simp: patterns_overlap_sym)

theorem overlap_literal_sound_witness: "patterns_overlap ''src/**'' ''src/a.ts''"
  by (rule overlap_literal_sound [of _ _ "''src/a.ts''"]) code_simp+

text \<open>
  the overlap test is not conservative for two patterns with wildcards below a common
  prefix: it denies the overlap of two patterns that match a common path, although it is
  documented to report an overlap when unsure.
\<close>
theorem overlap_wildcards_missed:
  "glob_match ''src/auth/**'' ''src/auth/login.ts'' \<and> glob_match ''src/**/*.ts'' ''src/auth/login.ts''
   \<and> \<not> patterns_overlap ''src/auth/**'' ''src/**/*.ts''"
  by code_simp

text \<open>
  normalisation is idempotent, keeps no backslash, and an accepted path has no empty, dot
  or dot-dot segment, so it cannot climb out of its root.
\<close>
theorem safe_path_segments:
  "normalize_rel_path (normalize_rel_path p) = normalize_rel_path p
   \<and> CHR 0x5C \<notin> set (normalize_rel_path p)
   \<and> (is_safe_relative_path p \<longrightarrow> list_all (\<lambda>s. s \<notin> {[], ''.'', ''..''}) (path_segments p))"
  using is_safe_segments [of p] normalize_rel_path_chars [of p] by (auto simp: list_all_iff)

theorem safe_path_segments_witness:
  "list_all (\<lambda>s. s \<notin> {[], ''.'', ''..''}) (path_segments ''./src/a.ts/'')"
  using safe_path_segments [of "''./src/a.ts/''"] by code_simp

text \<open>
  in a file system that lists nothing below a missing entry, no component of a path that is
  accepted as physically contained is a symbolic link.
\<close>
theorem contained_no_symlink:
  assumes "fs_tree lstat" "is_physically_contained lstat root path"
    and "qs \<noteq> []" "prefix qs (split_on CHR ''/'' path)"
  shows "lstat (foldl path_join root qs) \<noteq> Some True"
  using assms contained_from_no_symlink [OF assms(1) _ assms(3,4)]
  by (simp add: is_physically_contained_def split: if_splits)

definition sample_lstat :: lstat where
  "sample_lstat p = (if p = [] \<or> p = [''repo''] \<or> p = [''repo'', ''src''] then Some False else None)"

theorem contained_no_symlink_witness:
  "sample_lstat (foldl path_join [''repo''] [''src'']) \<noteq> Some True"
proof (rule contained_no_symlink [where path = "''src/a.ts''"])
  show "fs_tree sample_lstat" by (auto simp: fs_tree_def sample_lstat_def append_eq_Cons_conv)
  show "is_physically_contained sample_lstat [''repo''] ''src/a.ts''" by code_simp
  show "prefix [''src''] (split_on CHR ''/'' ''src/a.ts'')" by code_simp
qed simp

section \<open>Digests\<close>

text \<open>
  C39: the canonical value of a JavaScript value is its finite unfolding with sorted keys: it
  exists exactly when the object graph below is acyclic plain data, and two values have the
  same canonical text exactly when their canonical values are equal, whatever the order in
  which their properties were added.
\<close>
theorem canonical_exact:
  "(canonicalize heap v = Inr j \<longleftrightarrow> (\<exists>n. unfold n heap v = Some j))
   \<and> (canonicalize heap v = Inr j \<longrightarrow> canonicalize heap' w = Inr k \<longrightarrow>
        (canonical_json heap v = canonical_json heap' w \<longleftrightarrow> j = k))
   \<and> (list_all2 same_object heap heap' \<longrightarrow> canonical_json heap v = canonical_json heap' v)"
  using canonicalize_iff_unfold canonical_json_eq_iff canonical_json_property_order by blast

theorem canonical_exact_witness:
  "canonical_json [JsPlain [(''b'', JsNum 1), (''a'', JsBool True)]] (JsRef 0)
   = canonical_json [JsPlain [(''a'', JsBool True), (''b'', JsNum 1)]] (JsRef 0)"
  using canonical_exact [of "[JsPlain [(''b'', JsNum 1), (''a'', JsBool True)]]" "JsRef 0" JNull
      "[JsPlain [(''a'', JsBool True), (''b'', JsNum 1)]]" "JsRef 0" JNull]
  by (simp add: same_object_def)

text \<open>
  the digest of a specification identifies it: equal digests mean the same specification, up
  to the key order inside metadata, or a collision of the hash function.
\<close>
theorem spec_digest_identifies:
  assumes "digest_json sha (spec_json s) = digest_json sha (spec_json t)"
  shows "same_spec s t \<or> collides sha (spec_json s) (spec_json t)"
  using assms spec_json_inject by (auto simp: digest_json_eq_iff)

definition sample_spec :: normalized_spec where
  "sample_spec = \<lparr>ns_id = ''demo'', ns_title = ''Demo'', ns_description = None, ns_goal = ''ship it'',
     ns_imports = None, ns_required_secrets = None, ns_requirements = [], ns_constraints = [], ns_out_of_scope = []\<rparr>"

theorem spec_digest_identifies_witness:
  "same_spec sample_spec sample_spec \<or> collides (\<lambda>t. t) (spec_json sample_spec) (spec_json sample_spec)"
  by (rule spec_digest_identifies [OF refl])

end
