(* ===== verification/Diagnostics.thy ===== *)
theory Diagnostics
  imports Prelude
begin

text \<open>
  Diagnostics, \<^verbatim>\<open>packages/core/src/diagnostics.ts\<close>, and the typed application error of
  \<^verbatim>\<open>errors.ts\<close>: codes, severities, source locations and their rendering with an excerpt.
\<close>

datatype severity = Warning | Error

instantiation severity :: linorder
begin

definition less_eq_severity :: "severity \<Rightarrow> severity \<Rightarrow> bool" where
  "less_eq_severity a b \<longleftrightarrow> a = Warning \<or> b = Error"

definition less_severity :: "severity \<Rightarrow> severity \<Rightarrow> bool" where
  "less_severity a b \<longleftrightarrow> a = Warning \<and> b = Error"

instance
proof
  fix a b c :: severity
  show "a < b \<longleftrightarrow> a \<le> b \<and> \<not> b \<le> a" by (cases a; cases b) (auto simp: less_eq_severity_def less_severity_def)
  show "a \<le> a" by (cases a) (auto simp: less_eq_severity_def)
  show "a \<le> b \<Longrightarrow> b \<le> c \<Longrightarrow> a \<le> c" by (auto simp: less_eq_severity_def)
  show "a \<le> b \<Longrightarrow> b \<le> a \<Longrightarrow> a = b" by (cases a; cases b) (auto simp: less_eq_severity_def)
  show "a \<le> b \<or> b \<le> a" by (cases a; cases b) (auto simp: less_eq_severity_def)
qed

end

record source_location =
  loc_file :: string
  loc_line :: int
  loc_column :: int

record diagnostic =
  diag_code :: string
  diag_severity :: severity
  diag_message :: string
  diag_loc :: "source_location option"
  diag_related :: "string list option"

definition error :: "string \<Rightarrow> string \<Rightarrow> source_location option \<Rightarrow> string list option \<Rightarrow> diagnostic" where
  "error code message loc related =
     \<lparr>diag_code = code, diag_severity = Error, diag_message = message, diag_loc = loc, diag_related = related\<rparr>"

definition warning :: "string \<Rightarrow> string \<Rightarrow> source_location option \<Rightarrow> string list option \<Rightarrow> diagnostic" where
  "warning code message loc related =
     \<lparr>diag_code = code, diag_severity = Warning, diag_message = message, diag_loc = loc, diag_related = related\<rparr>"

definition has_errors :: "diagnostic list \<Rightarrow> bool" where
  "has_errors diags = list_ex (\<lambda>d. diag_severity d = Error) diags"

definition severity_text :: "severity \<Rightarrow> string" where
  "severity_text s = (case s of Error \<Rightarrow> ''error'' | Warning \<Rightarrow> ''warning'')"

definition newline :: string where
  "newline = [CHR 0x0A]"

text \<open>
  Two source lines from the located one, numbered, and a caret under the column.
  \<open>slice\<close> past the end of the array is empty.
\<close>

fun number_lines :: "int \<Rightarrow> string list \<Rightarrow> string list" where
  "number_lines n [] = []"
| "number_lines n (l # ls) = (pad_start 4 CHR '' '' (show_int n) @ '' | '' @ l) # number_lines (n + 1) ls"

definition render_excerpt :: "string \<Rightarrow> source_location \<Rightarrow> string list" where
  "render_excerpt source loc =
     (let lines = split_on CHR 0x0A source; idx = loc_line loc - 1 in
      if idx < 0 \<or> int (length lines) \<le> idx then []
      else
        (let shown = number_lines (loc_line loc) (take 2 (drop (nat idx) lines));
             first = lines ! nat idx;
             caret_pad = replicate (nat (min (max (loc_column loc - 1) 0) (max (int (length first)) 1))) CHR '' ''
         in shown @ [replicate 4 CHR '' '' @ '' | '' @ caret_pad @ ''^'']))"

definition format_diagnostic :: "diagnostic \<Rightarrow> (string \<rightharpoonup> string) option \<Rightarrow> string" where
  "format_diagnostic d sources =
     (let severity = severity_text (diag_severity d);
          head = (case diag_loc d of
              Some loc \<Rightarrow> severity @ '' '' @ diag_code d @ '' '' @ loc_file loc @ '':'' @ show_int (loc_line loc)
                @ '':'' @ show_int (loc_column loc)
            | None \<Rightarrow> severity @ '' '' @ diag_code d);
          lines = [head, [], diag_message d]
            @ (case diag_related d of
                 None \<Rightarrow> []
               | Some related \<Rightarrow>
                   if related = [] then [] else [[], ''Related:''] @ map (\<lambda>r. ''  '' @ r) related);
          source = (case (diag_loc d, sources) of (Some loc, Some src) \<Rightarrow> src (loc_file loc) | _ \<Rightarrow> None);
          excerpt = (case (diag_loc d, source) of (Some loc, Some s) \<Rightarrow> render_excerpt s loc | _ \<Rightarrow> [])
      in join_with newline (lines @ (if excerpt = [] then [] else [] # excerpt)))"

definition format_diagnostics :: "diagnostic list \<Rightarrow> (string \<rightharpoonup> string) option \<Rightarrow> string" where
  "format_diagnostics diags sources =
     join_with (newline @ newline) (map (\<lambda>d. format_diagnostic d sources) diags)"

section \<open>Facts the validators use\<close>

lemma error_simps [simp]:
  "diag_code (error c m l r) = c" "diag_severity (error c m l r) = Error"
  "diag_code (warning c m l r) = c" "diag_severity (warning c m l r) = Warning"
  by (simp_all add: error_def warning_def)

lemma has_errors_simps [simp]:
  "has_errors []  = False"
  "has_errors (d # ds) = (diag_severity d = Error \<or> has_errors ds)"
  "has_errors (ds @ ds') = (has_errors ds \<or> has_errors ds')"
  by (auto simp: has_errors_def)

lemma has_errors_iff: "has_errors ds \<longleftrightarrow> (\<exists>d \<in> set ds. diag_severity d = Error)"
  by (simp add: has_errors_def list_ex_iff)

text \<open>The codes a list of diagnostics reports: the vocabulary of the validators' theorems.\<close>

definition reports :: "string \<Rightarrow> diagnostic list \<Rightarrow> bool" where
  "reports code ds \<longleftrightarrow> code \<in> set (map diag_code ds)"

lemma reports_simps [simp]:
  "\<not> reports c []"
  "reports c (d # ds) \<longleftrightarrow> diag_code d = c \<or> reports c ds"
  "reports c (ds @ ds') \<longleftrightarrow> reports c ds \<or> reports c ds'"
  by (auto simp: reports_def)

lemma reports_concat_map [simp]:
  "reports c (concat (map f xs)) \<longleftrightarrow> (\<exists>x \<in> set xs. reports c (f x))"
  by (induction xs) auto

lemma reports_map [simp]: "reports c (map f xs) \<longleftrightarrow> (\<exists>x \<in> set xs. diag_code (f x) = c)"
  by (auto simp: reports_def)

end
