(* ===== verification/Amendment.thy ===== *)
theory Amendment
  imports Schema Diagnostics TaskGraph
begin

text \<open>
  Plan amendments, \<^verbatim>\<open>packages/core/src/amendment/apply.ts\<close>: the operations are applied in
  order to a working copy of the task list, each adding a diagnostic instead when it is
  refused; the amended plan is returned only without any diagnostic and without a cycle.
\<close>

section \<open>The operations\<close>

definition find_task :: "task list \<Rightarrow> string \<Rightarrow> task option" where
  "find_task tasks tid = List.find (\<lambda>t. task_id t = tid) tasks"

definition depends_on :: "task \<Rightarrow> string list" where
  "depends_on t = (case task_depends_on t of None \<Rightarrow> [] | Some ds \<Rightarrow> ds)"

definition task_edges :: "task list \<Rightarrow> string edge_fn" where
  "task_edges tasks tid = (case find_task tasks tid of None \<Rightarrow> [] | Some t \<Rightarrow> depends_on t)"

text \<open>\<open>assertNotExecuted\<close>: the diagnostic it adds, if any.\<close>

definition executed_error :: "string list \<Rightarrow> string \<Rightarrow> diagnostic list" where
  "executed_error executed tid =
     (if tid \<in> set executed
      then [error ''SPC2013'' (''amendment touches task '' @ tid
              @ '', which already executed; execution history is immutable.'') None None]
      else [])"

definition not_found :: "string \<Rightarrow> diagnostic" where
  "not_found message = error ''SPC2012'' message None None"

definition already_exists :: "string \<Rightarrow> diagnostic" where
  "already_exists message = error ''SPC2014'' message None None"

text \<open>Dependents of a removed task lose the edge; dependents of a renamed one follow it.\<close>

definition drop_dependency :: "string \<Rightarrow> task \<Rightarrow> task" where
  "drop_dependency tid t =
     (case task_depends_on t of
        None \<Rightarrow> t
      | Some ds \<Rightarrow> if tid \<in> set ds then t\<lparr>task_depends_on := Some (filter (\<lambda>d. d \<noteq> tid) ds)\<rparr> else t)"

definition rename_dependency :: "string \<Rightarrow> string \<Rightarrow> task \<Rightarrow> task" where
  "rename_dependency tid new_id t =
     (case task_depends_on t of
        None \<Rightarrow> t
      | Some ds \<Rightarrow>
          if tid \<in> set ds
          then t\<lparr>task_depends_on := Some (dedup (filter (\<lambda>d. d \<noteq> tid) ds @ [new_id]))\<rparr> else t)"

fun apply_operation ::
  "string list \<Rightarrow> task list \<Rightarrow> amendment_operation \<Rightarrow> task list \<times> diagnostic list" where
  "apply_operation executed tasks (AddTask task) =
     (if find_task tasks (task_id task) \<noteq> None
      then (tasks, [already_exists (''addTask: task '' @ task_id task @ '' already exists.'')])
      else (tasks @ [task], []))"
| "apply_operation executed tasks (RemoveTask tid) =
     (if find_task tasks tid = None
      then (tasks, [not_found (''removeTask: task '' @ tid @ '' not found.'')])
      else if executed_error executed tid \<noteq> [] then (tasks, executed_error executed tid)
      else (map (drop_dependency tid) (filter (\<lambda>t. task_id t \<noteq> tid) tasks), []))"
| "apply_operation executed tasks (ReplaceTask tid task) =
     (if find_task tasks tid = None
      then (tasks, [not_found (''replaceTask: task '' @ tid @ '' not found.'')])
      else if executed_error executed tid \<noteq> [] then (tasks, executed_error executed tid)
      else if task_id task \<noteq> tid \<and> find_task tasks (task_id task) \<noteq> None
      then (tasks, [already_exists (''replaceTask: task '' @ task_id task @ '' already exists.'')])
      else
        (let replaced = map (\<lambda>t. if task_id t = tid then task else t) tasks in
         (if task_id task \<noteq> tid then map (rename_dependency tid (task_id task)) replaced else replaced, [])))"
| "apply_operation executed tasks (AddDependency tid dep) =
     (if find_task tasks tid = None \<or> find_task tasks dep = None
      then (tasks, [not_found (''addDependency: '' @ tid @ '' or '' @ dep @ '' not found.'')])
      else if find_cycle (map task_id tasks)
          (\<lambda>x. if x = tid then dedup (task_edges tasks x @ [dep]) else task_edges tasks x) \<noteq> None
      then (tasks, [error ''SPC2015'' (''addDependency '' @ tid @ '' -> '' @ dep @ '' would create a cycle.'') None None])
      else (map (\<lambda>t. if task_id t = tid then t\<lparr>task_depends_on := Some (dedup (depends_on t @ [dep]))\<rparr> else t) tasks, []))"
| "apply_operation executed tasks (ChangeTarget tid targets) =
     (if find_task tasks tid = None
      then (tasks, [not_found (''changeTarget: task '' @ tid @ '' not found.'')])
      else if executed_error executed tid \<noteq> [] then (tasks, executed_error executed tid)
      else (map (\<lambda>t. if task_id t = tid then t\<lparr>task_targets := Some targets\<rparr> else t) tasks, []))"

fun apply_operations ::
  "string list \<Rightarrow> task list \<Rightarrow> diagnostic list \<Rightarrow> amendment_operation list \<Rightarrow> task list \<times> diagnostic list" where
  "apply_operations executed tasks diags [] = (tasks, diags)"
| "apply_operations executed tasks diags (op # ops) =
     (case apply_operation executed tasks op of
        (tasks', ds) \<Rightarrow> apply_operations executed tasks' (diags @ ds) ops)"

definition apply_plan_amendment ::
  "plan \<Rightarrow> plan_amendment \<Rightarrow> string list \<Rightarrow> plan option \<times> diagnostic list" where
  "apply_plan_amendment plan amendment executed =
     (case apply_operations executed (plan_tasks plan) [] (am_operations amendment) of
        (tasks, diagnostics) \<Rightarrow>
          if diagnostics \<noteq> [] then (None, diagnostics)
          else
            (case find_cycle (map task_id tasks) (task_edges tasks) of
               Some cycle \<Rightarrow>
                 (None, [error ''SPC2015'' (''amendment produces a dependency cycle: ''
                           @ join_with '' -> '' cycle @ ''.'') None None])
             | None \<Rightarrow> (Some (plan\<lparr>plan_tasks := tasks\<rparr>), diagnostics)))"

section \<open>Shared facts\<close>

lemma find_task_None [simp]: "find_task tasks tid = None \<longleftrightarrow> tid \<notin> task_id ` set tasks"
  by (auto simp: find_task_def find_None_iff_ball)

lemma find_task_SomeD: "find_task tasks tid = Some t \<Longrightarrow> t \<in> set tasks \<and> task_id t = tid"
  unfolding find_task_def by (rule find_SomeD)

lemma find_task_distinct:
  "distinct (map task_id tasks) \<Longrightarrow> t \<in> set tasks \<Longrightarrow> find_task tasks (task_id t) = Some t"
  by (induction tasks) (auto simp: find_task_def)

lemma task_edges_supported: "supported (map task_id tasks) (task_edges tasks)"
  by (auto simp: supported_def task_edges_def split: option.splits dest!: find_task_SomeD)

lemma executed_error_Nil [simp]: "executed_error executed tid = [] \<longleftrightarrow> tid \<notin> set executed"
  by (simp add: executed_error_def)

lemma dependency_updates [simp]:
  "task_id (drop_dependency tid t) = task_id t"
  "task_id (rename_dependency tid new_id t) = task_id t"
  by (simp_all add: drop_dependency_def rename_dependency_def split: option.splits)

text \<open>A task kept up to its dependencies.\<close>

definition same_but_dependencies :: "task \<Rightarrow> task \<Rightarrow> bool" where
  "same_but_dependencies t t' \<longleftrightarrow> t' = t\<lparr>task_depends_on := task_depends_on t'\<rparr>"

lemma same_but_dependencies_intros [intro, simp]:
  "same_but_dependencies t t"
  "same_but_dependencies t (t\<lparr>task_depends_on := d\<rparr>)"
  "same_but_dependencies t (drop_dependency tid t)"
  "same_but_dependencies t (rename_dependency tid new_id t)"
  by (simp_all add: same_but_dependencies_def drop_dependency_def rename_dependency_def split: option.splits)

lemma same_but_dependencies_trans:
  "same_but_dependencies t u \<Longrightarrow> same_but_dependencies u v \<Longrightarrow> same_but_dependencies t v"
  by (auto simp: same_but_dependencies_def) (metis task.surjective task.update_convs(5))

lemma same_but_dependencies_id: "same_but_dependencies t t' \<Longrightarrow> task_id t' = task_id t"
  unfolding same_but_dependencies_def by (metis task.select_convs(1) task.surjective task.update_convs(5))

definition keeps_executed :: "string list \<Rightarrow> task list \<Rightarrow> task list \<Rightarrow> bool" where
  "keeps_executed executed tasks tasks' \<longleftrightarrow>
     (\<forall>t \<in> set tasks. task_id t \<in> set executed \<longrightarrow> (\<exists>t' \<in> set tasks'. same_but_dependencies t t'))"

lemma keeps_executed_refl [simp]: "keeps_executed executed tasks tasks"
  by (auto simp: keeps_executed_def)

lemma keeps_executed_map:
  "(\<And>t. t \<in> set tasks \<Longrightarrow> task_id t \<in> set executed \<Longrightarrow> same_but_dependencies t (f t)) \<Longrightarrow>
     keeps_executed executed tasks (map f tasks)"
  by (auto simp: keeps_executed_def)

lemma apply_operation_keeps:
  "keeps_executed executed tasks (fst (apply_operation executed tasks op))"
proof (cases op)
  case (RemoveTask tid)
  then show ?thesis by (auto simp: keeps_executed_def)
next
  case (ReplaceTask tid task)
  show ?thesis
  proof (cases "tid \<in> set executed")
    case False
    then show ?thesis using ReplaceTask
      by (auto simp: Let_def o_def intro!: keeps_executed_map)
  qed (use ReplaceTask in \<open>auto simp: keeps_executed_def\<close>)
qed (auto simp: keeps_executed_def intro!: keeps_executed_map)

lemma keeps_executed_trans:
  "keeps_executed executed a b \<Longrightarrow> keeps_executed executed b c \<Longrightarrow> keeps_executed executed a c"
  unfolding keeps_executed_def
  by (metis same_but_dependencies_id same_but_dependencies_trans)

lemma apply_operations_keeps:
  "keeps_executed executed tasks (fst (apply_operations executed tasks diags ops))"
proof (induction ops arbitrary: tasks diags)
  case Nil
  then show ?case by (auto simp: keeps_executed_def)
next
  case (Cons op ops)
  obtain tasks' ds where "apply_operation executed tasks op = (tasks', ds)" by force
  with Cons apply_operation_keeps [of executed tasks op] show ?case
    by (auto intro: keeps_executed_trans)
qed

lemma apply_operations_diags: "\<exists>ds. snd (apply_operations executed tasks diags ops) = diags @ ds"
proof (induction ops arbitrary: tasks diags)
  case (Cons op ops)
  obtain tasks' ds where "apply_operation executed tasks op = (tasks', ds)" by force
  with Cons.IH [of tasks' "diags @ ds"] show ?case by auto
qed simp

lemma updated_id:
  "task_id (if P then t\<lparr>task_depends_on := d\<rparr> else t) = task_id t"
  "task_id (if P then t\<lparr>task_targets := ts\<rparr> else t) = task_id t"
  by simp_all

lemma replaced_ids:
  "map task_id (map (\<lambda>t. if task_id t = tid then task else t) tasks)
     = map (\<lambda>x. if x = tid then task_id task else x) (map task_id tasks)"
  by simp

lemma distinct_rename:
  assumes "distinct xs" "y = x \<or> y \<notin> set xs"
  shows "distinct (map (\<lambda>z. if z = x then y else z) xs)"
proof -
  have "inj_on (\<lambda>z. if z = x then y else z) (set xs)" using assms(2) by (auto simp: inj_on_def)
  with assms(1) show ?thesis by (simp add: distinct_map)
qed

lemma apply_operation_distinct:
  assumes "distinct (map task_id tasks)"
  shows "distinct (map task_id (fst (apply_operation executed tasks op)))"
proof (cases op)
  case (ReplaceTask tid task)
  let ?replaced = "map (\<lambda>t. if task_id t = tid then task else t) tasks"
  have "distinct (map task_id ?replaced)" if "task_id task = tid \<or> task_id task \<notin> task_id ` set tasks"
    using distinct_rename [OF assms, of "task_id task" tid] that
    unfolding replaced_ids by simp
  then show ?thesis using ReplaceTask assms by (simp add: Let_def o_def)
next
  case (AddDependency tid dep)
  then have "map task_id (fst (apply_operation executed tasks op)) = map task_id tasks"
    by (simp add: o_def updated_id)
  with assms show ?thesis by simp
next
  case (ChangeTarget tid targets)
  then have "map task_id (fst (apply_operation executed tasks op)) = map task_id tasks"
    by (simp add: o_def updated_id)
  with assms show ?thesis by simp
next
  case (RemoveTask tid)
  with assms show ?thesis by (simp add: o_def distinct_map_filter)
next
  case (AddTask task)
  with assms show ?thesis by simp
qed

lemma apply_operations_distinct:
  "distinct (map task_id tasks) \<Longrightarrow> distinct (map task_id (fst (apply_operations executed tasks diags ops)))"
proof (induction ops arbitrary: tasks diags)
  case (Cons op ops)
  obtain tasks' ds where "apply_operation executed tasks op = (tasks', ds)" by force
  with Cons apply_operation_distinct [of tasks executed op] show ?case by auto
qed simp

fun touches :: "amendment_operation \<Rightarrow> string \<Rightarrow> bool" where
  "touches (RemoveTask tid) x = (x = tid)"
| "touches (ReplaceTask tid task) x = (x = tid)"
| "touches (ChangeTarget tid targets) x = (x = tid)"
| "touches _ x = False"

lemma apply_operation_touch_refused:
  "touches op tid \<Longrightarrow> tid \<in> set executed \<Longrightarrow> snd (apply_operation executed tasks op) \<noteq> []"
  by (cases op) auto

lemma apply_operations_touch_refused:
  assumes "op \<in> set ops" "touches op tid" "tid \<in> set executed"
  shows "snd (apply_operations executed tasks diags ops) \<noteq> []"
  using assms(1)
proof (induction ops arbitrary: tasks diags)
  case (Cons x ops)
  obtain tasks' ds where x: "apply_operation executed tasks x = (tasks', ds)" by force
  show ?case
  proof (cases "op = x")
    case True
    then have "ds \<noteq> []" using apply_operation_touch_refused [OF assms(2,3), of tasks] x by auto
    with x apply_operations_diags [of executed tasks' "diags @ ds" ops] show ?thesis by auto
  next
    case False
    with Cons x show ?thesis by simp
  qed
qed simp

section \<open>Properties\<close>

text \<open>
  C25: execution history is immutable. Whatever the operations, a task of the plan that
  already executed is in the amended plan with every field but its dependencies unchanged.
\<close>

theorem amendment_preserves_executed:
  assumes "apply_plan_amendment p am executed = (Some p', ds)"
    and "t \<in> set (plan_tasks p)" "task_id t \<in> set executed"
  shows "\<exists>t' \<in> set (plan_tasks p'). t' = t\<lparr>task_depends_on := task_depends_on t'\<rparr>"
proof -
  have "plan_tasks p' = fst (apply_operations executed (plan_tasks p) [] (am_operations am))"
    using assms(1) by (auto simp: apply_plan_amendment_def split: prod.splits if_splits option.splits)
  with apply_operations_keeps [of executed "plan_tasks p" "[]" "am_operations am"] assms(2,3)
  show ?thesis by (auto simp: keeps_executed_def same_but_dependencies_def)
qed

definition sample_amendment :: "amendment_operation list \<Rightarrow> plan_amendment" where
  "sample_amendment ops =
     \<lparr>am_id = ''AM-1'', am_plan_id = ''plan'', am_reason = ''why'', am_observation_refs = [],
      am_operations = ops, am_created_at = ''2026-01-01''\<rparr>"

theorem amendment_preserves_executed_witness:
  "\<exists>t' \<in> set (plan_tasks (sample_plan [sample_task ''T001'' [] [''a.ts'']])).
     t' = (sample_task ''T001'' [] [''a.ts''])\<lparr>task_depends_on := task_depends_on t'\<rparr>"
proof (rule amendment_preserves_executed)
  show "apply_plan_amendment
      (sample_plan [sample_task ''T001'' [] [''a.ts''], sample_task ''T002'' [''T001''] [''b.ts'']])
      (sample_amendment [RemoveTask ''T002'']) [''T001'']
    = (Some (sample_plan [sample_task ''T001'' [] [''a.ts'']]), [])"
    by code_simp
qed (simp_all add: sample_plan_def sample_task_def)



text \<open>
  C26: an amendment that is accepted carries no diagnostic, changes only the tasks of the plan,
  keeps the task ids unique and yields an acyclic dependency graph; a refused one reports at
  least one diagnostic.
\<close>

theorem amendment_result:
  assumes "distinct (map task_id (plan_tasks p))"
  shows "case apply_plan_amendment p am executed of
      (Some p', ds) \<Rightarrow> ds = [] \<and> p' = p\<lparr>plan_tasks := plan_tasks p'\<rparr> \<and>
        distinct (map task_id (plan_tasks p')) \<and> acyclic (edge_rel (task_edges (plan_tasks p')))
    | (None, ds) \<Rightarrow> ds \<noteq> []"
  using apply_operations_distinct [OF assms, of executed "[]" "am_operations am"]
  by (auto simp: apply_plan_amendment_def find_cycle_None_iff [OF task_edges_supported]
      split: prod.splits option.splits)

theorem amendment_result_witness:
  "\<exists>p'. apply_plan_amendment (sample_plan [sample_task ''T001'' [] [], sample_task ''T002'' [] []])
      (sample_amendment [AddDependency ''T002'' ''T001'']) [] = (Some p', []) \<and>
    acyclic (edge_rel (task_edges (plan_tasks p')))"
proof -
  let ?p = "sample_plan [sample_task ''T001'' [] [], sample_task ''T002'' [] []]"
  let ?r = "apply_plan_amendment ?p (sample_amendment [AddDependency ''T002'' ''T001'']) []"
  have "distinct (map task_id (plan_tasks ?p))" by (simp add: sample_plan_def sample_task_def)
  from amendment_result [OF this, of "sample_amendment [AddDependency ''T002'' ''T001'']" "[]"]
  have "case ?r of (Some p', ds) \<Rightarrow> ds = [] \<and> acyclic (edge_rel (task_edges (plan_tasks p'))) | (None, ds) \<Rightarrow> ds \<noteq> []"
    by (auto split: prod.splits option.splits)
  moreover have "snd ?r = []" by code_simp
  ultimately show ?thesis by (cases ?r; cases "fst ?r") auto
qed

end
