(* ===== verification/PlanValidate.thy ===== *)
theory PlanValidate
  imports Amendment Glob
begin

text \<open>
  Plan normalisation and deterministic plan validation, \<^verbatim>\<open>packages/core/src/plan\<close>
  (\<^verbatim>\<open>normalize.ts\<close> and \<^verbatim>\<open>validate.ts\<close>). The rules are one definition each, in the order the
  code runs them; \<open>validate_plan\<close> concatenates their diagnostics. The file system is a
  parameter: \<open>Some is_dir\<close> when a repository root is given.
\<close>

section \<open>normalizePlan\<close>

definition opt_list :: "'a list option \<Rightarrow> 'a list" where
  "opt_list xs = (case xs of None \<Rightarrow> [] | Some l \<Rightarrow> l)"

lemma opt_list_simps [simp]: "opt_list None = []" "opt_list (Some xs) = xs"
  by (simp_all add: opt_list_def)

lemma depends_on_opt: "depends_on t = opt_list (task_depends_on t)"
  by (simp add: depends_on_def opt_list_def)

definition normalize_targets :: "task_targets \<Rightarrow> task_targets" where
  "normalize_targets ts =
     \<lparr>targets_read = map_option sort_unique (targets_read ts),
      targets_write = map_option sort_unique (targets_write ts)\<rparr>"

definition normalize_task :: "task \<Rightarrow> task" where
  "normalize_task t = t
     \<lparr>task_depends_on := map_option sort_unique (task_depends_on t),
      task_satisfies := map_option sort_unique (task_satisfies t),
      task_verifies := map_option sort_unique (task_verifies t),
      task_targets := map_option normalize_targets (task_targets t)\<rparr>"

definition normalize_plan :: "plan \<Rightarrow> plan" where
  "normalize_plan p = p\<lparr>plan_tasks := map normalize_task (plan_tasks p)\<rparr>"

section \<open>validatePlan\<close>

definition write_targets :: "task \<Rightarrow> string list" where
  "write_targets t = (case task_targets t of None \<Rightarrow> [] | Some ts \<Rightarrow> opt_list (targets_write ts))"

definition read_targets :: "task \<Rightarrow> string list" where
  "read_targets t = (case task_targets t of None \<Rightarrow> [] | Some ts \<Rightarrow> opt_list (targets_read ts))"

text \<open>SPC2016; \<open>is_dir raw\<close> stands for the existence of a directory at \<open>path.join(repoRoot, raw)\<close>.\<close>

definition globbed :: "string \<Rightarrow> bool" where
  "globbed raw \<longleftrightarrow> list_ex (\<lambda>c. c \<in> {CHR ''*'', CHR ''?'', CHR ''[''}) raw"

definition check_bare_directories :: "(string \<Rightarrow> bool) option \<Rightarrow> task list \<Rightarrow> diagnostic list" where
  "check_bare_directories repo tasks =
     (case repo of
        None \<Rightarrow> []
      | Some is_dir \<Rightarrow>
          concat (map (\<lambda>t. concat (map (\<lambda>raw.
            if globbed raw then []
            else if \<not> is_dir raw then []
            else [error ''SPC2016'' (''task '' @ task_id t @ '' write target '' @ [CHR 0x22] @ raw @ [CHR 0x22]
                    @ '' is a bare directory: it matches only the literal path under runtime glob enforcement, never its children - use the directory glob ''
                    @ [CHR 0x22] @ rev (dropWhile (\<lambda>c. c = CHR ''/'') (rev raw)) @ ''/**'' @ [CHR 0x22]
                    @ '' instead.'') None None])
            (write_targets t))) tasks))"

text \<open>SPC2001 and the index \<open>byId\<close>, in insertion order.\<close>

fun index_tasks :: "(string \<times> task) list \<Rightarrow> task list \<Rightarrow> (string \<times> task) list \<times> diagnostic list" where
  "index_tasks by_id [] = (by_id, [])"
| "index_tasks by_id (t # ts) =
     (if map_of by_id (task_id t) \<noteq> None
      then (case index_tasks by_id ts of (by_id', ds) \<Rightarrow>
              (by_id', error ''SPC2001'' (''duplicate task id '' @ task_id t @ ''.'') None None # ds))
      else index_tasks (by_id @ [(task_id t, t)]) ts)"

definition check_dependencies :: "(string \<times> task) list \<Rightarrow> task list \<Rightarrow> diagnostic list" where
  "check_dependencies by_id tasks =
     concat (map (\<lambda>t. concat (map (\<lambda>dep.
       if map_of by_id dep = None
       then [error ''SPC2002'' (''task '' @ task_id t @ '' depends on unknown task '' @ dep @ ''.'') None
               (Some (sort (map fst by_id)))]
       else []) (depends_on t))) tasks)"

definition by_id_edges :: "(string \<times> task) list \<Rightarrow> string edge_fn" where
  "by_id_edges by_id tid = (case map_of by_id tid of None \<Rightarrow> [] | Some t \<Rightarrow> depends_on t)"

definition check_cycle :: "string edge_fn \<Rightarrow> task list \<Rightarrow> diagnostic list" where
  "check_cycle edges tasks =
     (case find_cycle (map task_id tasks) edges of
        None \<Rightarrow> []
      | Some cycle \<Rightarrow> [error ''SPC2003'' (''task dependency cycle detected: '' @ join_with '' -> '' cycle @ ''.'') None None])"

definition check_property_refs :: "string list \<Rightarrow> task list \<Rightarrow> diagnostic list" where
  "check_property_refs property_ids tasks =
     concat (map (\<lambda>t. concat (map (\<lambda>ref.
       if ref \<notin> set property_ids
       then [error ''SPC2004'' (''task '' @ task_id t @ '' references unknown property '' @ ref @ ''.'') None
               (Some (sort property_ids))]
       else []) (opt_list (task_satisfies t) @ opt_list (task_verifies t)))) tasks)"

text \<open>SPC2005 and SPC2006.\<close>

definition check_coverage :: "task list \<Rightarrow> desired_property \<Rightarrow> diagnostic list" where
  "check_coverage tasks p =
     (if dp_priority p \<noteq> Must then []
      else
        (let satisfying = filter (\<lambda>t. dp_id p \<in> set (opt_list (task_satisfies t))) tasks;
             verifying = filter (\<lambda>t. dp_id p \<in> set (opt_list (task_verifies t))) tasks
         in (if satisfying = [] \<and> verifying = []
             then [error ''SPC2005'' (''must-property '' @ dp_id p @ '' ('' @ dp_statement p
                     @ '') is not addressed by any task (satisfies or verifies).'') None None]
             else [])
          @ (if verifying = [] \<and> \<not> list_ex is_deterministic_criterion (dp_acceptance p)
             then [error ''SPC2006'' (''must-property '' @ dp_id p
                     @ '' has no verification path: no verify task and no command/file acceptance criterion.'') None None]
             else [])))"

text \<open>SPC2007: every pair of writers, the earlier first.\<close>

definition writes_overlap :: "task \<Rightarrow> task \<Rightarrow> bool" where
  "writes_overlap a b =
     list_ex (\<lambda>pa. list_ex (\<lambda>pb. patterns_overlap pa pb) (write_targets b)) (write_targets a)"

definition reaches :: "string edge_fn \<Rightarrow> string \<Rightarrow> string \<Rightarrow> bool" where
  "reaches edges a b = (case reachable_from a edges of None \<Rightarrow> False | Some out \<Rightarrow> b \<in> out)"

definition check_write_pair :: "string edge_fn \<Rightarrow> task \<Rightarrow> task \<Rightarrow> diagnostic list" where
  "check_write_pair edges a b =
     (if \<not> writes_overlap a b then []
      else if \<not> reaches edges (task_id b) (task_id a) \<and> \<not> reaches edges (task_id a) (task_id b)
      then [error ''SPC2007'' (''tasks '' @ task_id a @ '' and '' @ task_id b
              @ '' have overlapping write targets but no ordering dependency between them.'') None
              (Some (sort (write_targets a @ write_targets b)))]
      else [])"

fun check_write_pairs :: "string edge_fn \<Rightarrow> task list \<Rightarrow> diagnostic list" where
  "check_write_pairs edges [] = []"
| "check_write_pairs edges (a # rest) =
     concat (map (check_write_pair edges a) rest) @ check_write_pairs edges rest"

definition check_write_conflicts :: "string edge_fn \<Rightarrow> task list \<Rightarrow> diagnostic list" where
  "check_write_conflicts edges tasks = check_write_pairs edges (filter (\<lambda>t. write_targets t \<noteq> []) tasks)"

definition check_identity :: "plan \<Rightarrow> spec_ir \<Rightarrow> diagnostic list" where
  "check_identity p ir =
     (if plan_spec_id p \<noteq> ns_id (ir_spec ir)
      then [error ''SPC2008'' (''plan references spec '' @ plan_spec_id p @ '' but was validated against ''
              @ ns_id (ir_spec ir) @ ''.'') None None] else [])
     @ (if plan_spec_digest p \<noteq> ir_digest ir
        then [error ''SPC2009'' (''plan records spec digest '' @ plan_spec_digest p @ '' but current spec digest is ''
                @ ir_digest ir @ ''.'') None None] else [])"

definition check_inspect_writes :: "task list \<Rightarrow> diagnostic list" where
  "check_inspect_writes tasks =
     concat (map (\<lambda>t.
       if task_kind t = Inspect \<and> write_targets t \<noteq> []
       then [error ''SPC2010'' (''inspect task '' @ task_id t @ '' declares write targets; inspection is read-only.'') None None]
       else []) tasks)"

text \<open>SPC2011; the regular expression of an escaped glob always compiles.\<close>

definition check_target_paths :: "task list \<Rightarrow> diagnostic list" where
  "check_target_paths tasks =
     concat (map (\<lambda>t. concat (map (\<lambda>p.
       let norm = normalize_rel_path p in
       if \<not> is_safe_relative_path norm \<and> norm \<noteq> ''**''
       then [error ''SPC2011'' (''task '' @ task_id t @ '' target '' @ [CHR 0x22] @ p @ [CHR 0x22]
               @ '' is not a safe relative path pattern.'') None None]
       else []) (read_targets t @ write_targets t))) tasks)"

definition validate_plan :: "plan \<Rightarrow> spec_ir \<Rightarrow> (string \<Rightarrow> bool) option \<Rightarrow> diagnostic list" where
  "validate_plan p ir repo =
     (let tasks = plan_tasks p;
          property_ids = dedup (map dp_id (ir_properties ir));
          (by_id, duplicates) = index_tasks [] tasks;
          edges = by_id_edges by_id
      in check_bare_directories repo tasks @ duplicates @ check_dependencies by_id tasks
         @ check_cycle edges tasks @ check_property_refs property_ids tasks
         @ concat (map (check_coverage tasks) (ir_properties ir))
         @ check_write_conflicts edges tasks @ check_identity p ir
         @ check_inspect_writes tasks @ check_target_paths tasks)"

section \<open>Normalisation\<close>

lemma normalize_targets_idem [simp]: "normalize_targets (normalize_targets ts) = normalize_targets ts"
  by (simp add: normalize_targets_def option.map_comp comp_def)

lemma normalize_task_idem [simp]: "normalize_task (normalize_task t) = normalize_task t"
  by (simp add: normalize_task_def option.map_comp comp_def)

lemma normalize_plan_idem: "normalize_plan (normalize_plan p) = normalize_plan p"
  by (simp add: normalize_plan_def)

lemma normalize_task_frame [simp]:
  "task_id (normalize_task t) = task_id t" "task_kind (normalize_task t) = task_kind t"
  by (simp_all add: normalize_task_def)

text \<open>Two plans that differ in the order and repetition of set-like arrays only.\<close>

definition same_set :: "'a list option \<Rightarrow> 'a list option \<Rightarrow> bool" where
  "same_set xs ys = rel_option (\<lambda>a b. set a = set b) xs ys"

definition same_targets :: "task_targets \<Rightarrow> task_targets \<Rightarrow> bool" where
  "same_targets a b \<longleftrightarrow>
     same_set (targets_read a) (targets_read b) \<and> same_set (targets_write a) (targets_write b)"

definition same_task :: "task \<Rightarrow> task \<Rightarrow> bool" where
  "same_task a b \<longleftrightarrow>
     task_id a = task_id b \<and> task_title a = task_title b \<and> task_kind a = task_kind b
     \<and> task_intent a = task_intent b \<and> task_risk a = task_risk b
     \<and> same_set (task_depends_on a) (task_depends_on b) \<and> same_set (task_satisfies a) (task_satisfies b)
     \<and> same_set (task_verifies a) (task_verifies b) \<and> rel_option same_targets (task_targets a) (task_targets b)"

lemma sort_unique_eq_iff [simp]: "sort_unique xs = sort_unique ys \<longleftrightarrow> set xs = set ys"
  by (metis set_sort_unique sort_unique_cong)

lemma same_set_iff [simp]:
  fixes xs :: "'a::linorder list option"
  shows "map_option sort_unique xs = map_option sort_unique ys \<longleftrightarrow> same_set xs ys"
  by (cases xs; cases ys) (simp_all add: same_set_def)

lemma same_targets_iff: "normalize_targets a = normalize_targets b \<longleftrightarrow> same_targets a b"
  by (simp add: normalize_targets_def same_targets_def)

lemma same_targets_opt_iff [simp]:
  "map_option normalize_targets xs = map_option normalize_targets ys \<longleftrightarrow> rel_option same_targets xs ys"
  by (cases xs; cases ys) (simp_all add: same_targets_iff)

lemma normalize_task_eq_iff: "normalize_task a = normalize_task b \<longleftrightarrow> same_task a b"
  by (cases a; cases b) (auto simp: normalize_task_def same_task_def)

lemma normalize_plan_eq_iff:
  "normalize_plan p = normalize_plan q \<longleftrightarrow>
     p\<lparr>plan_tasks := []\<rparr> = q\<lparr>plan_tasks := []\<rparr> \<and> list_all2 same_task (plan_tasks p) (plan_tasks q)"
proof -
  have "map normalize_task xs = map normalize_task ys \<longleftrightarrow> list_all2 same_task xs ys" for xs ys
    by (simp add: list_eq_iff_nth_eq list_all2_conv_all_nth normalize_task_eq_iff cong: conj_cong)
  then show ?thesis by (cases p; cases q) (auto simp: normalize_plan_def)
qed

section \<open>What a plan without errors promises\<close>

lemma index_tasks_spec:
  "index_tasks by_id ts = (by_id', ds) \<Longrightarrow>
     map_of by_id' = (\<lambda>x. case map_of by_id x of Some t \<Rightarrow> Some t | None \<Rightarrow> find_task ts x) \<and>
     (distinct (map fst by_id) \<longrightarrow>
        (ds = [] \<longleftrightarrow> distinct (map task_id ts) \<and> task_id ` set ts \<inter> fst ` set by_id = {}))"
proof (induction by_id ts arbitrary: by_id' ds rule: index_tasks.induct)
  case (1 by_id)
  then show ?case by (auto simp: fun_eq_iff find_task_def split: option.splits)
next
  case (2 by_id t ts)
  show ?case
  proof (cases "map_of by_id (task_id t)")
    case None
    then have new: "task_id t \<notin> fst ` set by_id" by (simp add: map_of_eq_None_iff)
    from None 2(3) have "index_tasks (by_id @ [(task_id t, t)]) ts = (by_id', ds)" by simp
    from 2(2) [OF _ this] None have IH:
      "map_of by_id' = (\<lambda>x. case map_of (by_id @ [(task_id t, t)]) x of Some t \<Rightarrow> Some t | None \<Rightarrow> find_task ts x)"
      "distinct (map fst (by_id @ [(task_id t, t)])) \<longrightarrow>
        (ds = [] \<longleftrightarrow> distinct (map task_id ts) \<and> task_id ` set ts \<inter> fst ` set (by_id @ [(task_id t, t)]) = {})"
      by auto
    have "map_of by_id' = (\<lambda>x. case map_of by_id x of Some u \<Rightarrow> Some u | None \<Rightarrow> find_task (t # ts) x)"
      unfolding IH(1) by (auto simp: fun_eq_iff map_add_def find_task_def split: option.splits)
    moreover have "distinct (map fst by_id) \<longrightarrow>
        (ds = [] \<longleftrightarrow> distinct (map task_id (t # ts)) \<and> task_id ` set (t # ts) \<inter> fst ` set by_id = {})"
      using IH(2) new by auto
    ultimately show ?thesis by blast
  next
    case (Some u)
    then have old: "task_id t \<in> fst ` set by_id" by (auto dest: map_of_SomeD intro: rev_image_eqI)
    obtain by0 ds0 where r: "index_tasks by_id ts = (by0, ds0)" by force
    with Some 2(3) have b: "by_id' = by0" "ds \<noteq> []" by auto
    from 2(1) [OF _ r] Some have
      "map_of by0 = (\<lambda>x. case map_of by_id x of Some t \<Rightarrow> Some t | None \<Rightarrow> find_task ts x)" by auto
    then have "map_of by_id' = (\<lambda>x. case map_of by_id x of Some u \<Rightarrow> Some u | None \<Rightarrow> find_task (t # ts) x)"
      unfolding b(1) using Some by (auto simp: fun_eq_iff find_task_def split: option.splits)
    then show ?thesis using b(2) old by auto
  qed
qed

lemma index_tasks_init:
  assumes "index_tasks [] ts = (by_id, ds)"
  shows "map_of by_id = find_task ts" "ds = [] \<longleftrightarrow> distinct (map task_id ts)"
    "by_id_edges by_id = task_edges ts"
  using index_tasks_spec [OF assms] by (auto simp: by_id_edges_def task_edges_def fun_eq_iff)

lemma concat_map_Nil: "concat (map f xs) = [] \<longleftrightarrow> (\<forall>x \<in> set xs. f x = [])"
  by (induction xs) auto

lemma check_write_pairs_Nil:
  "check_write_pairs edges ts = [] \<longleftrightarrow> sorted_wrt (\<lambda>a b. check_write_pair edges a b = []) ts"
  by (induction ts) auto

lemma sorted_wrt_filter:
  assumes "\<And>x y. \<not> Q x \<Longrightarrow> P x y" "\<And>x y. \<not> Q y \<Longrightarrow> P x y"
  shows "sorted_wrt P (filter Q xs) \<longleftrightarrow> sorted_wrt P xs"
proof (induction xs)
  case (Cons a xs)
  show ?case
  proof (cases "Q a")
    case True
    have "(\<forall>x \<in> set (filter Q xs). P a x) \<longleftrightarrow> (\<forall>x \<in> set xs. P a x)" using assms(2) by auto
    with Cons True show ?thesis by simp
  next
    case False
    with Cons assms(1) show ?thesis by simp
  qed
qed simp

lemma reaches_iff:
  "supported nodes edges \<Longrightarrow> reaches edges a b \<longleftrightarrow> (a, b) \<in> (edge_rel edges)\<^sup>+"
  by (simp add: reaches_def reachable_from_supported)

definition ordered_writers :: "task list \<Rightarrow> task \<Rightarrow> task \<Rightarrow> bool" where
  "ordered_writers tasks a b \<longleftrightarrow>
     (writes_overlap a b \<longrightarrow>
        (task_id b, task_id a) \<in> (edge_rel (task_edges tasks))\<^sup>+
        \<or> (task_id a, task_id b) \<in> (edge_rel (task_edges tasks))\<^sup>+)"

lemma check_write_conflicts_Nil:
  "check_write_conflicts (task_edges tasks) tasks = [] \<longleftrightarrow> sorted_wrt (ordered_writers tasks) tasks"
proof -
  have "check_write_pair (task_edges tasks) a b = [] \<longleftrightarrow> ordered_writers tasks a b" for a b
    by (auto simp: check_write_pair_def ordered_writers_def reaches_iff [OF task_edges_supported])
  moreover have "ordered_writers tasks a b" if "write_targets a = [] \<or> write_targets b = []" for a b
    using that by (auto simp: ordered_writers_def writes_overlap_def list_ex_iff)
  ultimately show ?thesis
    unfolding check_write_conflicts_def check_write_pairs_Nil by (subst sorted_wrt_filter) auto
qed

definition safe_target :: "string \<Rightarrow> bool" where
  "safe_target p \<longleftrightarrow> is_safe_relative_path p \<or> normalize_rel_path p = ''**''"

text \<open>The abstract contract of a plan, with no algorithm in it.\<close>

definition plan_valid :: "plan \<Rightarrow> spec_ir \<Rightarrow> (string \<Rightarrow> bool) option \<Rightarrow> bool" where
  "plan_valid p ir repo \<longleftrightarrow>
     (let tasks = plan_tasks p; ids = task_id ` set tasks; props = set (ir_properties ir) in
       distinct (map task_id tasks)
       \<and> (\<forall>t \<in> set tasks. set (depends_on t) \<subseteq> ids)
       \<and> acyclic (edge_rel (task_edges tasks))
       \<and> (\<forall>t \<in> set tasks. set (opt_list (task_satisfies t)) \<union> set (opt_list (task_verifies t)) \<subseteq> dp_id ` props)
       \<and> (\<forall>q \<in> props. dp_priority q = Must \<longrightarrow>
            (\<exists>t \<in> set tasks. dp_id q \<in> set (opt_list (task_satisfies t)) \<union> set (opt_list (task_verifies t)))
            \<and> ((\<exists>t \<in> set tasks. dp_id q \<in> set (opt_list (task_verifies t)))
               \<or> (\<exists>c \<in> set (dp_acceptance q). is_deterministic_criterion c)))
       \<and> sorted_wrt (ordered_writers tasks) tasks
       \<and> plan_spec_id p = ns_id (ir_spec ir) \<and> plan_spec_digest p = ir_digest ir
       \<and> (\<forall>t \<in> set tasks. task_kind t = Inspect \<longrightarrow> write_targets t = [])
       \<and> (\<forall>t \<in> set tasks. \<forall>q \<in> set (read_targets t) \<union> set (write_targets t). safe_target q)
       \<and> (\<forall>is_dir. repo = Some is_dir \<longrightarrow>
            (\<forall>t \<in> set tasks. \<forall>raw \<in> set (write_targets t). is_dir raw \<longrightarrow> globbed raw)))"

lemma validate_plan_all_errors: "d \<in> set (validate_plan p ir repo) \<Longrightarrow> diag_severity d = Error"
proof -
  have pairs: "d \<in> set (check_write_pairs edges ts) \<Longrightarrow> diag_severity d = Error" for edges ts
    by (induction ts) (auto simp: check_write_pair_def split: if_splits)
  have index: "index_tasks by_id ts = (by_id', ds) \<Longrightarrow> d \<in> set ds \<Longrightarrow> diag_severity d = Error" for by_id ts by_id' ds
    by (induction by_id ts arbitrary: by_id' ds rule: index_tasks.induct) (auto split: if_splits prod.splits)
  show "d \<in> set (validate_plan p ir repo) \<Longrightarrow> diag_severity d = Error"
    by (auto simp: validate_plan_def check_bare_directories_def check_dependencies_def check_cycle_def
        check_property_refs_def check_coverage_def check_write_conflicts_def check_identity_def
        check_inspect_writes_def check_target_paths_def Let_def
        split: if_splits option.splits prod.splits dest!: pairs dest: index [OF sym])
qed

lemma check_dependencies_Nil:
  "map_of by_id = find_task tasks \<Longrightarrow>
     check_dependencies by_id tasks = [] \<longleftrightarrow> (\<forall>t \<in> set tasks. set (depends_on t) \<subseteq> task_id ` set tasks)"
  by (auto simp: check_dependencies_def concat_map_Nil)

lemma check_cycle_Nil: "check_cycle (task_edges tasks) tasks = [] \<longleftrightarrow> acyclic (edge_rel (task_edges tasks))"
  by (auto simp: check_cycle_def find_cycle_None_iff [OF task_edges_supported, symmetric] split: option.splits)

lemma check_property_refs_Nil:
  "check_property_refs ids tasks = [] \<longleftrightarrow>
     (\<forall>t \<in> set tasks. set (opt_list (task_satisfies t)) \<union> set (opt_list (task_verifies t)) \<subseteq> set ids)"
proof -
  have "check_property_refs ids tasks = [] \<longleftrightarrow>
      (\<forall>t \<in> set tasks. \<forall>ref \<in> set (opt_list (task_satisfies t) @ opt_list (task_verifies t)). ref \<in> set ids)"
    unfolding check_property_refs_def concat_map_Nil by (simp cong: if_cong)
  then show ?thesis by auto
qed

lemma check_coverage_Nil:
  "check_coverage tasks q = [] \<longleftrightarrow>
     (dp_priority q = Must \<longrightarrow>
        (\<exists>t \<in> set tasks. dp_id q \<in> set (opt_list (task_satisfies t)) \<union> set (opt_list (task_verifies t)))
        \<and> ((\<exists>t \<in> set tasks. dp_id q \<in> set (opt_list (task_verifies t)))
           \<or> (\<exists>c \<in> set (dp_acceptance q). is_deterministic_criterion c)))"
  by (auto simp: check_coverage_def Let_def filter_empty_conv list_ex_iff)

lemma check_simple_Nil:
  "check_identity p ir = [] \<longleftrightarrow> plan_spec_id p = ns_id (ir_spec ir) \<and> plan_spec_digest p = ir_digest ir"
  "check_inspect_writes tasks = [] \<longleftrightarrow> (\<forall>t \<in> set tasks. task_kind t = Inspect \<longrightarrow> write_targets t = [])"
  "check_target_paths tasks = [] \<longleftrightarrow>
     (\<forall>t \<in> set tasks. \<forall>q \<in> set (read_targets t) \<union> set (write_targets t). safe_target q)"
  "check_bare_directories repo tasks = [] \<longleftrightarrow>
     (\<forall>is_dir. repo = Some is_dir \<longrightarrow>
        (\<forall>t \<in> set tasks. \<forall>raw \<in> set (write_targets t). is_dir raw \<longrightarrow> globbed raw))"
proof -
  show "check_identity p ir = [] \<longleftrightarrow> plan_spec_id p = ns_id (ir_spec ir) \<and> plan_spec_digest p = ir_digest ir"
    by (simp add: check_identity_def)
  show "check_inspect_writes tasks = [] \<longleftrightarrow> (\<forall>t \<in> set tasks. task_kind t = Inspect \<longrightarrow> write_targets t = [])"
    unfolding check_inspect_writes_def concat_map_Nil by auto
  have "check_target_paths tasks = [] \<longleftrightarrow>
      (\<forall>t \<in> set tasks. \<forall>q \<in> set (read_targets t @ write_targets t). safe_target q)"
    unfolding check_target_paths_def concat_map_Nil Let_def safe_target_def by (simp cong: if_cong)
  then show "check_target_paths tasks = [] \<longleftrightarrow>
      (\<forall>t \<in> set tasks. \<forall>q \<in> set (read_targets t) \<union> set (write_targets t). safe_target q)" by simp
  show "check_bare_directories repo tasks = [] \<longleftrightarrow>
     (\<forall>is_dir. repo = Some is_dir \<longrightarrow>
        (\<forall>t \<in> set tasks. \<forall>raw \<in> set (write_targets t). is_dir raw \<longrightarrow> globbed raw))"
    unfolding check_bare_directories_def by (cases repo) (simp_all only: option.case concat_map_Nil, auto)
qed

text \<open>
  C7: a plan passes validation exactly when it meets the abstract contract: unique task ids,
  known and acyclic dependencies, known properties, every must-property covered and
  verifiable, overlapping writers ordered, the right specification, read-only inspection,
  safe targets and no bare directory among them.
\<close>
theorem validate_plan_iff: "\<not> has_errors (validate_plan p ir repo) \<longleftrightarrow> plan_valid p ir repo"
proof -
  have "\<not> has_errors (validate_plan p ir repo) \<longleftrightarrow> validate_plan p ir repo = []"
    using validate_plan_all_errors [of _ p ir repo] by (cases "validate_plan p ir repo") auto
  moreover obtain by_id ds where r: "index_tasks [] (plan_tasks p) = (by_id, ds)" by force
  ultimately show ?thesis
    using index_tasks_init [OF r]
    by (auto simp: validate_plan_def plan_valid_def Let_def r check_simple_Nil check_cycle_Nil
        check_property_refs_Nil check_coverage_Nil check_write_conflicts_Nil concat_map_Nil
        check_dependencies_Nil)
qed

text \<open>
  the digest of a plan is taken of its normal form; two plans have the same normal form
  exactly when they differ only in the order and repetition inside the set-like arrays.
\<close>
theorem normalize_plan_exact:
  "normalize_plan (normalize_plan p) = normalize_plan p \<and>
   (normalize_plan p = normalize_plan q \<longleftrightarrow>
      p\<lparr>plan_tasks := []\<rparr> = q\<lparr>plan_tasks := []\<rparr> \<and> list_all2 same_task (plan_tasks p) (plan_tasks q))"
  by (simp add: normalize_plan_idem normalize_plan_eq_iff)

end
