(* ===== verification/Planning.thy ===== *)
theory Planning
  imports Amendment PlanValidate
begin

text \<open>
  The planner's deterministic side, \<^verbatim>\<open>packages/planner/src\<close>: the risk tiers of an amendment
  (\<^verbatim>\<open>risk.ts\<close>), and the bounded generate, validate and repair loops of plans (\<^verbatim>\<open>planner.ts\<close>) and
  amendments (\<^verbatim>\<open>amendment.ts\<close>). The language model is a parameter: from the attempt and the
  repair text to an answer, which may throw.
\<close>

section \<open>Risk of an amendment\<close>

datatype amendment_risk = LowRisk | MediumRisk | HighRiskAmendment

definition default_high_risk_patterns :: "string list" where
  "default_high_risk_patterns =
     [''package.json'', ''pnpm-lock.yaml'', ''package-lock.json'', ''yarn.lock'', ''bun.lockb'',
      ''**/migrations/**'', ''Dockerfile'', ''docker-compose*.yml'', ''docker-compose*.yaml'',
      ''.github/workflows/**'', ''infra/**'', ''terraform/**'', ''k8s/**'']"

fun introduced_task :: "amendment_operation \<Rightarrow> task option" where
  "introduced_task (AddTask t) = Some t"
| "introduced_task (ReplaceTask _ t) = Some t"
| "introduced_task _ = None"

definition introduced_tasks :: "plan_amendment \<Rightarrow> task list" where
  "introduced_tasks am = List.map_filter introduced_task (am_operations am)"

text \<open>The reason a task is of high risk, if it is.\<close>

definition high_reason :: "string list \<Rightarrow> task \<Rightarrow> string option" where
  "high_reason patterns t =
     (if task_risk t = Some High then Some (task_id t @ '' declares risk \"high\"'')
      else map_option (\<lambda>w. task_id t @ '' writes high-risk path '' @ [CHR 0x22] @ w @ [CHR 0x22])
             (List.find (glob_match_any patterns) (write_targets t)))"

definition read_only_task :: "task \<Rightarrow> bool" where
  "read_only_task t \<longleftrightarrow> write_targets t = []"

fun structural :: "amendment_operation \<Rightarrow> bool" where
  "structural (RemoveTask _) = True"
| "structural (ReplaceTask _ _) = True"
| "structural (ChangeTarget _ _) = True"
| "structural (AddTask t) = (\<not> read_only_task t)"
| "structural (AddDependency _ _) = False"

definition classify_amendment_risk :: "plan_amendment \<Rightarrow> string list \<Rightarrow> amendment_risk \<times> string list" where
  "classify_amendment_risk am extra =
     (let patterns = default_high_risk_patterns @ extra;
          reasons = List.map_filter (high_reason patterns) (introduced_tasks am)
      in if reasons \<noteq> [] then (HighRiskAmendment, reasons)
         else if list_ex structural (am_operations am) then (MediumRisk, [''amendment restructures planned work''])
         else (LowRisk, [''dependency-only or read-only additions'']))"

section \<open>Plans\<close>

definition max_repair_attempts :: nat where "max_repair_attempts = 2"

definition total_attempts :: nat where "total_attempts = 1 + max_repair_attempts"

record planner_answer =
  pa_tasks :: "task list"
  pa_assumptions :: "string list"
  pa_followups :: "followup_draft list"

record planner_input =
  pi_ir :: spec_ir
  pi_repo :: "(string \<Rightarrow> bool) option"
  pi_plan_id :: string
  pi_provider :: "string \<times> string option"
  pi_revision :: string
  pi_snapshot_digest :: string

definition candidate_plan :: "planner_input \<Rightarrow> string \<Rightarrow> planner_answer \<Rightarrow> plan" where
  "candidate_plan inp now answer =
     \<lparr>plan_id = pi_plan_id inp, plan_title = None, plan_created_at = now,
      plan_generated_by = Some (pi_provider inp), plan_spec_id = ns_id (ir_spec (pi_ir inp)),
      plan_spec_digest = ir_digest (pi_ir inp), plan_revision = pi_revision inp,
      plan_snapshot_digest = pi_snapshot_digest inp, plan_tasks = pa_tasks answer,
      plan_assumptions = Some (pa_assumptions answer), plan_followups = Some (pa_followups answer)\<rparr>"

record 'p generation =
  gen_result :: "'p option"
  gen_diagnostics :: "diagnostic list"
  gen_attempts :: nat

text \<open>
  The loop from attempt \<open>n\<close>, \<open>left\<close> attempts included; \<open>ask\<close> answers attempt \<open>n\<close> with a repair text,
  \<open>judge\<close> is the check of an answer: a result with its diagnostics, or the diagnostics to repair.
\<close>

fun repair_loop ::
  "(nat \<Rightarrow> string option \<Rightarrow> 'w \<Rightarrow> (string, 'a) result \<times> 'w) \<Rightarrow>
   (nat \<Rightarrow> 'a \<Rightarrow> (diagnostic list, 'p \<times> diagnostic list) result) \<Rightarrow>
   nat \<Rightarrow> nat \<Rightarrow> string option \<Rightarrow> 'w \<Rightarrow> (string, 'p generation) result \<times> 'w" where
  "repair_loop ask judge 0 n repair w = (Inl ''repair loop exited unexpectedly'', w)"
| "repair_loop ask judge (Suc left) n repair w =
     (case ask n repair w of
        (Inl thrown, w') \<Rightarrow> (Inl thrown, w')
      | (Inr answer, w') \<Rightarrow>
          (case judge n answer of
             Inr (p, diags) \<Rightarrow> (Inr \<lparr>gen_result = Some p, gen_diagnostics = diags, gen_attempts = n\<rparr>, w')
           | Inl diags \<Rightarrow>
               if left = 0 then (Inr \<lparr>gen_result = None, gen_diagnostics = diags, gen_attempts = n\<rparr>, w')
               else repair_loop ask judge left (n + 1) (Some (format_diagnostics diags None)) w'))"

definition judge_plan ::
  "planner_input \<Rightarrow> (nat \<Rightarrow> string) \<Rightarrow> nat \<Rightarrow> planner_answer \<Rightarrow> (diagnostic list, plan \<times> diagnostic list) result" where
  "judge_plan inp now n answer =
     (let normalized = normalize_plan (candidate_plan inp (now n) answer);
          diagnostics = validate_plan normalized (pi_ir inp) (pi_repo inp)
      in if \<not> has_errors diagnostics then Inr (normalized, diagnostics) else Inl diagnostics)"

definition generate_plan ::
  "planner_input \<Rightarrow> (nat \<Rightarrow> string) \<Rightarrow> (nat \<Rightarrow> string option \<Rightarrow> 'w \<Rightarrow> (string, planner_answer) result \<times> 'w) \<Rightarrow>
   'w \<Rightarrow> (string, plan generation) result \<times> 'w" where
  "generate_plan inp now ask w = repair_loop ask (judge_plan inp now) total_attempts 1 None w"

section \<open>Amendments\<close>

record replan_answer =
  ra_reason :: string
  ra_operations :: "amendment_operation list"

record replan_input =
  ri_ir :: spec_ir
  ri_repo :: "(string \<Rightarrow> bool) option"
  ri_plan :: plan
  ri_executed :: "string list"
  ri_observations :: "string list"
  ri_amendment_id :: string

definition answer_amendment :: "replan_input \<Rightarrow> string \<Rightarrow> replan_answer \<Rightarrow> plan_amendment" where
  "answer_amendment inp now answer =
     \<lparr>am_id = ri_amendment_id inp, am_plan_id = plan_id (ri_plan inp), am_reason = ra_reason answer,
      am_observation_refs = ri_observations inp, am_operations = ra_operations answer, am_created_at = now\<rparr>"

definition judge_amendment ::
  "replan_input \<Rightarrow> (nat \<Rightarrow> string) \<Rightarrow> nat \<Rightarrow> replan_answer \<Rightarrow>
   (diagnostic list, (plan_amendment \<times> plan) \<times> diagnostic list) result" where
  "judge_amendment inp now n answer =
     (let am = answer_amendment inp (now n) answer in
      case apply_plan_amendment (ri_plan inp) am (ri_executed inp) of
        (None, diags) \<Rightarrow> Inl diags
      | (Some p, _) \<Rightarrow>
          (let diags = validate_plan p (ri_ir inp) (ri_repo inp)
           in if has_errors diags then Inl diags else Inr ((am, p), diags)))"

definition generate_amendment ::
  "replan_input \<Rightarrow> (nat \<Rightarrow> string) \<Rightarrow> (nat \<Rightarrow> string option \<Rightarrow> 'w \<Rightarrow> (string, replan_answer) result \<times> 'w) \<Rightarrow>
   'w \<Rightarrow> (string, (plan_amendment \<times> plan) generation) result \<times> 'w" where
  "generate_amendment inp now ask w = repair_loop ask (judge_amendment inp now) total_attempts 1 None w"

section \<open>Properties\<close>

lemma repair_loop_result:
  assumes "repair_loop ask judge left n repair w = (Inr g, w')"
  shows "n \<le> gen_attempts g \<and> gen_attempts g < n + left \<and>
    (case gen_result g of
       Some p \<Rightarrow> \<exists>answer. judge (gen_attempts g) answer = Inr (p, gen_diagnostics g)
     | None \<Rightarrow> gen_attempts g + 1 = n + left \<and> (\<exists>answer. judge (gen_attempts g) answer = Inl (gen_diagnostics g)))"
  using assms
proof (induction ask judge left n repair w rule: repair_loop.induct)
  case (2 ask judge left n repair w)
  obtain r w1 where r: "ask n repair w = (r, w1)" by force
  with 2(2) obtain answer where a: "r = Inr answer" by (cases r) auto
  show ?case
  proof (cases "judge n answer")
    case (Inr x)
    with 2(2) r a show ?thesis by (cases x) auto
  next
    case (Inl ds)
    show ?thesis
    proof (cases "left = 0")
      case True
      with 2(2) r a Inl show ?thesis by auto
    next
      case False
      with 2(2) r a Inl 2(1) [OF r [symmetric] a Inl False] show ?thesis by (auto split: option.splits)
    qed
  qed
qed simp

lemma judge_plan_iff:
  "judge_plan inp now n answer = Inr (p, ds) \<longleftrightarrow>
     p = normalize_plan (candidate_plan inp (now n) answer) \<and> ds = validate_plan p (pi_ir inp) (pi_repo inp) \<and> \<not> has_errors ds"
  "judge_plan inp now n answer = Inl ds \<longleftrightarrow>
     ds = validate_plan (normalize_plan (candidate_plan inp (now n) answer)) (pi_ir inp) (pi_repo inp) \<and> has_errors ds"
  by (auto simp: judge_plan_def Let_def)

lemma judge_amendment_iff:
  "judge_amendment inp now n answer = Inr ((am, p), ds) \<longleftrightarrow>
     am = answer_amendment inp (now n) answer \<and> fst (apply_plan_amendment (ri_plan inp) am (ri_executed inp)) = Some p
     \<and> ds = validate_plan p (ri_ir inp) (ri_repo inp) \<and> \<not> has_errors ds"
  by (auto simp: judge_amendment_def Let_def split: prod.splits option.splits)

lemma plan_of_valid: "\<not> has_errors (validate_plan p ir repo) \<longleftrightarrow> validate_plan p ir repo = []"
  using validate_plan_all_errors [of _ p ir repo] by (cases "validate_plan p ir repo") (auto simp: has_errors_def)

text \<open>
  C40: plan generation asks at most three times; a plan it returns is in normal form, carries the
  identity of the specification, and validates without a diagnostic; without a plan the third
  answer was rejected and its errors are reported.
\<close>
theorem generated_plan_valid:
  assumes "generate_plan inp now ask w = (Inr g, w')"
  shows "1 \<le> gen_attempts g \<and> gen_attempts g \<le> 3 \<and>
    (case gen_result g of
       Some p \<Rightarrow> normalize_plan p = p \<and> validate_plan p (pi_ir inp) (pi_repo inp) = []
         \<and> plan_spec_digest p = ir_digest (pi_ir inp) \<and> gen_diagnostics g = []
     | None \<Rightarrow> gen_attempts g = 3 \<and> has_errors (gen_diagnostics g))"
  using repair_loop_result [OF assms [unfolded generate_plan_def]]
  by (cases "gen_result g")
     (auto simp: judge_plan_iff plan_of_valid normalize_plan_idem total_attempts_def max_repair_attempts_def
        normalize_plan_def candidate_plan_def)

definition free_task :: "string \<Rightarrow> string list \<Rightarrow> string list \<Rightarrow> task" where
  "free_task tid deps writes = (sample_task tid deps writes)\<lparr>task_satisfies := None\<rparr>"

definition sample_ir :: spec_ir where
  "sample_ir = \<lparr>ir_spec = \<lparr>ns_id = ''demo'', ns_title = ''Demo'', ns_description = None, ns_goal = ''ship it'',
     ns_imports = None, ns_required_secrets = None, ns_requirements = [], ns_constraints = [], ns_out_of_scope = []\<rparr>,
     ir_properties = [], ir_digest = ''sha256:0'', ir_imported_files = None\<rparr>"

definition sample_planner :: planner_input where
  "sample_planner = \<lparr>pi_ir = sample_ir, pi_repo = None, pi_plan_id = ''plan-1'', pi_provider = (''fake'', None),
     pi_revision = ''abc'', pi_snapshot_digest = ''sha256:1''\<rparr>"

text \<open>A model that declares an inspection with write targets, and repairs it when told.\<close>

definition sample_ask :: "nat \<Rightarrow> string option \<Rightarrow> unit \<Rightarrow> (string, planner_answer) result \<times> unit" where
  "sample_ask n repair w =
     (Inr \<lparr>pa_tasks = [(free_task ''T001'' [] (if repair = None then [''../x''] else [''a.ts'']))],
           pa_assumptions = [], pa_followups = []\<rparr>, w)"

theorem generated_plan_valid_witness:
  "\<exists>g. fst (generate_plan sample_planner (\<lambda>n. ''now'') sample_ask ()) = Inr g
     \<and> gen_attempts g = 2 \<and> (\<exists>p. gen_result g = Some p \<and> validate_plan p sample_ir None = [])"
proof -
  let ?r = "generate_plan sample_planner (\<lambda>n. ''now'') sample_ask ()"
  have "(case fst ?r of Inr g \<Rightarrow> gen_attempts g = 2 \<and> gen_result g \<noteq> None | Inl _ \<Rightarrow> False)" by code_simp
  then obtain g where g: "fst ?r = Inr g" "gen_attempts g = 2" "gen_result g \<noteq> None"
    by (auto split: sum.splits)
  then have "?r = (Inr g, snd ?r)" by (metis prod.collapse)
  from generated_plan_valid [OF this] g show ?thesis by (auto simp: sample_planner_def)
qed

text \<open>
  an amendment that generation returns was applied to the plan by the operations of the
  answer, its plan validates, and no task that had executed was removed, replaced or
  re-targeted; at most three answers are asked for.
\<close>
theorem generated_amendment_valid:
  assumes "generate_amendment inp now ask w = (Inr g, w')" "gen_result g = Some (am, p)"
  shows "fst (apply_plan_amendment (ri_plan inp) am (ri_executed inp)) = Some p
    \<and> validate_plan p (ri_ir inp) (ri_repo inp) = [] \<and> gen_attempts g \<le> 3
    \<and> (\<forall>op \<in> set (am_operations am). \<forall>tid \<in> set (ri_executed inp). \<not> touches op tid)"
proof -
  from repair_loop_result [OF assms(1) [unfolded generate_amendment_def]] assms(2)
  have a: "fst (apply_plan_amendment (ri_plan inp) am (ri_executed inp)) = Some p"
    "validate_plan p (ri_ir inp) (ri_repo inp) = []" "gen_attempts g \<le> 3"
    by (auto simp: judge_amendment_iff plan_of_valid total_attempts_def max_repair_attempts_def)
  have "\<not> touches op tid" if "op \<in> set (am_operations am)" "tid \<in> set (ri_executed inp)" for op tid
    using apply_operations_touch_refused [OF that(1) _ that(2), of "plan_tasks (ri_plan inp)" "[]"] a(1)
    by (auto simp: apply_plan_amendment_def split: prod.splits if_splits)
  with a show ?thesis by blast
qed

definition sample_replan :: replan_input where
  "sample_replan = \<lparr>ri_ir = sample_ir,  ri_repo = None,
     ri_plan = (sample_plan [free_task ''T001'' [] [''a.ts'']])\<lparr>plan_spec_id := ''demo'', plan_spec_digest := ''sha256:0''\<rparr>,
     ri_executed = [''T001''], ri_observations = [], ri_amendment_id = ''AM-001''\<rparr>"

theorem generated_amendment_valid_witness:
  "\<exists>g am p. fst (generate_amendment sample_replan (\<lambda>n. ''now'')
       (\<lambda>n repair w. (Inr \<lparr>ra_reason = ''r'', ra_operations = [AddTask (free_task ''T002'' [''T001''] [''b.ts''])]\<rparr>, w)) ()) = Inr g
     \<and> gen_result g = Some (am, p) \<and> validate_plan p sample_ir None = []"
proof -
  let ?r = "generate_amendment sample_replan (\<lambda>n. ''now'')
       (\<lambda>n repair w. (Inr \<lparr>ra_reason = ''r'', ra_operations = [AddTask (free_task ''T002'' [''T001''] [''b.ts''])]\<rparr>, w)) ()"
  have "(case fst ?r of Inr g \<Rightarrow> gen_result g \<noteq> None | Inl _ \<Rightarrow> False)" by code_simp
  then obtain g am p where g: "fst ?r = Inr g" "gen_result g = Some (am, p)"
    by (auto split: sum.splits)
  then have "?r = (Inr g, snd ?r)" by (metis prod.collapse)
  from generated_amendment_valid [OF this g(2)] g show ?thesis by (auto simp: sample_replan_def)
qed

text \<open>
  an amendment is of high risk exactly when a task it adds or puts in another's place
  declares high risk or names, as a path, a high-risk location among its write targets.
\<close>
theorem high_risk_exact:
  "fst (classify_amendment_risk am extra) = HighRiskAmendment \<longleftrightarrow>
     (\<exists>op \<in> set (am_operations am). \<exists>t. introduced_task op = Some t \<and>
        (task_risk t = Some High
         \<or> (\<exists>w \<in> set (write_targets t). \<exists>q \<in> set (default_high_risk_patterns @ extra). glob_match q w)))"
proof -
  have h: "high_reason ps t = None \<longleftrightarrow>
      \<not> (task_risk t = Some High \<or> (\<exists>w \<in> set (write_targets t). \<exists>q \<in> set ps. glob_match q w))" for ps t
    by (auto simp: high_reason_def find_None_iff glob_match_any_def list_ex_iff)
  have "List.map_filter (high_reason ps) (introduced_tasks am) = [] \<longleftrightarrow>
      \<not> (\<exists>op \<in> set (am_operations am). \<exists>t. introduced_task op = Some t \<and> high_reason ps t \<noteq> None)" for ps
    by (auto simp: introduced_tasks_def List.map_filter_def filter_empty_conv image_iff)
  then show ?thesis by (simp add: classify_amendment_risk_def Let_def h)
qed

text \<open>
  a wildcard write target escapes the high-risk tier, since the target is matched as if it
  were a path: a task that may write every manifest is of medium risk, and so is a change of
  targets to a manifest itself.
\<close>
theorem wildcard_escapes_high_risk:
  "fst (classify_amendment_risk (sample_amendment [AddTask (sample_task ''T009'' [] [''*.json''])]) []) = MediumRisk
   \<and> glob_match ''*.json'' ''package.json''
   \<and> fst (classify_amendment_risk (sample_amendment
        [ChangeTarget ''T001'' \<lparr>targets_read = None, targets_write = Some [''package.json'']\<rparr>]) []) = MediumRisk"
  by code_simp

end
