(* ===== verification/Regex.thy ===== *)
theory Regex
  imports Prelude
begin

text \<open>
  Regular expressions of the ECMAScript kind that the code uses: character sets, sequence,
  alternatives, repetition and the two anchors. Matching is by derivatives; it is proved
  equal to the declarative meaning, in which an expression denotes words in a context that
  tells whether the word begins at the start and ends at the end of the input.
\<close>

section \<open>Expressions and matching\<close>

datatype rx =
    RNone | REps | RSet "char \<Rightarrow> bool" | RSeq rx rx | RAlt rx rx | RStar rx | RBegin | REnd

fun nullable :: "bool \<Rightarrow> bool \<Rightarrow> rx \<Rightarrow> bool" where
  "nullable b e RNone = False"
| "nullable b e REps = True"
| "nullable b e (RSet P) = False"
| "nullable b e (RSeq r s) = (nullable b e r \<and> nullable b e s)"
| "nullable b e (RAlt r s) = (nullable b e r \<or> nullable b e s)"
| "nullable b e (RStar r) = True"
| "nullable b e RBegin = b"
| "nullable b e REnd = e"

text \<open>Constructors that drop what can match nothing, to keep derivatives small.\<close>

fun r_seq :: "rx \<Rightarrow> rx \<Rightarrow> rx" where
  "r_seq RNone s = RNone" | "r_seq REps s = s" | "r_seq r s = (if s = RNone then RNone else RSeq r s)"

fun r_alt :: "rx \<Rightarrow> rx \<Rightarrow> rx" where
  "r_alt RNone s = s" | "r_alt r s = (case s of RNone \<Rightarrow> r | _ \<Rightarrow> RAlt r s)"

fun deriv :: "bool \<Rightarrow> char \<Rightarrow> rx \<Rightarrow> rx" where
  "deriv b c RNone = RNone"
| "deriv b c REps = RNone"
| "deriv b c (RSet P) = (if P c then REps else RNone)"
| "deriv b c (RSeq r s) =
     (if nullable b False r then r_alt (r_seq (deriv b c r) s) (deriv b c s) else r_seq (deriv b c r) s)"
| "deriv b c (RAlt r s) = r_alt (deriv b c r) (deriv b c s)"
| "deriv b c (RStar r) = r_seq (deriv b c r) (RStar r)"
| "deriv b c RBegin = RNone"
| "deriv b c REnd = RNone"

fun rx_match :: "bool \<Rightarrow> rx \<Rightarrow> string \<Rightarrow> bool" where
  "rx_match b r [] = nullable b True r"
| "rx_match b r (c # s) = rx_match False (deriv b c r) s"

text \<open>\<open>re.test(s)\<close> finds a match anywhere.\<close>

definition any_char :: rx where "any_char = RSet (\<lambda>_. True)"

definition rx_test :: "rx \<Rightarrow> string \<Rightarrow> bool" where
  "rx_test r s = rx_match True (RSeq (RStar any_char) (RSeq r (RStar any_char))) s"

section \<open>Building expressions\<close>

definition r_char :: "char \<Rightarrow> rx" where "r_char c = RSet (\<lambda>d. d = c)"

fun r_cat :: "rx list \<Rightarrow> rx" where
  "r_cat [] = REps" | "r_cat [r] = r" | "r_cat (r # rs) = RSeq r (r_cat rs)"

fun r_alts :: "rx list \<Rightarrow> rx" where
  "r_alts [] = RNone" | "r_alts [r] = r" | "r_alts (r # rs) = RAlt r (r_alts rs)"

definition r_lit :: "string \<Rightarrow> rx" where "r_lit s = r_cat (map r_char s)"

definition r_opt :: "rx \<Rightarrow> rx" where "r_opt r = RAlt r REps"

definition r_plus :: "rx \<Rightarrow> rx" where "r_plus r = RSeq r (RStar r)"

section \<open>Meaning\<close>

inductive denotes :: "rx \<Rightarrow> bool \<Rightarrow> string \<Rightarrow> bool \<Rightarrow> bool" where
  den_eps: "denotes REps b [] e"
| den_set: "P c \<Longrightarrow> denotes (RSet P) b [c] e"
| den_seq: "denotes r b u (e \<and> v = []) \<Longrightarrow> denotes s (b \<and> u = []) v e \<Longrightarrow> denotes (RSeq r s) b (u @ v) e"
| den_alt1: "denotes r b u e \<Longrightarrow> denotes (RAlt r s) b u e"
| den_alt2: "denotes s b u e \<Longrightarrow> denotes (RAlt r s) b u e"
| den_star0: "denotes (RStar r) b [] e"
| den_star: "denotes r b u (e \<and> v = []) \<Longrightarrow> u \<noteq> [] \<Longrightarrow> denotes (RStar r) False v e \<Longrightarrow> denotes (RStar r) b (u @ v) e"
| den_begin: "denotes RBegin True [] e"
| den_end: "denotes REnd b [] True"

inductive_simps denotes_simps [simp]:
  "denotes RNone b w e" "denotes REps b w e" "denotes (RSet P) b w e" "denotes (RAlt r s) b w e"
  "denotes RBegin b w e" "denotes REnd b w e"

inductive_simps denotes_seq: "denotes (RSeq r s) b w e"
inductive_simps denotes_star: "denotes (RStar r) b w e"

lemma nullable_iff: "nullable b e r \<longleftrightarrow> denotes r b [] e"
  by (induction r) (auto simp: denotes_seq den_star0)

lemma denotes_seq_units:
  "\<not> denotes (RSeq RNone s) b w e" "\<not> denotes (RSeq r RNone) b w e"
  "denotes (RSeq REps s) b w e \<longleftrightarrow> denotes s b w e"
  by (simp_all add: denotes_seq)

lemma denotes_r_seq [simp]: "denotes (r_seq r s) b w e = denotes (RSeq r s) b w e"
  by (cases r; cases "s = RNone") (simp_all add: denotes_seq_units)

lemma denotes_r_alt [simp]: "denotes (r_alt r s) b w e = denotes (RAlt r s) b w e"
  by (cases r; cases s) auto

lemma denotes_seq_Cons:
  "denotes (RSeq r s) b (c # w) e \<longleftrightarrow>
     denotes r b [] False \<and> denotes s b (c # w) e
     \<or> (\<exists>u v. w = u @ v \<and> denotes r b (c # u) (e \<and> v = []) \<and> denotes s False v e)"
proof -
  have "denotes (RSeq r s) b (c # w) e \<longleftrightarrow>
      (\<exists>u v. c # w = u @ v \<and> denotes r b u (e \<and> v = []) \<and> denotes s (b \<and> u = []) v e)"
    by (simp add: denotes_seq)
  then show ?thesis unfolding Cons_eq_append_conv by fastforce
qed

lemma denotes_star_Cons:
  "denotes (RStar r) b (c # w) e \<longleftrightarrow>
     (\<exists>u v. w = u @ v \<and> denotes r b (c # u) (e \<and> v = []) \<and> denotes (RStar r) False v e)"
  by (subst denotes_star) (auto simp: Cons_eq_append_conv)

lemma denotes_deriv: "denotes (deriv b c r) False w e \<longleftrightarrow> denotes r b (c # w) e"
proof (induction r arbitrary: b w e)
  case (RSeq r s)
  have "denotes (RSeq (deriv b c r) s) False w e
      \<longleftrightarrow> (\<exists>u v. w = u @ v \<and> denotes r b (c # u) (e \<and> v = []) \<and> denotes s False v e)"
    by (auto simp: denotes_seq RSeq.IH(1))
  then show ?case by (auto simp: denotes_seq_Cons nullable_iff RSeq.IH(2))
next
  case (RStar r)
  have "denotes (RSeq (deriv b c r) (RStar r)) False w e
      \<longleftrightarrow> (\<exists>u v. w = u @ v \<and> denotes r b (c # u) (e \<and> v = []) \<and> denotes (RStar r) False v e)"
    by (auto simp: denotes_seq RStar.IH)
  then show ?case by (simp add: denotes_star_Cons)
qed auto

text \<open>The matcher decides the meaning.\<close>

lemma rx_match_iff: "rx_match b r w \<longleftrightarrow> denotes r b w True"
  by (induction w arbitrary: b r) (simp_all add: nullable_iff denotes_deriv)

lemma denotes_any_star: "denotes (RStar any_char) b w e"
proof (induction w arbitrary: b)
  case (Cons c w)
  have "denotes any_char b [c] (e \<and> w = [])" by (simp add: any_char_def)
  from den_star [OF this _ Cons.IH] show ?case by simp
qed (rule den_star0)

lemma rx_test_iff:
  "rx_test r s \<longleftrightarrow> (\<exists>u w v. s = u @ w @ v \<and> denotes r (u = []) w (v = []))"
  by (auto simp: rx_test_def rx_match_iff denotes_seq denotes_any_star)

lemma denotes_lit: "denotes (r_lit s) b w e \<longleftrightarrow> w = s"
proof -
  have "denotes (r_cat (map r_char s)) b w e \<longleftrightarrow> w = s" for b
  proof (induction s arbitrary: b w)
    case (Cons c s)
    then show ?case by (cases s) (auto simp: denotes_seq r_char_def)
  qed simp
  then show ?thesis by (simp add: r_lit_def)
qed

end
