(* ===== verification/Patch.thy ===== *)
theory Patch
  imports Glob
begin

text \<open>
  Staging of a change set, \<^verbatim>\<open>packages/executor/src/patch.ts\<close>, with the change operations of
  \<^verbatim>\<open>result.ts\<close>. The worktree is a function from paths to contents; \<open>sha\<close> is the hash function.
\<close>

section \<open>Occurrences of an anchor\<close>

text \<open>\<open>haystack.indexOf(needle, i)\<close>: an empty needle is found at \<open>min i length\<close>.\<close>

definition occurs_at :: "string \<Rightarrow> string \<Rightarrow> nat \<Rightarrow> bool" where
  "occurs_at hay needle i \<longleftrightarrow> i + length needle \<le> length hay \<and> take (length needle) (drop i hay) = needle"

definition index_from :: "string \<Rightarrow> string \<Rightarrow> nat \<Rightarrow> nat option" where
  "index_from hay needle i =
     (if needle = [] then Some (min i (length hay))
      else List.find (occurs_at hay needle) [i..<Suc (length hay)])"

text \<open>\<open>countOccurrences\<close>: overlapping; \<open>None\<close> is a loop that does not end.\<close>

definition count_occurrences :: "string \<Rightarrow> string \<Rightarrow> nat option" where
  "count_occurrences hay needle =
     map_option fst
       (while_option (\<lambda>(count, i). index_from hay needle i \<noteq> None)
          (\<lambda>(count, i). (count + 1, the (index_from hay needle i) + 1)) (0, 0))"

text \<open>
  \<open>base.replace(anchor, replacement)\<close> with a string anchor: the first occurrence is replaced,
  and the replacement text is a template in which dollar sequences are expanded.
\<close>

fun expand_template :: "string \<Rightarrow> string \<Rightarrow> string \<Rightarrow> string \<Rightarrow> string" where
  "expand_template pre mid post [] = []"
| "expand_template pre mid post [c] = [c]"
| "expand_template pre mid post (c # d # r) =
     (if c = CHR ''$'' \<and> d = CHR ''$'' then CHR ''$'' # expand_template pre mid post r
      else if c = CHR ''$'' \<and> d = CHR ''&'' then mid @ expand_template pre mid post r
      else if c = CHR ''$'' \<and> d = CHR 0x60 then pre @ expand_template pre mid post r
      else if c = CHR ''$'' \<and> d = CHR 0x27 then post @ expand_template pre mid post r
      else c # expand_template pre mid post (d # r))"

definition js_replace :: "string \<Rightarrow> string \<Rightarrow> string \<Rightarrow> string" where
  "js_replace base anchor replacement =
     (case index_from base anchor 0 of
        None \<Rightarrow> base
      | Some i \<Rightarrow>
          let pre = take i base; post = drop (i + length anchor) base
          in pre @ expand_template pre anchor post replacement @ post)"

section \<open>stageChanges\<close>

datatype change =
    CreateFile string string | UpdateFile string string
  | PatchFile (patch_path: string) (patch_digest: string) (patch_anchor: string) (patch_replacement: string)
  | DeleteFile string

fun change_path :: "change \<Rightarrow> string" where
  "change_path (CreateFile p _) = p" | "change_path (UpdateFile p _) = p"
| "change_path (PatchFile p _ _ _) = p" | "change_path (DeleteFile p) = p"

datatype write_label = Created | Modified | Patched

datatype stage_error =
    PatchBaseMissing string | PatchBaseMismatch string string string
  | PatchAnchorAbsent string string | PatchAnchorNotUnique string string nat

definition file_digest :: "(string \<Rightarrow> string) \<Rightarrow> string \<Rightarrow> string" where
  "file_digest sha content = ''sha256:'' @ sha content"

record stage =
  overlay :: "(string \<times> string) list"
  labels :: "(string \<times> write_label) list"
  deletes :: "string list"

definition empty_stage :: stage where
  "empty_stage = \<lparr>overlay = [], labels = [], deletes = []\<rparr>"

text \<open>One iteration; the outer \<open>option\<close> is whether the anchor count returns.\<close>

definition stage_change ::
  "(string \<Rightarrow> string) \<Rightarrow> (string \<Rightarrow> string option) \<Rightarrow> stage \<Rightarrow> change \<Rightarrow> (stage_error, stage) result option" where
  "stage_change sha worktree st c =
     (case c of
        DeleteFile p \<Rightarrow>
          Some (Inr (st\<lparr>overlay := map_delete p (overlay st), labels := map_delete p (labels st),
                        deletes := set_add p (deletes st)\<rparr>))
      | CreateFile p content \<Rightarrow>
          Some (Inr (st\<lparr>deletes := set_delete p (deletes st), overlay := map_set p content (overlay st),
                        labels := map_set p Created (labels st)\<rparr>))
      | UpdateFile p content \<Rightarrow>
          Some (Inr (st\<lparr>deletes := set_delete p (deletes st), overlay := map_set p content (overlay st),
                        labels := map_set p Modified (labels st)\<rparr>))
      | PatchFile p base_digest anchor replacement \<Rightarrow>
          (let st1 = st\<lparr>deletes := set_delete p (deletes st)\<rparr> in
           case (case map_of (overlay st1) p of Some content \<Rightarrow> Some content | None \<Rightarrow> worktree p) of
             None \<Rightarrow> Some (Inl (PatchBaseMissing p))
           | Some base \<Rightarrow>
               if file_digest sha base \<noteq> base_digest
               then Some (Inl (PatchBaseMismatch p (file_digest sha base) base_digest))
               else
                 (case count_occurrences base anchor of
                    None \<Rightarrow> None
                  | Some n \<Rightarrow>
                      if n = 0 then Some (Inl (PatchAnchorAbsent p anchor))
                      else if 1 < n then Some (Inl (PatchAnchorNotUnique p anchor n))
                      else
                        Some (Inr (st1\<lparr>overlay := map_set p (js_replace base anchor replacement) (overlay st1),
                                       labels := map_set p Patched (labels st1)\<rparr>)))))"

fun stage_all ::
  "(string \<Rightarrow> string) \<Rightarrow> (string \<Rightarrow> string option) \<Rightarrow> stage \<Rightarrow> change list \<Rightarrow> (stage_error, stage) result option" where
  "stage_all sha worktree st [] = Some (Inr st)"
| "stage_all sha worktree st (c # cs) =
     (case stage_change sha worktree st c of
        None \<Rightarrow> None
      | Some (Inl e) \<Rightarrow> Some (Inl e)
      | Some (Inr st') \<Rightarrow> stage_all sha worktree st' cs)"

record staged_write =
  sw_path :: string
  sw_content :: string
  sw_label :: write_label

record staged =
  staged_writes :: "staged_write list"
  staged_deletes :: "string list"

definition stage_changes ::
  "(string \<Rightarrow> string) \<Rightarrow> (string \<Rightarrow> string option) \<Rightarrow> change list \<Rightarrow> (stage_error, staged) result option" where
  "stage_changes sha worktree changes =
     map_option (\<lambda>r. bind_result r (\<lambda>st. Inr
       \<lparr>staged_writes = map (\<lambda>(p, content).
          \<lparr>sw_path = p, sw_content = content,
           sw_label = (case map_of (labels st) p of Some l \<Rightarrow> l | None \<Rightarrow> Modified)\<rparr>) (overlay st),
        staged_deletes = deletes st\<rparr>))
     (stage_all sha worktree empty_stage changes)"

section \<open>Counting returns, and counts\<close>

lemma index_from_Some:
  assumes "needle \<noteq> []"
  shows "index_from hay needle i = Some k \<longleftrightarrow>
    i \<le> k \<and> occurs_at hay needle k \<and> (\<forall>j. i \<le> j \<and> j < k \<longrightarrow> \<not> occurs_at hay needle j)"
proof -
  have "index_from hay needle i = Some k \<longleftrightarrow>
      (\<exists>n < Suc (length hay) - i. occurs_at hay needle (i + n) \<and> k = i + n \<and> (\<forall>m < n. \<not> occurs_at hay needle (i + m)))"
    using assms by (auto simp: index_from_def find_Some_iff simp del: upt_Suc)
  also have "\<dots> \<longleftrightarrow> i \<le> k \<and> occurs_at hay needle k \<and> (\<forall>j. i \<le> j \<and> j < k \<longrightarrow> \<not> occurs_at hay needle j)"
    (is "?l \<longleftrightarrow> ?r")
  proof
    assume ?r
    then have "k - i < Suc (length hay) - i" by (auto simp: occurs_at_def)
    with \<open>?r\<close> show ?l by (intro exI [of _ "k - i"]) auto
  next
    assume ?l
    then obtain n where n: "k = i + n" "occurs_at hay needle k" "\<forall>m < n. \<not> occurs_at hay needle (i + m)" by auto
    have "\<not> occurs_at hay needle j" if "i \<le> j" "j < k" for j
      using n(3) that n(1) by (auto dest: spec [of _ "j - i"])
    with n show ?r by auto
  qed
  finally show ?thesis .
qed

lemma index_from_None:
  assumes "needle \<noteq> []"
  shows "index_from hay needle i = None \<longleftrightarrow> (\<forall>k \<ge> i. \<not> occurs_at hay needle k)"
proof
  assume none: "index_from hay needle i = None"
  show "\<forall>k \<ge> i. \<not> occurs_at hay needle k"
  proof (rule ccontr)
    assume "\<not> (\<forall>k \<ge> i. \<not> occurs_at hay needle k)"
    then obtain k where "i \<le> k \<and> occurs_at hay needle k" "\<And>j. j < k \<Longrightarrow> \<not> (i \<le> j \<and> occurs_at hay needle j)"
      using exists_least_iff [of "\<lambda>k. i \<le> k \<and> occurs_at hay needle k"] by blast
    then have "index_from hay needle i = Some k" using index_from_Some [OF assms] by blast
    with none show False by simp
  qed
next
  assume "\<forall>k \<ge> i. \<not> occurs_at hay needle k"
  then show "index_from hay needle i = None"
    using index_from_Some [OF assms, of hay i] by (cases "index_from hay needle i") auto
qed

definition occurrences :: "string \<Rightarrow> string \<Rightarrow> nat set" where
  "occurrences hay needle = {i. occurs_at hay needle i}"

lemma finite_occurrences [simp]: "finite (occurrences hay needle)"
  by (rule finite_subset [of _ "{..length hay}"]) (auto simp: occurrences_def occurs_at_def)

text \<open>An empty anchor is found at every position: the loop never ends.\<close>

lemma count_empty_diverges: "count_occurrences hay [] = None"
proof -
  have "while_option (\<lambda>(count, i). index_from hay [] i \<noteq> None)
      (\<lambda>(count, i). (count + 1, the (index_from hay [] i) + 1)) s = None" for s :: "nat \<times> nat"
    using while_option_stop [of "\<lambda>(count, i). index_from hay [] i \<noteq> None"]
    by (cases "while_option (\<lambda>(count, i). index_from hay [] i \<noteq> None)
      (\<lambda>(count, i). (count + 1, the (index_from hay [] i) + 1)) s") (fastforce simp: index_from_def)+
  then show ?thesis by (simp add: count_occurrences_def)
qed

lemma count_occurrences_card:
  assumes "needle \<noteq> []"
  shows "count_occurrences hay needle = Some (card (occurrences hay needle))"
proof -
  let ?b = "\<lambda>(count :: nat, i :: nat). index_from hay needle i \<noteq> None"
  let ?c = "\<lambda>(count :: nat, i :: nat). (count + 1, the (index_from hay needle i) + 1)"
  let ?P = "\<lambda>(count, i). count = card (occurrences hay needle \<inter> {..<i})"
  have step: "?P (?c s) \<and> (case ?c s of (_, i') \<Rightarrow> case s of (_, i) \<Rightarrow> length hay + 1 - i' < length hay + 1 - i)"
    if P: "?P s" and b: "?b s" for s
  proof -
    obtain count i where s: "s = (count, i)" by force
    from b s obtain k where k: "index_from hay needle i = Some k" by auto
    then have k': "i \<le> k" "occurs_at hay needle k" "\<And>j. i \<le> j \<Longrightarrow> j < k \<Longrightarrow> \<not> occurs_at hay needle j"
      using index_from_Some [OF assms] by auto
    have "occurrences hay needle \<inter> {..<k + 1} = insert k (occurrences hay needle \<inter> {..<i})"
      using k' by (auto simp: occurrences_def) (meson linorder_neqE_nat not_less_eq leI)
    moreover have "k \<notin> occurrences hay needle \<inter> {..<i}" using k'(1) by simp
    moreover have "k < length hay + 1" using k'(2) by (simp add: occurs_at_def)
    ultimately show ?thesis using P s k k'(1) by auto
  qed
  have "\<exists>t. while_option ?b ?c (0, 0) = Some t"
    by (rule measure_while_option_Some [where P = ?P and f = "\<lambda>(count, i). length hay + 1 - i"])
      (use step in \<open>fastforce+\<close>)
  then obtain count i where t: "while_option ?b ?c (0, 0) = Some (count, i)" by auto
  have "?P (count, i)" by (rule while_option_rule [OF _ t]) (use step in auto)
  moreover have "occurrences hay needle \<inter> {..<i} = occurrences hay needle"
    using while_option_stop [OF t] index_from_None [OF assms] by (auto simp: occurrences_def) (metis leI)
  ultimately show ?thesis unfolding count_occurrences_def t by simp
qed

text \<open>
  the anchor count returns exactly for non-empty anchors, with the number of positions at
  which the anchor occurs, overlapping ones included.
\<close>
theorem anchor_count_exact:
  "count_occurrences hay needle = (if needle = [] then None else Some (card {i. occurs_at hay needle i}))"
  using count_empty_diverges count_occurrences_card by (simp add: occurrences_def)

section \<open>Staging implements the change set\<close>

text \<open>
  The reference: every change takes effect at once on the tree, a function from paths to
  contents, and a patch replaces its only occurrence by the literal replacement text.
\<close>

definition literal_replace :: "string \<Rightarrow> string \<Rightarrow> string \<Rightarrow> string" where
  "literal_replace base anchor replacement =
     (case index_from base anchor 0 of
        None \<Rightarrow> base | Some i \<Rightarrow> take i base @ replacement @ drop (i + length anchor) base)"

definition change_tree ::
  "(string \<Rightarrow> string) \<Rightarrow> (string \<Rightarrow> string option) \<Rightarrow> change \<Rightarrow> (stage_error, string \<Rightarrow> string option) result" where
  "change_tree sha tree c =
     (case c of
        DeleteFile p \<Rightarrow> Inr (tree(p := None))
      | CreateFile p content \<Rightarrow> Inr (tree(p \<mapsto> content))
      | UpdateFile p content \<Rightarrow> Inr (tree(p \<mapsto> content))
      | PatchFile p d a r \<Rightarrow>
          (case tree p of
             None \<Rightarrow> Inl (PatchBaseMissing p)
           | Some base \<Rightarrow>
               if file_digest sha base \<noteq> d then Inl (PatchBaseMismatch p (file_digest sha base) d)
               else if card {i. occurs_at base a i} = 0 then Inl (PatchAnchorAbsent p a)
               else if 1 < card {i. occurs_at base a i} then Inl (PatchAnchorNotUnique p a (card {i. occurs_at base a i}))
               else Inr (tree(p \<mapsto> literal_replace base a r))))"

fun change_trees ::
  "(string \<Rightarrow> string) \<Rightarrow> (string \<Rightarrow> string option) \<Rightarrow> change list \<Rightarrow> (stage_error, string \<Rightarrow> string option) result" where
  "change_trees sha tree [] = Inr tree"
| "change_trees sha tree (c # cs) = bind_result (change_tree sha tree c) (\<lambda>tree'. change_trees sha tree' cs)"

text \<open>The tree after the caller has written the writes and removed the deletes.\<close>

definition written :: "(string \<Rightarrow> string option) \<Rightarrow> staged \<Rightarrow> string \<Rightarrow> string option" where
  "written worktree s p =
     (if p \<in> set (staged_deletes s) then None
      else case map_of (map (\<lambda>w. (sw_path w, sw_content w)) (staged_writes s)) p of
        Some content \<Rightarrow> Some content | None \<Rightarrow> worktree p)"

text \<open>
  Changes the staging reads as documented: a non-empty anchor (the schema requires it), no
  dollar sign in a replacement, and no patch of a path deleted earlier in the set.
\<close>

fun plain_change :: "change \<Rightarrow> bool" where
  "plain_change (PatchFile p d a r) \<longleftrightarrow> a \<noteq> [] \<and> CHR ''$'' \<notin> set r"
| "plain_change _ \<longleftrightarrow> True"

fun deleted_by :: "change \<Rightarrow> string list \<Rightarrow> string list" where
  "deleted_by (DeleteFile p) ds = p # ds"
| "deleted_by c ds = filter (\<lambda>p. p \<noteq> change_path c) ds"

fun patches_deleted :: "string list \<Rightarrow> change list \<Rightarrow> bool" where
  "patches_deleted ds [] = False"
| "patches_deleted ds (c # cs) =
     ((case c of PatchFile p _ _ _ \<Rightarrow> p \<in> set ds | _ \<Rightarrow> False) \<or> patches_deleted (deleted_by c ds) cs)"

lemma expand_template_plain: "CHR ''$'' \<notin> set r \<Longrightarrow> expand_template pre mid post r = r"
  by (induction pre mid post r rule: expand_template.induct) auto

lemma js_replace_plain: "CHR ''$'' \<notin> set r \<Longrightarrow> js_replace base a r = literal_replace base a r"
  by (cases "index_from base a 0") (simp_all add: js_replace_def literal_replace_def expand_template_plain Let_def)

definition stage_tree :: "(string \<Rightarrow> string option) \<Rightarrow> stage \<Rightarrow> string \<Rightarrow> string option" where
  "stage_tree worktree st p =
     (if p \<in> set (deletes st) then None
      else case map_of (overlay st) p of Some content \<Rightarrow> Some content | None \<Rightarrow> worktree p)"

definition stage_inv :: "stage \<Rightarrow> bool" where
  "stage_inv st \<longleftrightarrow> distinct (map fst (overlay st)) \<and> distinct (deletes st)
     \<and> (\<forall>p \<in> set (deletes st). map_of (overlay st) p = None) \<and> map fst (labels st) = map fst (overlay st)"

lemma stage_inv_steps:
  assumes "stage_inv st"
  shows "stage_inv (st\<lparr>deletes := set_delete p (deletes st), overlay := map_set p content (overlay st),
            labels := map_set p l (labels st)\<rparr>)" (is ?A)
    and "stage_inv (st\<lparr>overlay := map_delete p (overlay st), labels := map_delete p (labels st),
            deletes := set_add p (deletes st)\<rparr>)" (is ?B)
proof -
  have keys: "map fst (map_delete p kvs) = filter (\<lambda>k. k \<noteq> p) (map fst kvs)" for kvs :: "(string \<times> 'b) list"
    by (induction kvs) (auto simp: map_delete_def)
  show ?A using assms unfolding stage_inv_def
    by (auto simp: map_set_distinct set_ops_distinct map_set_keys simp flip: set_map)
  show ?B using assms unfolding stage_inv_def
    by (auto simp: map_delete_distinct set_ops_distinct keys)
qed

lemma stage_tree_steps:
  "stage_tree wt (st\<lparr>deletes := set_delete p (deletes st), overlay := map_set p content (overlay st),
      labels := map_set p l (labels st)\<rparr>) = (stage_tree wt st)(p \<mapsto> content)"
  "stage_tree wt (st\<lparr>overlay := map_delete p (overlay st), labels := map_delete p (labels st),
      deletes := set_add p (deletes st)\<rparr>) = (stage_tree wt st)(p := None)"
  by (auto simp: stage_tree_def fun_eq_iff)

lemma anchor_count_alt: "a \<noteq> [] \<Longrightarrow> count_occurrences base a = Some (card {i. occurs_at base a i})"
  using count_occurrences_card by (simp add: occurrences_def)

lemma stage_change_plain:
  assumes "stage_inv st" "plain_change c" "case c of PatchFile p _ _ _ \<Rightarrow> p \<notin> set (deletes st) | _ \<Rightarrow> True"
  shows "\<exists>r. stage_change sha wt st c = Some r \<and>
    (case r of
       Inl e \<Rightarrow> change_tree sha (stage_tree wt st) c = Inl e
     | Inr st' \<Rightarrow> change_tree sha (stage_tree wt st) c = Inr (stage_tree wt st') \<and> stage_inv st')"
proof (cases c)
  case (PatchFile p d a r)
  then have base: "(case map_of (overlay st) p of Some content \<Rightarrow> Some content | None \<Rightarrow> wt p) = stage_tree wt st p"
    and ar: "a \<noteq> []" "CHR ''$'' \<notin> set r"
    using assms by (auto simp: stage_tree_def)
  show ?thesis
  proof (cases "stage_tree wt st p")
    case None
    then show ?thesis by (simp add: PatchFile stage_change_def change_tree_def base)
  next
    case (Some base)
    then show ?thesis
      using ar stage_inv_steps(1) [OF assms(1)]
      by (simp add: PatchFile stage_change_def change_tree_def base \<open>stage_tree wt st p = Some base\<close>
          anchor_count_alt stage_tree_steps js_replace_plain Let_def)
  qed
qed (use stage_inv_steps [OF assms(1)] in
      \<open>simp_all add: stage_change_def change_tree_def stage_tree_steps\<close>)

lemma stage_change_deletes:
  assumes "stage_change sha wt st c = Some (Inr st')" "set ds = set (deletes st)"
  shows "set (deleted_by c ds) = set (deletes st')"
proof (cases c)
  case (PatchFile p d a r)
  from assms(1) have "deletes st' = set_delete p (deletes st)"
    unfolding stage_change_def PatchFile change.case Let_def
    by (auto split: option.split_asm if_split_asm)
  then show ?thesis using assms(2) by (auto simp: PatchFile)
next
  case (DeleteFile p)
  with assms(1) have "deletes st' = set_add p (deletes st)" by (auto simp: stage_change_def)
  then show ?thesis using assms(2) by (simp add: DeleteFile)
next
  case (CreateFile p content)
  with assms(1) have "deletes st' = set_delete p (deletes st)" by (auto simp: stage_change_def)
  then show ?thesis using assms(2) by (auto simp: CreateFile)
next
  case (UpdateFile p content)
  with assms(1) have "deletes st' = set_delete p (deletes st)" by (auto simp: stage_change_def)
  then show ?thesis using assms(2) by (auto simp: UpdateFile)
qed

lemma stage_all_plain:
  "stage_inv st \<Longrightarrow> list_all plain_change cs \<Longrightarrow> \<not> patches_deleted ds cs \<Longrightarrow> set ds = set (deletes st) \<Longrightarrow>
   \<exists>r. stage_all sha wt st cs = Some r \<and>
    (case r of
       Inl e \<Rightarrow> change_trees sha (stage_tree wt st) cs = Inl e
     | Inr st' \<Rightarrow> change_trees sha (stage_tree wt st) cs = Inr (stage_tree wt st') \<and> stage_inv st')"
proof (induction cs arbitrary: st ds)
  case (Cons c cs)
  have "case c of PatchFile p _ _ _ \<Rightarrow> p \<notin> set (deletes st) | _ \<Rightarrow> True"
    using Cons.prems(3,4) by (auto split: change.splits)
  then obtain r where r: "stage_change sha wt st c = Some r"
    and sim: "case r of Inl e \<Rightarrow> change_tree sha (stage_tree wt st) c = Inl e
     | Inr st' \<Rightarrow> change_tree sha (stage_tree wt st) c = Inr (stage_tree wt st') \<and> stage_inv st'"
    using stage_change_plain Cons.prems(1,2) by fastforce
  show ?case
  proof (cases r)
    case (Inl e)
    then show ?thesis using r sim by (simp add: bind_result_def)
  next
    case (Inr st1)
    with sim have inv: "stage_inv st1"
      and tree: "change_tree sha (stage_tree wt st) c = Inr (stage_tree wt st1)" by simp_all
    have "set (deleted_by c ds) = set (deletes st1)"
      using stage_change_deletes [of sha wt st c st1] r Inr Cons.prems(4) by simp
    from Cons.IH [OF inv _ _ this] Cons.prems(2,3) have "\<exists>r. stage_all sha wt st1 cs = Some r \<and>
      (case r of
         Inl e \<Rightarrow> change_trees sha (stage_tree wt st1) cs = Inl e
       | Inr st' \<Rightarrow> change_trees sha (stage_tree wt st1) cs = Inr (stage_tree wt st') \<and> stage_inv st')"
      by simp
    moreover have "change_trees sha (stage_tree wt st) (c # cs) = change_trees sha (stage_tree wt st1) cs"
      by (simp add: tree bind_result_def)
    moreover have "stage_all sha wt st (c # cs) = stage_all sha wt st1 cs" by (simp add: r Inr)
    ultimately show ?thesis by (simp only:)
  qed
qed simp

lemma written_stage:
  "written wt \<lparr>staged_writes = map (\<lambda>(p, content).
      \<lparr>sw_path = p, sw_content = content, sw_label = l p\<rparr>) (overlay st), staged_deletes = deletes st\<rparr>
   = stage_tree wt st"
proof -
  have "map (\<lambda>w. (sw_path w, sw_content w)) (map (\<lambda>(p, content).
      \<lparr>sw_path = p, sw_content = content, sw_label = l p\<rparr>) kvs) = kvs" for kvs
    by (induction kvs) auto
  then show ?thesis unfolding written_def stage_tree_def staged.simps fun_eq_iff by simp
qed

lemma staging_direct:
  assumes "list_all plain_change cs" "\<not> patches_deleted [] cs"
  shows "\<exists>r. stage_changes sha wt cs = Some r \<and>
    (case r of
       Inl e \<Rightarrow> change_trees sha wt cs = Inl e
     | Inr s \<Rightarrow> change_trees sha wt cs = Inr (written wt s)
         \<and> distinct (map sw_path (staged_writes s) @ staged_deletes s))"
proof -
  have init: "stage_inv empty_stage" "stage_tree wt empty_stage = wt" "set [] = set (deletes empty_stage)"
    by (simp_all add: stage_inv_def empty_stage_def stage_tree_def fun_eq_iff)
  obtain r where r: "stage_all sha wt empty_stage cs = Some r"
    and sim: "case r of Inl e \<Rightarrow> change_trees sha wt cs = Inl e
      | Inr st \<Rightarrow> change_trees sha wt cs = Inr (stage_tree wt st) \<and> stage_inv st"
    using stage_all_plain [OF init(1) assms init(3), of sha wt] unfolding init(2) by blast
  have paths: "map sw_path (map (\<lambda>(p, content). \<lparr>sw_path = p, sw_content = content, sw_label = l p\<rparr>) kvs) = map fst kvs"
    for l and kvs :: "(string \<times> string) list" by (induction kvs) auto
  have "distinct (map fst (overlay st) @ deletes st)" if "stage_inv st" for st
    using that by (auto simp: stage_inv_def map_of_eq_None_iff)
  with r sim show ?thesis
    by (cases r) (simp_all add: stage_changes_def written_stage bind_result_def paths del: distinct_append map_map)
qed


definition sample_tree :: "string \<Rightarrow> string option" where
  "sample_tree p = (if p = ''a.ts'' then Some ''let x = 1'' else None)"


text \<open>
  what the schema calls the exact replacement is a template: a replacement with dollar
  sequences is expanded, so the staged content differs from the literal replacement although
  the anchor is unique and the digest right.
\<close>
theorem staging_expands_dollars:
  "stage_changes (\<lambda>s. s) (\<lambda>p. Some ''a=X;'') [PatchFile ''f'' ''sha256:a=X;'' ''X'' ''$$1$&'']
   = Some (Inr \<lparr>staged_writes = [\<lparr>sw_path = ''f'', sw_content = ''a=$1X;'', sw_label = Patched\<rparr>], staged_deletes = []\<rparr>)
   \<and> literal_replace ''a=X;'' ''X'' ''$$1$&'' = ''a=$$1$&;''"
  by code_simp

text \<open>
  a patch that follows a delete of the same path in one set reads the file of the worktree
  as if it had not been deleted, and the delete is lost.
\<close>
theorem staging_patch_undeletes:
  "stage_changes (\<lambda>s. s) (\<lambda>p. Some ''old'') [DeleteFile ''f'', PatchFile ''f'' ''sha256:old'' ''old'' ''new'']
   = Some (Inr \<lparr>staged_writes = [\<lparr>sw_path = ''f'', sw_content = ''new'', sw_label = Patched\<rparr>], staged_deletes = []\<rparr>)
   \<and> (case change_trees (\<lambda>s. s) (\<lambda>p. Some ''old'') [DeleteFile ''f'', PatchFile ''f'' ''sha256:old'' ''old'' ''new''] of
       Inl e \<Rightarrow> e = PatchBaseMissing ''f'' | Inr _ \<Rightarrow> False)"
  by (rule conjI, code_simp, simp add: change_tree_def bind_result_def)

end
