(* ===== verification/Json.thy ===== *)
theory Json
  imports Canonical
begin

text \<open>
  \<open>JSON.parse\<close>, the inverse of the \<open>stringify\<close> of Canonical, as the stores of the runtime use it
  on their own lines. Integers only: a number with a fraction or an exponent is refused, as is
  an escaped code unit above 255. The main fact is the round trip on values as the engine
  holds them, with distinct keys in enumeration order.
\<close>

section \<open>The parser\<close>

definition json_space :: "char \<Rightarrow> bool" where
  "json_space c \<longleftrightarrow> c \<in> {CHR '' '', CHR 0x09, CHR 0x0A, CHR 0x0D}"

definition skip_ws :: "string \<Rightarrow> string" where
  "skip_ws s = dropWhile json_space s"

definition is_hex :: "char \<Rightarrow> bool" where
  "is_hex c \<longleftrightarrow> is_digit c \<or> (CHR ''a'' \<le> c \<and> c \<le> CHR ''f'') \<or> (CHR ''A'' \<le> c \<and> c \<le> CHR ''F'')"

definition hex_digit_val :: "char \<Rightarrow> nat" where
  "hex_digit_val c = (let n = of_char c in if n < 58 then n - 48 else if n < 71 then n - 55 else n - 87)"

text \<open>The rest of an escape sequence, after the backslash.\<close>

definition read_escape :: "string \<Rightarrow> (char \<times> string) option" where
  "read_escape s =
     (case s of
        [] \<Rightarrow> None
      | e # r \<Rightarrow>
          if e \<in> {CHR 0x22, CHR 0x5C, CHR ''/''} then Some (e, r)
          else if e = CHR ''b'' then Some (CHR 0x08, r)
          else if e = CHR ''f'' then Some (CHR 0x0C, r)
          else if e = CHR ''n'' then Some (CHR 0x0A, r)
          else if e = CHR ''r'' then Some (CHR 0x0D, r)
          else if e = CHR ''t'' then Some (CHR 0x09, r)
          else if e = CHR ''u'' \<and> 4 \<le> length r \<and> list_all is_hex (take 4 r) \<and> take 2 r = ''00''
          then Some (char_of (16 * hex_digit_val (r ! 2) + hex_digit_val (r ! 3)), drop 4 r)
          else None)"

lemma read_escape_length: "read_escape s = Some (c, r) \<Longrightarrow> length r < length s"
  by (auto simp: read_escape_def split: list.splits if_splits)

function parse_string :: "string \<Rightarrow> (string \<times> string) option" where
  "parse_string s =
     (case s of
        [] \<Rightarrow> None
      | c # r \<Rightarrow>
          if c = CHR 0x22 then Some ([], r)
          else if c = CHR 0x5C then
            (case read_escape r of
               None \<Rightarrow> None
             | Some (x, r') \<Rightarrow> map_option (\<lambda>(t, u). (x # t, u)) (parse_string r'))
          else if c < CHR 0x20 then None
          else map_option (\<lambda>(t, u). (c # t, u)) (parse_string r))"
  by pat_completeness auto
termination
  by (relation "measure length") (auto dest!: read_escape_length)

declare parse_string.simps [simp del]

definition parse_number :: "string \<Rightarrow> (json \<times> string) option" where
  "parse_number s =
     (let neg = (case s of c # _ \<Rightarrow> c = CHR ''-'' | [] \<Rightarrow> False);
          t = (if neg then tl s else s);
          ds = takeWhile is_digit t;
          r = dropWhile is_digit t
      in if ds = [] \<or> (hd ds = CHR ''0'' \<and> 1 < length ds) then None
         else if (case r of c # _ \<Rightarrow> c \<in> {CHR ''.'', CHR ''e'', CHR ''E''} | [] \<Rightarrow> False) then None
         else Some (JNum (if neg then - int (read_nat ds) else int (read_nat ds)), r))"

definition literal :: "string \<Rightarrow> json \<Rightarrow> string \<Rightarrow> (json \<times> string) option" where
  "literal w j s = (if take (length w) s = w then Some (j, drop (length w) s) else None)"

text \<open>A repeated key keeps its place and takes the last value; integer keys come first.\<close>

fun assign_field :: "(string \<times> json) list \<Rightarrow> string \<times> json \<Rightarrow> (string \<times> json) list" where
  "assign_field [] f = [f]"
| "assign_field (g # gs) f = (if fst g = fst f then f # gs else g # assign_field gs f)"

definition object_from :: "(string \<times> json) list \<Rightarrow> json" where
  "object_from fs = JObject (own_key_order (foldl assign_field [] fs))"

fun parse_value :: "nat \<Rightarrow> string \<Rightarrow> (json \<times> string) option"
  and parse_items :: "nat \<Rightarrow> string \<Rightarrow> (json list \<times> string) option"
  and parse_members :: "nat \<Rightarrow> string \<Rightarrow> ((string \<times> json) list \<times> string) option" where
  "parse_value 0 s = None"
| "parse_value (Suc n) s =
     (case skip_ws s of
        [] \<Rightarrow> None
      | c # r \<Rightarrow>
          if c = CHR ''n'' then literal ''null'' JNull (c # r)
          else if c = CHR ''t'' then literal ''true'' (JBool True) (c # r)
          else if c = CHR ''f'' then literal ''false'' (JBool False) (c # r)
          else if c = CHR 0x22 then map_option (\<lambda>(t, u). (JString t, u)) (parse_string r)
          else if c = CHR ''['' then
            (case skip_ws r of
               [] \<Rightarrow> None
             | d # r' \<Rightarrow> if d = CHR '']'' then Some (JArray [], r')
                 else map_option (\<lambda>(js, u). (JArray js, u)) (parse_items n r))
          else if c = CHR ''{'' then
            (case skip_ws r of
               [] \<Rightarrow> None
             | d # r' \<Rightarrow> if d = CHR ''}'' then Some (JObject [], r')
                 else map_option (\<lambda>(fs, u). (object_from fs, u)) (parse_members n r))
          else parse_number (c # r))"
| "parse_items 0 s = None"
| "parse_items (Suc n) s =
     (case parse_value n s of
        None \<Rightarrow> None
      | Some (j, r) \<Rightarrow>
          (case skip_ws r of
             [] \<Rightarrow> None
           | c # r' \<Rightarrow>
               if c = CHR '']'' then Some ([j], r')
               else if c = CHR '','' then map_option (\<lambda>(js, u). (j # js, u)) (parse_items n r')
               else None))"
| "parse_members 0 s = None"
| "parse_members (Suc n) s =
     (case skip_ws s of
        [] \<Rightarrow> None
      | q # r \<Rightarrow>
          if q \<noteq> CHR 0x22 then None
          else
            (case parse_string r of
               None \<Rightarrow> None
             | Some (k, r1) \<Rightarrow>
                 (case skip_ws r1 of
                    [] \<Rightarrow> None
                  | c # r2 \<Rightarrow>
                      if c \<noteq> CHR '':'' then None
                      else
                        (case parse_value n r2 of
                           None \<Rightarrow> None
                         | Some (j, r3) \<Rightarrow>
                             (case skip_ws r3 of
                                [] \<Rightarrow> None
                              | d # r4 \<Rightarrow>
                                  if d = CHR ''}'' then Some ([(k, j)], r4)
                                  else if d = CHR '','' then
                                    map_option (\<lambda>(fs, u). ((k, j) # fs, u)) (parse_members n r4)
                                  else None)))))"

text \<open>\<open>JSON.parse(s)\<close>; \<open>None\<close> is the \<open>SyntaxError\<close>.\<close>

definition json_parse :: "string \<Rightarrow> json option" where
  "json_parse s =
     (case parse_value (2 * length s + 2) s of
        Some (j, r) \<Rightarrow> if skip_ws r = [] then Some j else None
      | None \<Rightarrow> None)"

section \<open>Round trip\<close>

fun wf_json :: "json \<Rightarrow> bool" where
  "wf_json (JArray js) = list_all wf_json js"
| "wf_json (JObject fs) =
     (distinct (map fst fs) \<and> own_key_order fs = fs \<and> list_all (\<lambda>f. wf_json (snd f)) fs)"
| "wf_json j = True"

lemma hex_digit_facts:
  "d < 16 \<Longrightarrow> is_hex (hex_digit d)" "d < 16 \<Longrightarrow> hex_digit_val (hex_digit d) = d"
  by (simp_all add: is_hex_def hex_digit_def is_digit_def hex_digit_val_def less_eq_char_def)

lemma read_escape_u:
  assumes "is_hex a" "is_hex b"
  shows "read_escape (CHR ''u'' # CHR ''0'' # CHR ''0'' # a # b # s)
    = Some (char_of (16 * hex_digit_val a + hex_digit_val b), s)"
proof -
  have "is_hex CHR ''0''" by (simp add: is_hex_def is_digit_def less_eq_char_def)
  moreover have "take 4 (CHR ''0'' # CHR ''0'' # a # b # s) = [CHR ''0'', CHR ''0'', a, b]"
    "take 2 (CHR ''0'' # CHR ''0'' # a # b # s) = ''00''"
    "drop 4 (CHR ''0'' # CHR ''0'' # a # b # s) = s"
    "(CHR ''0'' # CHR ''0'' # a # b # s) ! 2 = a" "(CHR ''0'' # CHR ''0'' # a # b # s) ! 3 = b"
    by (simp_all add: numeral_2_eq_2 numeral_3_eq_3 eval_nat_numeral)
  ultimately show ?thesis using assms by (simp add: read_escape_def)
qed

lemma parse_string_escape:
  "parse_string (escape_char c @ s) = map_option (\<lambda>(t, u). (c # t, u)) (parse_string s)"
proof (cases "c < CHR 0x20 \<and> c \<notin> {CHR 0x08, CHR 0x09, CHR 0x0A, CHR 0x0C, CHR 0x0D, CHR 0x22, CHR 0x5C}")
  case True
  then have e: "escape_char c = [CHR 0x5C, CHR ''u'', CHR ''0'', CHR ''0'', hex_digit (of_char c div 16), hex_digit (of_char c mod 16)]"
    by (simp add: escape_char_def)
  have "(of_char c :: nat) < 32" using True by (simp add: less_0x20)
  then have d: "(of_char c :: nat) div 16 < 16" "(of_char c :: nat) mod 16 < 16" by arith+
  have "read_escape (tl (escape_char c) @ s) = Some (c, s)"
    using hex_digit_facts d unfolding e by (simp add: read_escape_u)
  then show ?thesis unfolding e by (subst parse_string.simps) simp
next
  case False
  show ?thesis
  proof (cases "c \<in> {CHR 0x08, CHR 0x09, CHR 0x0A, CHR 0x0C, CHR 0x0D, CHR 0x22, CHR 0x5C}")
    case True
    then show ?thesis by (subst parse_string.simps) (auto simp: escape_char_def read_escape_def)
  next
    case plain: False
    with False have "escape_char c = [c]" "\<not> c < CHR 0x20" "c \<noteq> CHR 0x22" "c \<noteq> CHR 0x5C"
      by (auto simp: escape_char_def)
    then show ?thesis by (subst parse_string.simps) simp
  qed
qed

lemma parse_string_quote: "parse_string (concat (map escape_char s) @ CHR 0x22 # r) = Some (s, r)"
proof (induction s)
  case Nil
  then show ?case by (simp add: parse_string.simps)
next
  case (Cons c s)
  then show ?case by (simp add: parse_string_escape)
qed

lemma digit_zero: "n < 10 \<Longrightarrow> digit n = CHR ''0'' \<longleftrightarrow> n = 0"
proof -
  assume "n < 10"
  then have "(of_char (digit n) :: nat) = 48 + n" by (simp add: digit_def)
  moreover have "(of_char CHR ''0'' :: nat) = 48" by simp
  ultimately show ?thesis by (metis add_cancel_right_right of_char_eq_iff)
qed

lemma show_nat_hd: "hd (show_nat n) = CHR ''0'' \<longleftrightarrow> n = 0"
proof (induction n rule: show_nat.induct)
  case (1 n)
  show ?case
  proof (cases "n < 10")
    case True
    then have "digit n = CHR ''0'' \<longleftrightarrow> n = 0" by (rule digit_zero)
    with True show ?thesis by (simp add: show_nat.simps [of n])
  next
    case False
    with 1 show ?thesis by (simp add: show_nat.simps [of n])
  qed
qed

lemma show_nat_0: "show_nat 0 = ''0''"
  by (simp add: show_nat.simps digit_zero)

lemma takeWhile_show_nat:
  "\<not> (\<exists>c t. r = c # t \<and> is_digit c) \<Longrightarrow> takeWhile is_digit (show_nat n @ r) = show_nat n \<and> dropWhile is_digit (show_nat n @ r) = r"
  using show_nat_digits by (cases r) (auto simp: takeWhile_append dropWhile_append)

lemma parse_number_show_int: "delimited r \<Longrightarrow> parse_number (show_int i @ r) = Some (JNum i, r)"
proof -
  assume r: "delimited r"
  then have nd: "\<not> (\<exists>c t. r = c # t \<and> is_digit c)"
    by (auto simp: delimited_def is_digit_def less_eq_char_def)
  have rest: "\<not> (case r of c # _ \<Rightarrow> c \<in> {CHR ''.'', CHR ''e'', CHR ''E''} | [] \<Rightarrow> False)"
    using r by (auto simp: delimited_def split: list.splits)
  have lead: "\<not> (hd (show_nat n) = CHR ''0'' \<and> 1 < length (show_nat n))" for n
    by (auto simp: show_nat_hd show_nat_0)
  have first: "\<not> (case show_nat n @ r of c # _ \<Rightarrow> c = CHR ''-'' | [] \<Rightarrow> False)" for n
    using show_nat_no_minus [of n] by (cases "show_nat n") auto
  show ?thesis
  proof (cases "i < 0")
    case True
    then have "show_int i = CHR ''-'' # show_nat (nat (- i))" by (simp add: show_int_def)
    then show ?thesis using True takeWhile_show_nat [OF nd, of "nat (- i)"] rest lead [of "nat (- i)"]
      by (simp add: parse_number_def Let_def)
  next
    case False
    then have "show_int i = show_nat (nat i)" by (simp add: show_int_def)
    then show ?thesis using False takeWhile_show_nat [OF nd, of "nat i"] rest lead [of "nat i"] first [of "nat i"]
      by (simp add: parse_number_def Let_def)
  qed
qed

lemma foldl_assign_field: "distinct (map fst (acc @ fs)) \<Longrightarrow> foldl assign_field acc fs = acc @ fs"
proof (induction fs arbitrary: acc)
  case (Cons f fs)
  have "fst f \<notin> fst ` set acc \<Longrightarrow> assign_field acc f = acc @ [f]" for acc
    by (induction acc) auto
  with Cons show ?case by auto
qed simp

lemma skip_ws_stringify [simp]: "skip_ws (stringify j @ r) = stringify j @ r"
proof -
  obtain c s where "stringify j = c # s" "first_char j c" using stringify_first by blast
  then show ?thesis
    by (cases j) (auto simp: skip_ws_def json_space_def first_char_def number_char_def is_digit_def less_eq_char_def)
qed

lemma skip_ws_simps [simp]:
  "skip_ws [] = []"
  "c \<notin> {CHR '' '', CHR 0x09, CHR 0x0A, CHR 0x0D} \<Longrightarrow> skip_ws (c # s) = c # s"
  by (simp_all add: skip_ws_def json_space_def)

lemma literal_simps [simp]:
  "literal ''null'' j (''null'' @ r) = Some (j, r)" "literal ''true'' j (''true'' @ r) = Some (j, r)"
  "literal ''false'' j (''false'' @ r) = Some (j, r)"
  by (simp_all add: literal_def)

lemma parse_value_number:
  "delimited r \<Longrightarrow> parse_value (Suc n) (show_int i @ r) = Some (JNum i, r)"
proof -
  assume r: "delimited r"
  obtain c s where c: "show_int i = c # s" "number_char c"
    using stringify_first [of "JNum i"] by (auto simp: first_char_def)
  then have "skip_ws (show_int i @ r) = c # s @ r"
    by (auto simp: skip_ws_def json_space_def number_char_def is_digit_def less_eq_char_def)
  moreover have "c \<notin> {CHR ''n'', CHR ''t'', CHR ''f'', CHR 0x22, CHR ''['', CHR ''{''}"
    using c(2) by (auto simp: number_char_def is_digit_def less_eq_char_def)
  ultimately show ?thesis using parse_number_show_int [OF r, of i] c(1) by simp
qed

lemma skip_ws_fields: "skip_ws (stringify_fields fs @ r) = stringify_fields fs @ r"
proof (cases fs)
  case (Cons f gs)
  then show ?thesis by (cases f) (simp add: stringify_fields_Cons quote_def del: stringify_fields.simps(2,3))
qed simp

lemma parse_stringify:
  "wf_json j \<Longrightarrow> delimited r \<Longrightarrow> 2 * length (stringify j) \<le> n \<Longrightarrow> parse_value (Suc n) (stringify j @ r) = Some (j, r)"
  "list_all wf_json js \<Longrightarrow> js \<noteq> [] \<Longrightarrow> 2 * length (stringify_items js) \<le> n \<Longrightarrow>
     parse_items (Suc n) (stringify_items js @ r) = Some (js, r)"
  "list_all (\<lambda>f. wf_json (snd f)) fs \<Longrightarrow> fs \<noteq> [] \<Longrightarrow> 2 * length (stringify_fields fs) \<le> n \<Longrightarrow>
     parse_members (Suc n) (stringify_fields fs @ r) = Some (fs, r)"
proof (induction j and js and fs arbitrary: n r and n r and n r rule: stringify_stringify_items_stringify_fields.induct)
  case (3 i)
  then show ?case using parse_value_number by simp
next
  case (4 s)
  then show ?case by (simp add: quote_def parse_string_quote)
next
  case (5 js)
  show ?case
  proof (cases js)
    case Nil
    then show ?thesis by simp
  next
    case (Cons x xs)
    have "\<exists>c s. stringify_items js @ r = c # s \<and> c \<noteq> CHR '']'' \<and> skip_ws (stringify_items js @ r) = c # s"
    proof -
      obtain c s where c: "stringify x = c # s" "first_char x c" using stringify_first by blast
      have "skip_ws (stringify_items js @ r) = stringify_items js @ r"
        using Cons by (simp add: stringify_items_Cons del: stringify_items.simps(2,3))
      moreover have "c \<noteq> CHR '']''" using c(2)
        by (cases x) (auto simp: first_char_def number_char_def is_digit_def less_eq_char_def)
      ultimately show ?thesis using Cons c
        by (simp add: stringify_items_Cons del: stringify_items.simps(2,3))
    qed
    then obtain c s where cs: "stringify_items js @ r = c # s" "c \<noteq> CHR '']''" "skip_ws (stringify_items js @ r) = c # s"
      by blast
    obtain m where m: "n = Suc m" "2 * length (stringify_items js) \<le> m" using 5(4) by (cases n) auto
    have "parse_items n (stringify_items js @ r) = Some (js, r)"
      using 5(1) [of m r] 5(2) Cons m by simp
    then show ?thesis using cs by simp
  qed
next
  case (6 fs)
  show ?case
  proof (cases fs)
    case Nil
    then show ?thesis by simp
  next
    case (Cons x xs)
    obtain k v where x: "x = (k, v)" by force
    have q: "\<exists>s. stringify_fields fs @ r = CHR 0x22 # s"
      using Cons x by (simp add: stringify_fields_Cons quote_def del: stringify_fields.simps(2,3))
    then obtain s where s: "stringify_fields fs @ r = CHR 0x22 # s" by blast
    obtain m where m: "n = Suc m" "2 * length (stringify_fields fs) \<le> m" using 6(4) by (cases n) auto
    have "parse_members n (stringify_fields fs @ r) = Some (fs, r)"
      using 6(1) [of m r] 6(2) Cons m by simp
    moreover have "object_from fs = JObject fs"
      using 6(2) foldl_assign_field [of "[]" fs] by (simp add: object_from_def)
    ultimately show ?thesis using s by simp
  qed
next
  case (8 j)
  obtain m where m: "n = Suc m" "2 * length (stringify j) \<le> m" using 8(4) by (cases n) auto
  have "parse_value n (stringify j @ CHR '']'' # r) = Some (j, CHR '']'' # r)"
    using 8(1) [of "CHR '']'' # r" m] 8(2) m by simp
  then show ?case by simp
next
  case (9 j x xs)
  obtain m where m: "n = Suc m" "2 * length (stringify j) \<le> m" "2 * length (stringify_items (x # xs)) \<le> m"
    using 9(5) by (cases n) auto
  have "parse_value n (stringify j @ CHR '','' # stringify_items (x # xs) @ r) = Some (j, CHR '','' # stringify_items (x # xs) @ r)"
    using 9(1) [of "CHR '','' # stringify_items (x # xs) @ r" m] 9(3) m by simp
  moreover have "parse_items n (stringify_items (x # xs) @ r) = Some (x # xs, r)"
    using 9(2) [of m r] 9(3) m by simp
  ultimately show ?case by simp
next
  case (11 k j)
  obtain m where m: "n = Suc m" "2 * length (stringify j) \<le> m" using 11(4) by (cases n) auto
  have "parse_value n (stringify j @ CHR ''}'' # r) = Some (j, CHR ''}'' # r)"
    using 11(1) [of "CHR ''}'' # r" m] 11(2) m by simp
  then show ?case by (simp add: quote_def parse_string_quote)
next
  case (12 k j f fs)
  obtain m where m: "n = Suc m" "2 * length (stringify j) \<le> m" "2 * length (stringify_fields (f # fs)) \<le> m"
    using 12(5) by (cases n) auto
  have "parse_value n (stringify j @ CHR '','' # stringify_fields (f # fs) @ r) = Some (j, CHR '','' # stringify_fields (f # fs) @ r)"
    using 12(1) [of "CHR '','' # stringify_fields (f # fs) @ r" m] 12(3) m by simp
  moreover have "parse_members n (stringify_fields (f # fs) @ r) = Some (f # fs, r)"
    using 12(2) [of m r] 12(3) m by simp
  ultimately show ?case by (simp add: quote_def parse_string_quote)
qed (simp_all add: literal_def)

theorem json_parse_stringify: "wf_json j \<Longrightarrow> json_parse (stringify j) = Some j"
  using parse_stringify(1) [of j "[]" "2 * length (stringify j) + 1"] by (simp add: json_parse_def)

end
