(* ===== verification/ChainedLog.thy ===== *)
theory ChainedLog
  imports Digest Json
begin

text \<open>
  The hash chain shared by the event log and the evidence log of \<^verbatim>\<open>packages/runtime/src\<close>:
  what accepting one record after the others means, and why a log whose last link is known
  cannot be edited. The two stores interpret the locales on their own loaders.
\<close>

datatype chain_status = Chained | Legacy

lemma chain_status_ex: "(\<exists>c. P c) \<longleftrightarrow> P Chained \<or> P Legacy"
  by (metis chain_status.exhaust)

datatype log_error =
    Corrupted nat | InvalidRecord nat | DigestMismatch nat | PartiallyChained nat | ChainBreak nat
  | NoGenesis | UnchainedRecord nat

definition succeeds :: "('e, 'a) result \<Rightarrow> 'a option" where
  "succeeds r = (case r of Inl _ \<Rightarrow> None | Inr a \<Rightarrow> Some a)"

lemma succeeds_simps [simp]:
  "succeeds (Inl e) = None" "succeeds (Inr a) = Some a" "succeeds r = Some a \<longleftrightarrow> r = Inr a"
  by (simp_all add: succeeds_def split: sum.splits)

lemma succeeds_eqI: "(\<And>a. r = Inr a \<longleftrightarrow> r' = Inr a) \<Longrightarrow> succeeds r = succeeds r'"
  by (cases r; cases r') auto

section \<open>JSON lines\<close>

text \<open>
  \<open>raw.split(newline).forEach((line, index) => ...)\<close> with the torn flag of the last line and
  1-based line numbers; \<open>step\<close> is the body, a thrown error ends the loop.
\<close>

fun scan_lines ::
  "(bool \<Rightarrow> nat \<Rightarrow> string \<Rightarrow> 's \<Rightarrow> (log_error, 's) result) \<Rightarrow> bool \<Rightarrow> nat \<Rightarrow> string list \<Rightarrow> 's \<Rightarrow> (log_error, 's) result"
where
  "scan_lines step torn n [] st = Inr st"
| "scan_lines step torn n (line # rest) st =
     bind_result (step (torn \<and> rest = []) n line st) (scan_lines step torn (Suc n) rest)"

definition ends_line :: "string \<Rightarrow> bool" where
  "ends_line raw \<longleftrightarrow> raw \<noteq> [] \<and> last raw = CHR 0x0A"

definition scan_text ::
  "(bool \<Rightarrow> nat \<Rightarrow> string \<Rightarrow> 's \<Rightarrow> (log_error, 's) result) \<Rightarrow> string \<Rightarrow> 's \<Rightarrow> (log_error, 's) result" where
  "scan_text step raw st = scan_lines step (\<not> ends_line raw) 1 (split_on CHR 0x0A raw) st"

lemma scan_lines_append:
  "ms \<noteq> [] \<Longrightarrow> scan_lines step torn n (ls @ ms) st =
     bind_result (scan_lines step False n ls st) (scan_lines step torn (n + length ls) ms)"
  by (induction ls arbitrary: n st) (auto simp: bind_result_def split: sum.splits)

lemma split_on_append: "split_on c (r @ c # s) = split_on c r @ split_on c s"
proof (induction r)
  case (Cons x r)
  obtain a as where "split_on c r = a # as" by (metis split_on_not_Nil neq_Nil_conv)
  with Cons show ?case by simp
qed simp

text \<open>Appending one line to a text that ends a line adds one step; blank lines do nothing.\<close>

lemma scan_text_append:
  assumes "raw = [] \<or> ends_line raw" "CHR 0x0A \<notin> set x"
    and blank: "\<And>torn n st. step torn n [] st = Inr st"
  shows "scan_text step (raw @ x @ [CHR 0x0A]) st =
    bind_result (scan_text step raw st) (step False (length (split_on CHR 0x0A raw)) x)"
proof -
  obtain ls where ls: "split_on CHR 0x0A raw = ls @ [[]]" "split_on CHR 0x0A (raw @ x @ [CHR 0x0A]) = ls @ [x, []]"
  proof (cases "raw = []")
    case True
    then show ?thesis using that [of "[]"] assms(2) by simp
  next
    case False
    with assms(1) obtain r where r: "raw = r @ [CHR 0x0A]" by (metis ends_line_def append_butlast_last_id)
    show ?thesis using that [of "split_on CHR 0x0A r"] assms(2) unfolding r by (simp add: split_on_append)
  qed
  have ends: "ends_line (raw @ x @ [CHR 0x0A])" by (simp add: ends_line_def)
  show ?thesis unfolding scan_text_def ls using ends
    by (simp add: scan_lines_append blank bind_result_def split: sum.splits)
qed

section \<open>Chains\<close>

text \<open>
  \<open>pointer\<close> is the chain field of a record, \<open>link\<close> the value its successor must carry,
  \<open>sound\<close> the check of the record on its own; \<open>accept\<close> is the loader's step.
\<close>

locale chained_log =
  fixes pointer :: "'r \<Rightarrow> string option"
    and link :: "'r \<Rightarrow> string"
    and sound :: "'r \<Rightarrow> bool"
    and accept :: "'r list \<times> chain_status option \<Rightarrow> 'r \<Rightarrow> ('r list \<times> chain_status option) option"
  assumes accept_iff:
    "accept (rs, cs) r = Some st \<longleftrightarrow>
       sound r \<and>
       (case pointer r of
          Some p \<Rightarrow> cs \<noteq> Some Legacy \<and> p = (if rs = [] then chain_genesis else link (last rs))
            \<and> st = (rs @ [r], Some Chained)
        | None \<Rightarrow> cs \<noteq> Some Chained \<and> st = (rs @ [r], Some Legacy))"
begin

primrec accept_all :: "'r list \<times> chain_status option \<Rightarrow> 'r list \<Rightarrow> ('r list \<times> chain_status option) option" where
  "accept_all st [] = Some st"
| "accept_all st (r # rs) = Option.bind (accept st r) (\<lambda>st'. accept_all st' rs)"

primrec linked :: "string \<Rightarrow> 'r list \<Rightarrow> bool" where
  "linked p [] = True"
| "linked p (r # rs) = (pointer r = Some p \<and> linked (link r) rs)"

definition head :: "'r list \<Rightarrow> string" where
  "head rs = (if rs = [] then chain_genesis else link (last rs))"

definition status_ok :: "'r list \<Rightarrow> chain_status option \<Rightarrow> bool" where
  "status_ok rs cs \<longleftrightarrow>
     list_all sound rs \<and>
     (case cs of
        None \<Rightarrow> rs = []
      | Some Chained \<Rightarrow> rs \<noteq> [] \<and> linked chain_genesis rs
      | Some Legacy \<Rightarrow> rs \<noteq> [] \<and> list_all (\<lambda>r. pointer r = None) rs)"

lemma linked_append:
  "linked p (rs @ [r]) \<longleftrightarrow> linked p rs \<and> pointer r = Some (if rs = [] then p else link (last rs))"
  by (induction rs arbitrary: p) auto

lemma accept_status: "status_ok rs cs \<Longrightarrow> accept (rs, cs) r = Some (rs', cs') \<Longrightarrow> status_ok rs' cs' \<and> rs' = rs @ [r]"
  by (auto simp: accept_iff status_ok_def linked_append split: option.splits chain_status.splits)

lemma status_accept: "status_ok (rs @ [r]) cs' \<Longrightarrow> \<exists>cs. status_ok rs cs \<and> accept (rs, cs) r = Some (rs @ [r], cs')"
proof -
  assume ok: "status_ok (rs @ [r]) cs'"
  show ?thesis
  proof (cases "rs = []")
    case True
    with ok have "status_ok rs None \<and> accept (rs, None) r = Some (rs @ [r], cs')"
      by (auto simp: accept_iff status_ok_def split: option.splits chain_status.splits)
    then show ?thesis by blast
  next
    case False
    with ok have "status_ok rs cs' \<and> accept (rs, cs') r = Some (rs @ [r], cs')"
      by (auto simp: accept_iff status_ok_def linked_append split: option.splits chain_status.splits)
    then show ?thesis by blast
  qed
qed

lemma accept_all_append:
  "accept_all st (rs @ rs') = Option.bind (accept_all st rs) (\<lambda>st'. accept_all st' rs')"
  by (induction rs arbitrary: st) (auto simp: bind_assoc split: option.splits intro!: Option.bind_cong)

text \<open>A loader built on \<open>accept\<close> accepts exactly the sound logs that are linked throughout or nowhere.\<close>

lemma accept_all_iff: "accept_all ([], None) rs = Some (rs', cs) \<longleftrightarrow> rs' = rs \<and> status_ok rs cs"
proof (induction rs arbitrary: rs' cs rule: rev_induct)
  case Nil
  then show ?case by (auto simp: status_ok_def split: option.splits chain_status.splits)
next
  case (snoc r rs)
  show ?case
  proof
    assume "accept_all ([], None) (rs @ [r]) = Some (rs', cs)"
    then obtain st where st: "accept_all ([], None) rs = Some st" "accept st r = Some (rs', cs)"
      by (auto simp: accept_all_append Option.bind_eq_Some_conv)
    obtain a b where "st = (a, b)" by force
    with st snoc [of a b] have "status_ok rs b" "accept (rs, b) r = Some (rs', cs)" by auto
    from accept_status [OF this] show "rs' = rs @ [r] \<and> status_ok (rs @ [r]) cs" by auto
  next
    assume "rs' = rs @ [r] \<and> status_ok (rs @ [r]) cs"
    with status_accept obtain b where "status_ok rs b" "accept (rs, b) r = Some (rs', cs)" by metis
    with snoc [of rs b] show "accept_all ([], None) (rs @ [r]) = Some (rs', cs)"
      by (simp add: accept_all_append)
  qed
qed

end

text \<open>
  \<open>same\<close> is equality up to what the link ignores; \<open>clash\<close> names two records on which the
  hash function collides.
\<close>

locale hashed_log = chained_log +
  fixes same :: "'a \<Rightarrow> 'a \<Rightarrow> bool" and clash :: "'a \<Rightarrow> 'a \<Rightarrow> bool"
  assumes link_eq: "sound a \<Longrightarrow> sound b \<Longrightarrow> link a = link b \<Longrightarrow> same a b \<or> clash a b"
    and same_pointer: "same a b \<Longrightarrow> pointer a = pointer b"
begin

definition tampered :: "'a list \<Rightarrow> 'a list \<Rightarrow> bool" where
  "tampered rs rs' \<longleftrightarrow>
     (\<exists>a \<in> set rs. \<exists>b \<in> set rs'. clash a b) \<or> (\<exists>a \<in> set rs \<union> set rs'. link a = chain_genesis)"

lemma linked_last: "linked p rs \<Longrightarrow> rs \<noteq> [] \<Longrightarrow> pointer (last rs) = Some (if butlast rs = [] then p else link (last (butlast rs)))"
  by (induction rs arbitrary: p) auto

text \<open>Two chained logs with the same head have the same records, or exhibit a break of the hash function.\<close>

lemma same_head:
  "linked chain_genesis rs \<Longrightarrow> linked chain_genesis rs' \<Longrightarrow> list_all sound rs \<Longrightarrow> list_all sound rs' \<Longrightarrow>
     head rs = head rs' \<Longrightarrow> list_all2 same rs rs' \<or> tampered rs rs'"
proof (induction rs arbitrary: rs' rule: rev_induct)
  case Nil
  show ?case
  proof (cases "rs' = []")
    case False
    with Nil have "link (last rs') = chain_genesis" by (simp add: head_def)
    with False show ?thesis by (auto simp: tampered_def)
  qed simp
next
  case (snoc r rs)
  show ?case
  proof (cases rs' rule: rev_cases)
    case Nil
    with snoc.prems have "link r = chain_genesis" by (simp add: head_def)
    then show ?thesis by (auto simp: tampered_def)
  next
    case (snoc ss s)
    note prems = snoc.prems snoc
    have "link r = link s" using snoc.prems(5) snoc by (simp add: head_def)
    with snoc.prems(3,4) snoc have "same r s \<or> clash r s" by (simp add: link_eq)
    then show ?thesis
    proof
      assume "clash r s"
      then show ?thesis using snoc by (auto simp: tampered_def)
    next
      assume rs: "same r s"
      have "head rs = head ss" using snoc.prems(1,2) snoc same_pointer [OF rs]
        by (simp add: linked_append head_def)
      then have "list_all2 same rs ss \<or> tampered rs ss"
        using snoc.IH [of ss] snoc.prems snoc by (simp add: linked_append)
      then show ?thesis using rs snoc by (auto simp: tampered_def list_all2_appendI)
    qed
  qed
qed

end

section \<open>Chained logs in files\<close>

text \<open>\<open>line\<close> is the loader's step on one line of text, \<open>text\<close> the line an append writes.\<close>

locale jsonl_log = chained_log +
  fixes line :: "bool \<Rightarrow> nat \<Rightarrow> string \<Rightarrow> 'a list \<times> chain_status option \<Rightarrow> (log_error, 'a list \<times> chain_status option) result"
    and text_of :: "'a \<Rightarrow> string"
    and storable :: "'a \<Rightarrow> bool"
  assumes line_blank: "line torn n [] st = Inr st"
    and line_accepts: "line torn n l st = Inr st' \<Longrightarrow> st' = st \<or> (\<exists>r. accept st r = Some st')"
    and line_text: "storable r \<Longrightarrow> succeeds (line torn n (text_of r) st) = accept st r"
    and text_no_newline: "CHR 0x0A \<notin> set (text_of r)"
begin

lemma scan_lines_accepts: "scan_lines line torn n ls st = Inr st' \<Longrightarrow> \<exists>rs. accept_all st rs = Some st'"
proof (induction ls arbitrary: n st)
  case Nil
  then show ?case by (auto intro: exI [of _ "[]"])
next
  case (Cons l ls)
  then obtain st1 where st1: "line (torn \<and> ls = []) n l st = Inr st1"
      "scan_lines line torn (Suc n) ls st1 = Inr st'" by (auto simp: result_iff)
  obtain rs where rs: "accept_all st1 rs = Some st'" using Cons.IH [OF st1(2)] by blast
  show ?case using line_accepts [OF st1(1)]
  proof
    assume "\<exists>r. accept st r = Some st1"
    then obtain r where "accept st r = Some st1" by blast
    with rs have "accept_all st (r # rs) = Some st'" by simp
    then show ?thesis by blast
  qed (use rs in blast)
qed

lemma scan_text_status: "scan_text line raw ([], None) = Inr (rs, cs) \<Longrightarrow> status_ok rs cs"
  unfolding scan_text_def by (drule scan_lines_accepts) (auto simp: accept_all_iff)

lemma scan_text_record:
  assumes "raw = [] \<or> ends_line raw" "storable r"
  shows "succeeds (scan_text line (raw @ text_of r @ [CHR 0x0A]) st) =
    Option.bind (succeeds (scan_text line raw st)) (\<lambda>st'. accept st' r)"
  using scan_text_append [where step = line, OF assms(1) text_no_newline line_blank] line_text [OF assms(2)]
  by (cases "scan_text line raw st") simp_all

lemma scan_text_log:
  "list_all storable rs \<Longrightarrow>
     succeeds (scan_text line (concat (map (\<lambda>r. text_of r @ [CHR 0x0A]) rs)) st) = accept_all st rs"
proof (induction rs rule: rev_induct)
  case Nil
  then show ?case by (simp add: scan_text_def line_blank)
next
  case (snoc r rs)
  let ?raw = "concat (map (\<lambda>r. text_of r @ [CHR 0x0A]) rs)"
  have "?raw = [] \<or> ends_line ?raw" by (cases rs rule: rev_cases) (simp_all add: ends_line_def)
  with snoc show ?case by (simp add: scan_text_record accept_all_append)
qed

end

end
