(* ===== verification/EventLog.thy ===== *)
theory EventLog
  imports ChainedLog
begin

text \<open>
  The append-only event log, \<^verbatim>\<open>packages/runtime/src/events.ts\<close>. The file is its text; a line is
  parsed with \<open>json_parse\<close> and checked against \<^verbatim>\<open>eventSchema\<close> (\<open>event_of_json\<close>). The identifier
  and the timestamp of a new event are arguments, as is the hash function.
\<close>

section \<open>Events as JSON\<close>

definition event_json :: "event \<Rightarrow> json" where
  "event_json e = object_of
     [(''seq'', Some (JNum (e_seq e))), (''id'', Some (JString (e_id e))),
      (''type'', Some (JString (event_type_text (e_type e)))), (''runId'', Some (JString (e_run_id e))),
      (''timestamp'', Some (JString (e_timestamp e))), (''payload'', Some (JObject (e_payload e))),
      (''chain'', map_option JString (e_chain e))]"

definition event_type_of :: "string \<Rightarrow> event_type option" where
  "event_type_of s = List.find (\<lambda>t. event_type_text t = s) event_types"

text \<open>\<^verbatim>\<open>eventSchema.safeParse\<close>: a strict object, \<open>chain\<close> optional.\<close>

definition event_of_json :: "json \<Rightarrow> event option" where
  "event_of_json j =
     (case j of
        JObject fs \<Rightarrow>
          if \<not> set (map fst fs) \<subseteq> {''seq'', ''id'', ''type'', ''runId'', ''timestamp'', ''chain'', ''payload''} then None
          else
            (case (map_of fs ''seq'', map_of fs ''id'', map_of fs ''type'', map_of fs ''runId'',
                   map_of fs ''timestamp'', map_of fs ''chain'', map_of fs ''payload'') of
               (Some (JNum seq), Some (JString i), Some (JString ty), Some (JString run),
                Some (JString ts), chain, Some (JObject payload)) \<Rightarrow>
                 (case (event_type_of ty, chain) of
                    (Some t, None) \<Rightarrow>
                      (let e = \<lparr>e_seq = seq, e_id = i, e_type = t, e_run_id = run, e_timestamp = ts,
                                e_chain = None, e_payload = payload\<rparr>
                       in if event_ok e then Some e else None)
                  | (Some t, Some (JString c)) \<Rightarrow>
                      (let e = \<lparr>e_seq = seq, e_id = i, e_type = t, e_run_id = run, e_timestamp = ts,
                                e_chain = Some c, e_payload = payload\<rparr>
                       in if event_ok e then Some e else None)
                  | _ \<Rightarrow> None)
             | _ \<Rightarrow> None)
      | _ \<Rightarrow> None)"

definition event_digest :: "(string \<Rightarrow> string) \<Rightarrow> event \<Rightarrow> string" where
  "event_digest sha e = digest_json sha (event_json e)"

section \<open>EventStore\<close>

record event_store =
  es_run_id :: string
  es_file :: "string option"
  es_events :: "event list"
  es_chain :: "chain_status option"

text \<open>The chain checks of the loader, for the event on line \<open>n\<close>.\<close>

definition event_accept ::
  "(string \<Rightarrow> string) \<Rightarrow> nat \<Rightarrow> event list \<times> chain_status option \<Rightarrow> event
     \<Rightarrow> (log_error, event list \<times> chain_status option) result" where
  "event_accept sha n = (\<lambda>(events, cs) event.
     case e_chain event of
       Some chain \<Rightarrow>
         if cs = Some Legacy then Inl (PartiallyChained n)
         else if events \<noteq> [] then
           (if chain \<noteq> event_digest sha (last events) then Inl (ChainBreak n)
            else Inr (events @ [event], Some Chained))
         else if chain \<noteq> chain_genesis then Inl NoGenesis
         else Inr (events @ [event], Some Chained)
     | None \<Rightarrow>
         if cs = Some Chained then Inl (UnchainedRecord n)
         else Inr (events @ [event], Some Legacy))"

definition event_line ::
  "(string \<Rightarrow> string) \<Rightarrow> bool \<Rightarrow> nat \<Rightarrow> string \<Rightarrow> event list \<times> chain_status option
     \<Rightarrow> (log_error, event list \<times> chain_status option) result" where
  "event_line sha torn n line st =
     (let trimmed = trim line in
      if trimmed = [] then Inr st
      else
        (case json_parse trimmed of
           None \<Rightarrow> if torn then Inr st else Inl (Corrupted n)
         | Some value \<Rightarrow>
             (case event_of_json value of
                None \<Rightarrow> if torn then Inr st else Inl (InvalidRecord n)
              | Some event \<Rightarrow> event_accept sha n st event)))"

definition event_load :: "(string \<Rightarrow> string) \<Rightarrow> event_store \<Rightarrow> (log_error, event_store) result" where
  "event_load sha st =
     (case es_file st of
        None \<Rightarrow> Inr st
      | Some raw \<Rightarrow>
          bind_result (scan_text (event_line sha) raw (es_events st, es_chain st))
            (\<lambda>(events, cs). Inr (st\<lparr>es_events := events, es_chain := cs\<rparr>)))"

definition event_chain_head :: "(string \<Rightarrow> string) \<Rightarrow> event_store \<Rightarrow> string option" where
  "event_chain_head sha st = (if es_events st = [] then None else Some (event_digest sha (last (es_events st))))"

text \<open>\<open>append\<close>: the new store and the event it returns.\<close>

definition new_event ::
  "(string \<Rightarrow> string) \<Rightarrow> event_store \<Rightarrow> string \<Rightarrow> string \<Rightarrow> event_type \<Rightarrow> (string \<times> json) list \<Rightarrow> event" where
  "new_event sha st uuid now ty payload =
     \<lparr>e_seq = int (length (es_events st)) + 1, e_id = uuid, e_type = ty, e_run_id = es_run_id st, e_timestamp = now,
      e_chain = (if es_chain st = Some Legacy then None
                 else Some (if es_events st = [] then chain_genesis else event_digest sha (last (es_events st)))),
      e_payload = payload\<rparr>"

definition event_append ::
  "(string \<Rightarrow> string) \<Rightarrow> string \<Rightarrow> string \<Rightarrow> event_type \<Rightarrow> (string \<times> json) list \<Rightarrow> event_store \<Rightarrow> event_store \<times> event" where
  "event_append sha uuid now ty payload st =
     (let e = new_event sha st uuid now ty payload;
          old = (case es_file st of None \<Rightarrow> [] | Some raw \<Rightarrow> raw)
      in (st\<lparr>es_events := es_events st @ [e], es_file := Some (old @ stringify (event_json e) @ [CHR 0x0A])\<rparr>, e))"

definition open_log :: "string \<Rightarrow> string option \<Rightarrow> event_store" where
  "open_log run file = \<lparr>es_run_id = run, es_file = file, es_events = [], es_chain = None\<rparr>"

text \<open>A payload and a hash function for the examples.\<close>

definition sample_event_log :: "string option \<Rightarrow> event_store" where
  "sample_event_log file = fst (event_append (\<lambda>s. s) ''id-1'' ''t1'' TASK_READY [(''taskId'', JString ''T001'')] (open_log ''run-1'' file))"

section \<open>Events survive the round trip through the file\<close>

lemma event_type_of_text [simp]: "event_type_of (event_type_text t) = Some t"
  by (cases t) (simp_all add: event_type_of_def event_types_def)

lemma event_type_text_inject [simp]: "event_type_text t = event_type_text u \<longleftrightarrow> t = u"
  by (metis event_type_of_text option.inject)

lemma own_key_order_plain: "list_all (\<lambda>f. \<not> array_index (fst f)) fs \<Longrightarrow> own_key_order fs = fs"
proof -
  assume a: "list_all (\<lambda>f. \<not> array_index (fst f)) fs"
  then have "filter (\<lambda>(k, v). array_index k) fs = []" "filter (\<lambda>(k, v). \<not> array_index k) fs = fs"
    by (auto simp: filter_empty_conv filter_id_conv list_all_iff)
  then show ?thesis by (simp add: own_key_order_def)
qed

lemma event_json_wf: "wf_json (JObject (e_payload e)) \<Longrightarrow> wf_json (event_json e)"
  by (cases "e_chain e")
     (simp_all add: event_json_def object_of_def own_key_order_plain array_index_def)

lemma event_of_event_json: "event_ok e \<Longrightarrow> event_of_json (event_json e) = Some e"
  by (cases e; cases "e_chain e") (simp_all add: event_json_def object_of_def event_of_json_def event_ok_def)

lemma event_json_head: "\<exists>s. stringify (event_json e) = CHR ''{'' # s"
  by (simp add: event_json_def object_of_def)

lemma stringify_last: "stringify (JObject fs) \<noteq> [] \<and> last (stringify (JObject fs)) = CHR ''}''"
proof (induction fs)
  case (Cons f fs)
  then show ?case by (cases f; cases fs) (auto simp: quote_def)
qed simp

lemma hex_digit_no_newline: "d < 16 \<Longrightarrow> CHR 0x0A \<noteq> hex_digit d"
proof
  assume "d < 16" "CHR 0x0A = hex_digit d"
  then have "is_hex CHR 0x0A" using hex_digit_facts(1) by simp
  then show False by (simp add: is_hex_def is_digit_def less_eq_char_def)
qed

lemma escape_char_no_newline: "CHR 0x0A \<notin> set (escape_char c)"
proof -
  have "of_char c div 16 < (16::nat)" if "c < CHR 0x20" using that by (auto simp: less_0x20)
  then show ?thesis using hex_digit_no_newline [of "of_char c div 16"] hex_digit_no_newline [of "of_char c mod 16"]
    by (auto simp: escape_char_def)
qed

lemma stringify_no_newline:
  "CHR 0x0A \<notin> set (stringify j)" "CHR 0x0A \<notin> set (stringify_items js)" "CHR 0x0A \<notin> set (stringify_fields fs)"
proof -
  have q: "CHR 0x0A \<notin> set (quote s)" for s
    using escape_char_no_newline by (auto simp: quote_def)
  have n: "CHR 0x0A \<notin> set (show_int i)" for i
    using show_int_chars [of "CHR 0x0A" i] by (auto simp: number_char_def is_digit_def less_eq_char_def)
  show "CHR 0x0A \<notin> set (stringify j)" "CHR 0x0A \<notin> set (stringify_items js)" "CHR 0x0A \<notin> set (stringify_fields fs)"
    by (induction j and js and fs rule: stringify_stringify_items_stringify_fields.induct) (simp_all add: q n)
qed

lemma trim_stringify_object: "trim (stringify (JObject fs)) = stringify (JObject fs)"
  using stringify_last [of fs] by (intro trim_id) (auto simp: js_space_def)

lemma event_line_stringify:
  assumes "event_ok e" "wf_json (JObject (e_payload e))"
  shows "event_line sha torn n (stringify (event_json e)) st = event_accept sha n st e"
proof -
  obtain fs where fs: "event_json e = JObject fs" by (simp add: event_json_def object_of_def)
  have "trim (stringify (event_json e)) = stringify (event_json e)" unfolding fs by (rule trim_stringify_object)
  moreover have "stringify (event_json e) \<noteq> []" using event_json_head [of e] by auto
  ultimately show ?thesis
    using json_parse_stringify [OF event_json_wf [OF assms(2)]] event_of_event_json [OF assms(1)]
    by (simp add: event_line_def)
qed

section \<open>The chain\<close>

interpretation ev: chained_log e_chain "event_digest sha" "\<lambda>_. True" "\<lambda>st e. succeeds (event_accept sha 0 st e)"
  for sha
  by unfold_locales (auto simp: event_accept_def succeeds_def split: option.splits)

text \<open>Equal up to the key order of the payload.\<close>

definition same_event :: "event \<Rightarrow> event \<Rightarrow> bool" where
  "same_event a b \<longleftrightarrow>
     canonical_tree (JObject (e_payload a)) = canonical_tree (JObject (e_payload b))
     \<and> a\<lparr>e_payload := []\<rparr> = b\<lparr>e_payload := []\<rparr>"

lemma event_json_inject:
  "canonical_tree (event_json a) = canonical_tree (event_json b) \<Longrightarrow> same_event a b"
proof -
  assume "canonical_tree (event_json a) = canonical_tree (event_json b)"
  from object_of_inject [OF this [unfolded event_json_def]]
  show ?thesis by (cases a; cases b) (simp add: same_event_def del: canonical_tree.simps)
qed

definition event_clash :: "(string \<Rightarrow> string) \<Rightarrow> event \<Rightarrow> event \<Rightarrow> bool" where
  "event_clash sha a b \<longleftrightarrow> collides sha (event_json a) (event_json b)"

interpretation evh: hashed_log e_chain "event_digest sha" "\<lambda>_. True" "\<lambda>st e. succeeds (event_accept sha 0 st e)"
    same_event "event_clash sha"
  for sha
  by unfold_locales
     (auto simp: event_digest_def digest_json_eq_iff event_clash_def event_json_inject,
      auto simp: same_event_def dest: arg_cong [where f = e_chain])

lemma event_accept_line: "event_accept sha n st e = Inr st' \<longleftrightarrow> event_accept sha 0 st e = Inr st'"
  by (auto simp: event_accept_def split: option.splits prod.splits if_splits)

lemma event_line_accepts:
  assumes "event_line sha torn n line st = Inr st'"
  shows "st' = st \<or> (\<exists>e. event_accept sha 0 st e = Inr st')"
  using assms event_accept_line [of sha n st _ st']
  by (auto simp: event_line_def Let_def split: if_splits option.splits)

definition storable :: "event \<Rightarrow> bool" where
  "storable e \<longleftrightarrow> event_ok e \<and> wf_json (JObject (e_payload e))"

interpretation evl: jsonl_log e_chain "event_digest sha" "\<lambda>_. True" "\<lambda>st e. succeeds (event_accept sha 0 st e)"
    "event_line sha" "\<lambda>e. stringify (event_json e)" storable
  for sha
proof unfold_locales
  show "event_line sha torn n [] st = Inr st" for torn n st by (simp add: event_line_def)
  show "st' = st \<or> (\<exists>r. succeeds (event_accept sha 0 st r) = Some st')"
    if "event_line sha torn n l st = Inr st'" for torn n l st st'
    using event_line_accepts [OF that] by simp
  show "succeeds (event_line sha torn n (stringify (event_json r)) st) = succeeds (event_accept sha 0 st r)"
    if "storable r" for r torn n st
    using that event_accept_line
    by (intro succeeds_eqI) (simp add: storable_def event_line_stringify del: wf_json.simps)
qed (rule stringify_no_newline(1))

lemma event_load_status:
  assumes "event_load sha (open_log run file) = Inr st"
  shows "ev.status_ok sha (es_events st) (es_chain st)" "es_run_id st = run" "es_file st = file"
proof -
  show "es_run_id st = run" "es_file st = file"
    using assms by (auto simp: event_load_def open_log_def result_iff split: option.splits)
  show "ev.status_ok sha (es_events st) (es_chain st)"
  proof (cases "file")
    case None
    with assms show ?thesis by (auto simp: event_load_def open_log_def ev.status_ok_def)
  next
    case (Some raw)
    with assms have "scan_text (event_line sha) raw ([], None) = Inr (es_events st, es_chain st)"
      by (auto simp: event_load_def open_log_def result_iff)
    then show ?thesis by (rule evl.scan_text_status)
  qed
qed

definition complete_file :: "string option \<Rightarrow> bool" where
  "complete_file file \<longleftrightarrow> (case file of None \<Rightarrow> True | Some raw \<Rightarrow> raw = [] \<or> ends_line raw)"

lemma event_accept_new:
  assumes "ev.status_ok sha (es_events st) (es_chain st)"
  shows "event_accept sha n (es_events st, es_chain st) (new_event sha st uuid now ty payload)
    = Inr (es_events st @ [new_event sha st uuid now ty payload],
           Some (if es_chain st = Some Legacy then Legacy else Chained))"
  using assms
  by (auto simp: event_accept_def new_event_def ev.status_ok_def split: option.splits chain_status.splits)



text \<open>
  C24: two chained event logs that load and have the same chain head hold the same events, up
  to the key order inside payloads, unless the hash function collides on two of their events
  or maps one of them to the genesis value: a log cannot be edited under an attested head.
\<close>
theorem event_log_tamper_evident:
  assumes "event_load sha (open_log run file) = Inr st" "event_load sha (open_log run file') = Inr st'"
    and "es_chain st = Some Chained" "es_chain st' = Some Chained"
    and "event_chain_head sha st = event_chain_head sha st'"
  shows "list_all2 same_event (es_events st) (es_events st')
    \<or> (\<exists>a \<in> set (es_events st). \<exists>b \<in> set (es_events st'). event_clash sha a b)
    \<or> (\<exists>a \<in> set (es_events st) \<union> set (es_events st'). event_digest sha a = chain_genesis)"
proof -
  have "es_events st \<noteq> [] \<and> ev.linked sha chain_genesis (es_events st)"
    "es_events st' \<noteq> [] \<and> ev.linked sha chain_genesis (es_events st')"
    using event_load_status(1) [OF assms(1)] event_load_status(1) [OF assms(2)] assms(3,4)
    by (auto simp: ev.status_ok_def)
  moreover from this assms(5) have "ev.head sha (es_events st) = ev.head sha (es_events st')"
    by (simp add: event_chain_head_def ev.head_def)
  ultimately show ?thesis
    using evh.same_head [of sha "es_events st" "es_events st'"] by (auto simp: evh.tampered_def list_all_iff)
qed

theorem event_log_tamper_evident_witness:
  "\<exists>st. event_load (\<lambda>s. s) (open_log ''run-1'' (es_file (sample_event_log None))) = Inr st
     \<and> es_chain st = Some Chained
     \<and> (list_all2 same_event (es_events st) (es_events st)
        \<or> (\<exists>a \<in> set (es_events st). \<exists>b \<in> set (es_events st). event_clash (\<lambda>s. s) a b)
        \<or> (\<exists>a \<in> set (es_events st) \<union> set (es_events st). event_digest (\<lambda>s. s) a = chain_genesis))"
proof -
  have load: "event_load (\<lambda>s. s) (open_log ''run-1'' None) = Inr (open_log ''run-1'' None)"
    by (simp add: event_load_def open_log_def)
  have line: "event_line (\<lambda>s. s) False 1 (stringify (event_json e)) s = event_accept (\<lambda>s. s) 1 s e"
    if "e = snd (event_append (\<lambda>s. s) ''id-1'' ''t1'' TASK_READY [(''taskId'', JString ''T001'')] (open_log ''run-1'' None))"
    for e s unfolding that
    by (rule event_line_stringify)
       (simp_all add: event_ok_def event_append_def new_event_def own_key_order_plain array_index_def Let_def)
  let ?st = "(sample_event_log None)\<lparr>es_chain := Some Chained\<rparr>"
  have "event_load (\<lambda>s. s) (open_log ''run-1'' (es_file (sample_event_log None))) = Inr ?st"
    using scan_text_append [where step = "event_line (\<lambda>s. s)" and raw = "[]" and st = "([], None)", OF _ stringify_no_newline(1)]
      line [OF refl]
    by (simp add: event_load_def sample_event_log_def open_log_def event_append_def Let_def event_line_def
        scan_text_def event_accept_def new_event_def)
  from event_log_tamper_evident [OF this this _ _ refl] this show ?thesis by auto
qed

definition log_text :: "event list \<Rightarrow> string" where
  "log_text es = concat (map (\<lambda>e. stringify (event_json e) @ [CHR 0x0A]) es)"

definition event_chained :: "(string \<Rightarrow> string) \<Rightarrow> event list \<Rightarrow> bool" where
  "event_chained sha es \<longleftrightarrow>
     (\<forall>i < length es. e_chain (es ! i) = Some (if i = 0 then chain_genesis else event_digest sha (es ! (i - 1))))"

lemma event_chained_linked: "ev.linked sha chain_genesis es \<longleftrightarrow> event_chained sha es"
proof -
  have "ev.linked sha p es \<longleftrightarrow>
      (\<forall>i < length es. e_chain (es ! i) = Some (if i = 0 then p else event_digest sha (es ! (i - 1))))" for p
  proof (induction es arbitrary: p)
    case (Cons e es)
    show ?case unfolding ev.linked.simps Cons.IH
      by (auto simp: nth_Cons' less_Suc_eq_0_disj split: if_splits)
  qed simp
  then show ?thesis by (simp add: event_chained_def)
qed

definition chain_matches :: "(string \<Rightarrow> string) \<Rightarrow> event list \<Rightarrow> chain_status option \<Rightarrow> bool" where
  "chain_matches sha es cs \<longleftrightarrow>
     (case cs of
        None \<Rightarrow> es = []
      | Some Chained \<Rightarrow> es \<noteq> [] \<and> event_chained sha es
      | Some Legacy \<Rightarrow> es \<noteq> [] \<and> list_all (\<lambda>e. e_chain e = None) es)"

text \<open>
  C23: the loader accepts exactly the logs that are unchained throughout or chained throughout,
  each event pointing at the digest of the event before it and the first at the genesis value;
  and it returns the events of the file, in order.
\<close>
theorem event_load_exact:
  assumes "list_all storable es"
  shows "event_load sha (open_log run (Some (log_text es))) = Inr st \<longleftrightarrow>
    es_events st = es \<and> es_run_id st = run \<and> es_file st = Some (log_text es) \<and> chain_matches sha es (es_chain st)"
proof -
  have "event_load sha (open_log run (Some (log_text es))) = Inr st \<longleftrightarrow>
      (\<exists>evs cs. ev.accept_all sha ([], None) es = Some (evs, cs)
        \<and> st = \<lparr>es_run_id = run, es_file = Some (log_text es), es_events = evs, es_chain = cs\<rparr>)"
    unfolding evl.scan_text_log [OF assms, symmetric] succeeds_simps(3) log_text_def [symmetric]
    by (auto simp: event_load_def open_log_def result_iff)
  also have "\<dots> \<longleftrightarrow> es_events st = es \<and> es_run_id st = run \<and> es_file st = Some (log_text es)
      \<and> ev.status_ok sha es (es_chain st)"
    by (cases st) (auto simp: ev.accept_all_iff)
  also have "ev.status_ok sha es (es_chain st) \<longleftrightarrow> chain_matches sha es (es_chain st)"
  proof (cases "es_chain st")
    case (Some c)
    then show ?thesis by (cases c) (simp_all add: ev.status_ok_def chain_matches_def event_chained_linked list_all_iff)
  qed (auto simp: ev.status_ok_def chain_matches_def)
  finally show ?thesis .
qed

theorem event_load_exact_witness:
  "\<exists>es. length es = 1 \<and> event_load (\<lambda>s. s) (open_log ''run-1'' (Some (log_text es)))
     = Inr \<lparr>es_run_id = ''run-1'', es_file = Some (log_text es), es_events = es, es_chain = Some Chained\<rparr>"
proof -
  let ?e = "snd (event_append (\<lambda>s. s) ''id-1'' ''t1'' TASK_READY [(''taskId'', JString ''T001'')] (open_log ''run-1'' None))"
  have "list_all storable [?e]"
    by (simp add: storable_def event_ok_def event_append_def new_event_def own_key_order_plain array_index_def Let_def)
  from event_load_exact [OF this] have
    "event_load (\<lambda>s. s) (open_log ''run-1'' (Some (log_text [?e])))
      = Inr \<lparr>es_run_id = ''run-1'', es_file = Some (log_text [?e]), es_events = [?e], es_chain = Some Chained\<rparr>"
    by (simp add: chain_matches_def event_chained_def event_append_def new_event_def open_log_def Let_def)
  then show ?thesis by (metis length_Cons list.size(3) One_nat_def)
qed

text \<open>
  the torn tail that the loader tolerates becomes fatal at the next append, which writes on
  the same line: after an interrupted append of one byte, the log still loads, but once an
  event has been appended it does not load any more.
\<close>
theorem torn_tail_append_corrupts:
  assumes "event_load sha (open_log run (Some raw)) = Inr st" "raw = [] \<or> ends_line raw"
  shows "event_load sha (open_log run (Some (raw @ ''{''))) = Inr (st\<lparr>es_file := Some (raw @ ''{'')\<rparr>)
    \<and> (\<exists>n. event_load sha (open_log run
          (es_file (fst (event_append sha uuid now ty payload (st\<lparr>es_file := Some (raw @ ''{'')\<rparr>)))))
        = Inl (Corrupted n))"
proof -
  let ?st = "st\<lparr>es_file := Some (raw @ ''{'')\<rparr>"
  let ?e = "new_event sha ?st uuid now ty payload"
  obtain ls where ls: "split_on CHR 0x0A raw = ls @ [[]]"
      "\<And>x. CHR 0x0A \<notin> set x \<Longrightarrow> split_on CHR 0x0A (raw @ x) = ls @ [x]"
  proof (cases "raw = []")
    case True
    then show ?thesis using that [of "[]"] by simp
  next
    case False
    with assms(2) obtain r where "raw = r @ [CHR 0x0A]" by (metis ends_line_def append_butlast_last_id)
    then show ?thesis using that [of "split_on CHR 0x0A r"] by (simp add: split_on_append)
  qed
  note run = event_load_status(2) [OF assms(1)]
  have old: "scan_lines (event_line sha) (\<not> ends_line raw) 1 (ls @ [[]]) ([], None) = Inr (es_events st, es_chain st)"
    using assms(1) by (auto simp: event_load_def open_log_def result_iff scan_text_def ls)
  then have scan: "scan_lines (event_line sha) False 1 ls ([], None) = Inr (es_events st, es_chain st)"
    by (auto simp: scan_lines_append event_line_def result_iff)
  obtain s where s: "stringify (event_json ?e) = CHR ''{'' # s" using event_json_head by blast
  let ?x = "CHR ''{'' # stringify (event_json ?e)"
  have x: "CHR 0x0A \<notin> set ?x" using stringify_no_newline(1) by simp
  have tear: "json_parse ''{'' = None" by (simp add: json_parse_def eval_nat_numeral)
  have bad: "json_parse ?x = None" unfolding s by (simp add: json_parse_def)
  obtain fs where "event_json ?e = JObject fs" by (simp add: event_json_def object_of_def)
  with stringify_last [of fs] have "last (stringify (event_json ?e)) = CHR ''}''" by simp
  then have "trim ?x = ?x" using s by (intro trim_id) (auto simp: js_space_def)
  then have step: "event_line sha False n ?x st' = Inl (Corrupted n)" for n st'
    using bad by (simp add: event_line_def)
  have torn: "event_line sha True n ''{'' st' = Inr st'" for n st'
    using tear by (simp add: event_line_def trim_def js_space_def)
  have "scan_text (event_line sha) (raw @ ''{'') ([], None) = Inr (es_events st, es_chain st)"
    using torn by (simp add: scan_text_def ls ends_line_def scan_lines_append scan [simplified])
  moreover have "scan_text (event_line sha) (raw @ ?x @ [CHR 0x0A]) ([], None) = Inl (Corrupted (Suc (length ls)))"
  proof -
    have "split_on CHR 0x0A (raw @ ?x @ [CHR 0x0A]) = ls @ [?x, []]"
      using split_on_append [of "CHR 0x0A" "raw @ ?x" "[]"] ls(2) [OF x] by simp
    then show ?thesis by (simp add: scan_text_def ends_line_def scan_lines_append scan [simplified] step)
  qed
  ultimately show ?thesis
    using run by (auto simp: event_load_def open_log_def event_append_def Let_def)
qed

theorem torn_tail_append_corrupts_witness:
  "\<exists>n. event_load (\<lambda>s. s) (open_log ''run-1'' (es_file (sample_event_log (Some ''{'')))) = Inl (Corrupted n)"
proof -
  have "event_load (\<lambda>s. s) (open_log ''run-1'' (Some [])) = Inr (open_log ''run-1'' (Some []))"
    by (simp add: event_load_def open_log_def scan_text_def event_line_def)
  from torn_tail_append_corrupts [OF this, of "''id-1''" "''t1''" TASK_READY "[(''taskId'', JString ''T001'')]"]
  show ?thesis by (simp add: sample_event_log_def open_log_def)
qed

end
