(* ===== verification/EvidenceLog.thy ===== *)
theory EvidenceLog
  imports EventLog
begin

text \<open>
  The stores of \<^verbatim>\<open>packages/runtime/src/stores.ts\<close>: the append-only evidence log with its digests,
  its chain and its adoption of records another writer appended, and the follow-up list.
\<close>

section \<open>Evidence as JSON\<close>

fun kind_text :: "evidence_kind \<Rightarrow> string" where
  "kind_text EvCommand = ''command''" | "kind_text EvTest = ''test''" | "kind_text EvFile = ''file''"
| "kind_text EvDiff = ''diff''" | "kind_text EvAgent = ''agent''" | "kind_text EvHuman = ''human''"
| "kind_text EvPreparation = ''preparation''"

fun outcome_text :: "evidence_outcome \<Rightarrow> string" where
  "outcome_text Supports = ''supports''" | "outcome_text Contradicts = ''contradicts''"
| "outcome_text Inconclusive = ''inconclusive''"

fun producer_text :: "producer_type \<Rightarrow> string" where
  "producer_text ByRuntime = ''runtime''" | "producer_text ByAgent = ''agent''" | "producer_text ByHuman = ''human''"

definition kind_of :: "string \<Rightarrow> evidence_kind option" where
  "kind_of s = List.find (\<lambda>k. kind_text k = s) [EvCommand, EvTest, EvFile, EvDiff, EvAgent, EvHuman, EvPreparation]"

definition outcome_of :: "string \<Rightarrow> evidence_outcome option" where
  "outcome_of s = List.find (\<lambda>k. outcome_text k = s) [Supports, Contradicts, Inconclusive]"

definition producer_of :: "string \<Rightarrow> producer_type option" where
  "producer_of s = List.find (\<lambda>k. producer_text k = s) [ByRuntime, ByAgent, ByHuman]"

definition producer_json :: "producer_type \<times> string option \<Rightarrow> json" where
  "producer_json p = object_of
     [(''type'', Some (JString (producer_text (fst p)))), (''identity'', map_option JString (snd p))]"

text \<open>The fields of a record without its digest, and the whole record.\<close>

definition evidence_fields :: "evidence \<Rightarrow> (string \<times> json option) list" where
  "evidence_fields e =
     [(''id'', Some (JString (ev_id e))), (''runId'', Some (JString (ev_run_id e))),
      (''taskId'', map_option JString (ev_task_id e)), (''criterionId'', map_option JString (ev_criterion_id e)),
      (''propertyRefs'', Some (strings_json (ev_property_refs e))),
      (''kind'', Some (JString (kind_text (ev_kind e)))), (''outcome'', Some (JString (outcome_text (ev_outcome e)))),
      (''producer'', Some (producer_json (ev_producer e))), (''timestamp'', Some (JString (ev_timestamp e))),
      (''repositoryRevision'', Some (JString (ev_revision e))),
      (''phase'', if ev_red e then Some (JString ''red'') else None),
      (''payload'', Some (ev_payload e)), (''chain'', map_option JString (ev_chain e))]"

definition evidence_rest_json :: "evidence \<Rightarrow> json" where
  "evidence_rest_json e = object_of (evidence_fields e)"

definition evidence_json :: "evidence \<Rightarrow> json" where
  "evidence_json e = object_of (evidence_fields e @ [(''digest'', Some (JString (ev_digest e)))])"

text \<open>\<^verbatim>\<open>evidenceSchema.safeParse\<close>; the payload is any value.\<close>

definition opt_string_field :: "(string \<times> json) list \<Rightarrow> string \<Rightarrow> string option option" where
  "opt_string_field fs k =
     (case map_of fs k of None \<Rightarrow> Some None | Some (JString s) \<Rightarrow> Some (Some s) | _ \<Rightarrow> None)"

definition string_array :: "json \<Rightarrow> string list option" where
  "string_array j =
     (case j of
        JArray js \<Rightarrow> if list_all (\<lambda>x. case x of JString _ \<Rightarrow> True | _ \<Rightarrow> False) js then Some (map (\<lambda>x. case x of JString s \<Rightarrow> s | _ \<Rightarrow> []) js) else None
      | _ \<Rightarrow> None)"

definition parse_producer :: "json \<Rightarrow> (producer_type \<times> string option) option" where
  "parse_producer j =
     (case j of
        JObject fs \<Rightarrow>
          if \<not> set (map fst fs) \<subseteq> {''type'', ''identity''} then None
          else
            (case (map_of fs ''type'', opt_string_field fs ''identity'') of
               (Some (JString t), Some identity) \<Rightarrow> map_option (\<lambda>p. (p, identity)) (producer_of t)
             | _ \<Rightarrow> None)
      | _ \<Rightarrow> None)"

definition evidence_ok :: "evidence \<Rightarrow> bool" where
  "evidence_ok e \<longleftrightarrow> ev_id e \<noteq> [] \<and> ev_timestamp e \<noteq> [] \<and> ev_digest e \<noteq> []"

definition evidence_of_json :: "json \<Rightarrow> evidence option" where
  "evidence_of_json j =
     (case j of
        JObject fs \<Rightarrow>
          if \<not> set (map fst fs) \<subseteq> {''id'', ''runId'', ''taskId'', ''criterionId'', ''propertyRefs'', ''kind'', ''outcome'',
                ''producer'', ''timestamp'', ''repositoryRevision'', ''phase'', ''chain'', ''payload'', ''digest''} then None
          else
            (case (map_of fs ''id'', map_of fs ''runId'', map_of fs ''kind'', map_of fs ''outcome'',
                   map_of fs ''timestamp'', map_of fs ''repositoryRevision'', map_of fs ''digest'', map_of fs ''payload'') of
               (Some (JString i), Some (JString run), Some (JString k), Some (JString out),
                Some (JString ts), Some (JString revision), Some (JString dig), Some payload) \<Rightarrow>
                 (case (opt_string_field fs ''taskId'', opt_string_field fs ''criterionId'', opt_string_field fs ''chain'',
                        opt_string_field fs ''phase'', Option.bind (map_of fs ''propertyRefs'') string_array,
                        Option.bind (map_of fs ''producer'') parse_producer, kind_of k, outcome_of out) of
                    (Some tid, Some crit, Some chain, Some phase, Some refs, Some producer, Some kind, Some outcome) \<Rightarrow>
                      (let e = \<lparr>ev_id = i, ev_run_id = run, ev_task_id = tid, ev_criterion_id = crit,
                                ev_property_refs = refs, ev_kind = kind, ev_outcome = outcome, ev_producer = producer,
                                ev_timestamp = ts, ev_revision = revision, ev_red = (phase = Some ''red''), ev_chain = chain,
                                ev_payload = payload, ev_digest = dig\<rparr>
                       in if evidence_ok e \<and> phase \<in> {None, Some ''red''} then Some e else None)
                  | _ \<Rightarrow> None)
             | _ \<Rightarrow> None)
      | _ \<Rightarrow> None)"

definition evidence_digest :: "(string \<Rightarrow> string) \<Rightarrow> evidence \<Rightarrow> string" where
  "evidence_digest sha e = digest_json sha (evidence_rest_json e)"

section \<open>EvidenceStore\<close>

record evidence_store =
  vs_file :: "string option"
  vs_records :: "evidence list"
  vs_chain :: "chain_status option"

definition evidence_accept ::
  "(string \<Rightarrow> string) \<Rightarrow> nat \<Rightarrow> evidence list \<times> chain_status option \<Rightarrow> evidence
     \<Rightarrow> (log_error, evidence list \<times> chain_status option) result" where
  "evidence_accept sha n = (\<lambda>(records, cs) r.
     if evidence_digest sha r \<noteq> ev_digest r then Inl (DigestMismatch n)
     else
       (case ev_chain r of
          Some chain \<Rightarrow>
            if cs = Some Legacy then Inl (PartiallyChained n)
            else if records \<noteq> [] then
              (if chain \<noteq> ev_digest (last records) then Inl (ChainBreak n)
               else Inr (records @ [r], Some Chained))
            else if chain \<noteq> chain_genesis then Inl NoGenesis
            else Inr (records @ [r], Some Chained)
        | None \<Rightarrow>
            if cs = Some Chained then Inl (UnchainedRecord n)
            else Inr (records @ [r], Some Legacy)))"

definition evidence_line ::
  "(string \<Rightarrow> string) \<Rightarrow> bool \<Rightarrow> nat \<Rightarrow> string \<Rightarrow> evidence list \<times> chain_status option
     \<Rightarrow> (log_error, evidence list \<times> chain_status option) result" where
  "evidence_line sha torn n line st =
     (let trimmed = trim line in
      if trimmed = [] then Inr st
      else
        (case json_parse trimmed of
           None \<Rightarrow> if torn then Inr st else Inl (Corrupted n)
         | Some value \<Rightarrow>
             (case evidence_of_json value of
                None \<Rightarrow> if torn then Inr st else Inl (InvalidRecord n)
              | Some r \<Rightarrow> evidence_accept sha n st r)))"

definition evidence_load :: "(string \<Rightarrow> string) \<Rightarrow> evidence_store \<Rightarrow> (log_error, evidence_store) result" where
  "evidence_load sha st =
     (case vs_file st of
        None \<Rightarrow> Inr st
      | Some raw \<Rightarrow>
          bind_result (scan_text (evidence_line sha) raw (vs_records st, vs_chain st))
            (\<lambda>(records, cs). Inr (st\<lparr>vs_records := records, vs_chain := cs\<rparr>)))"

text \<open>The file's last stored record: the last line that is not blank, if it is a valid record.\<close>

definition disk_tail :: "string option \<Rightarrow> evidence option" where
  "disk_tail file =
     (case file of
        None \<Rightarrow> None
      | Some raw \<Rightarrow>
          (case filter (\<lambda>l. trim l \<noteq> []) (rev (split_on CHR 0x0A raw)) of
             [] \<Rightarrow> None
           | l # _ \<Rightarrow> Option.bind (json_parse (trim l)) evidence_of_json))"

text \<open>\<open>/^EV-(d+)$/\<close> and the next identifier.\<close>

definition evidence_number :: "string \<Rightarrow> nat option" where
  "evidence_number i =
     (if take 3 i = ''EV-'' \<and> drop 3 i \<noteq> [] \<and> list_all is_digit (drop 3 i) then Some (read_nat (drop 3 i)) else None)"

definition evidence_id :: "nat \<Rightarrow> string" where
  "evidence_id n = ''EV-'' @ pad_start 4 CHR ''0'' (show_nat n)"

definition adopt_disk_tail :: "evidence_store \<Rightarrow> evidence \<Rightarrow> evidence_store \<times> evidence" where
  "adopt_disk_tail st r =
     (case disk_tail (vs_file st) of
        None \<Rightarrow> (st, r)
      | Some tail \<Rightarrow>
          if vs_records st \<noteq> [] \<and> ev_digest (last (vs_records st)) = ev_digest tail then (st, r)
          else
            (st\<lparr>vs_records := vs_records st @ [tail],
                vs_chain := (if ev_chain tail = None then Some Legacy
                             else if vs_chain st \<noteq> Some Legacy then Some Chained else vs_chain st)\<rparr>,
             case evidence_number (ev_id tail) of
               Some n \<Rightarrow> r\<lparr>ev_id := evidence_id (n + 1)\<rparr>
             | None \<Rightarrow> r))"

text \<open>\<open>add\<close>; the digest field of its argument is ignored.\<close>

definition evidence_add :: "(string \<Rightarrow> string) \<Rightarrow> evidence_store \<Rightarrow> evidence \<Rightarrow> evidence_store \<times> evidence" where
  "evidence_add sha st0 r0 =
     (case adopt_disk_tail st0 r0 of
        (st, r) \<Rightarrow>
          let with_chain =
                (if vs_chain st = Some Legacy then r
                 else r\<lparr>ev_chain := Some (if vs_records st = [] then chain_genesis else ev_digest (last (vs_records st)))\<rparr>);
              full = with_chain\<lparr>ev_digest := evidence_digest sha with_chain\<rparr>;
              old = (case vs_file st of None \<Rightarrow> [] | Some raw \<Rightarrow> raw)
          in (st\<lparr>vs_records := vs_records st @ [full],
                 vs_chain := (if vs_chain st = None then Some Chained else vs_chain st),
                 vs_file := Some (old @ stringify (evidence_json full) @ [CHR 0x0A])\<rparr>, full))"

definition for_property :: "evidence list \<Rightarrow> string \<Rightarrow> evidence list" where
  "for_property records pid = filter (\<lambda>e. pid \<in> set (ev_property_refs e)) records"

definition open_evidence :: "string option \<Rightarrow> evidence_store" where
  "open_evidence file = \<lparr>vs_file = file, vs_records = [], vs_chain = None\<rparr>"

section \<open>Records survive the round trip through the file\<close>

lemma enum_texts [simp]:
  "kind_of (kind_text k) = Some k" "outcome_of (outcome_text out) = Some out" "producer_of (producer_text p) = Some p"
proof -
  show "kind_of (kind_text k) = Some k" by (cases k) (simp_all add: kind_of_def)
  show "outcome_of (outcome_text out) = Some out" by (cases out) (simp_all add: outcome_of_def)
  show "producer_of (producer_text p) = Some p" by (cases p) (simp_all add: producer_of_def)
qed

lemma enum_inject [simp]:
  "kind_text k = kind_text k' \<longleftrightarrow> k = k'" "outcome_text out = outcome_text out' \<longleftrightarrow> out = out'"
  "producer_text p = producer_text p' \<longleftrightarrow> p = p'"
  by (metis enum_texts(1) option.inject, metis enum_texts(2) option.inject, metis enum_texts(3) option.inject)

lemma string_array_strings [simp]: "string_array (strings_json xs) = Some xs"
  by (simp add: string_array_def strings_json_def list_all_iff comp_def)

lemma parse_producer_json [simp]: "parse_producer (producer_json p) = Some p"
  by (cases p; cases "snd p") (auto simp: parse_producer_def producer_json_def object_of_def opt_string_field_def)

lemma opt_string_present:
  "distinct (map fst fs) \<Longrightarrow> (k, map_option JString x) \<in> set fs \<Longrightarrow> opt_string_field (present fs) k = Some x"
  by (cases x) (auto simp: opt_string_field_def dest: map_of_present)

lemma evidence_fields_distinct:
  "distinct (map fst (evidence_fields e @ [(''digest'', Some (JString (ev_digest e)))]))"
  by (simp add: evidence_fields_def)

lemma evidence_of_evidence_json:
  assumes "evidence_ok e"
  shows "evidence_of_json (evidence_json e) = Some e"
proof -
  let ?fs = "evidence_fields e @ [(''digest'', Some (JString (ev_digest e)))]"
  note look = map_of_present [OF evidence_fields_distinct [of e]]
  note opt = opt_string_present [OF evidence_fields_distinct [of e]]
  have strict: "set (map fst (present ?fs)) \<subseteq> {''id'', ''runId'', ''taskId'', ''criterionId'', ''propertyRefs'', ''kind'', ''outcome'',
      ''producer'', ''timestamp'', ''repositoryRevision'', ''phase'', ''chain'', ''payload'', ''digest''}"
    by (rule subset_trans [OF present_keys]) (simp add: evidence_fields_def)
  have plain: "map_of (present ?fs) ''id'' = Some (JString (ev_id e))" "map_of (present ?fs) ''runId'' = Some (JString (ev_run_id e))"
    "map_of (present ?fs) ''kind'' = Some (JString (kind_text (ev_kind e)))"
    "map_of (present ?fs) ''outcome'' = Some (JString (outcome_text (ev_outcome e)))"
    "map_of (present ?fs) ''timestamp'' = Some (JString (ev_timestamp e))"
    "map_of (present ?fs) ''repositoryRevision'' = Some (JString (ev_revision e))"
    "map_of (present ?fs) ''digest'' = Some (JString (ev_digest e))" "map_of (present ?fs) ''payload'' = Some (ev_payload e)"
    "map_of (present ?fs) ''propertyRefs'' = Some (strings_json (ev_property_refs e))"
    "map_of (present ?fs) ''producer'' = Some (producer_json (ev_producer e))"
    by (rule look, simp add: evidence_fields_def)+
  have opts: "opt_string_field (present ?fs) ''taskId'' = Some (ev_task_id e)"
    "opt_string_field (present ?fs) ''criterionId'' = Some (ev_criterion_id e)"
    "opt_string_field (present ?fs) ''chain'' = Some (ev_chain e)"
    "opt_string_field (present ?fs) ''phase'' = Some (if ev_red e then Some ''red'' else None)"
    by (rule opt, simp add: evidence_fields_def)+
  show ?thesis
    using assms strict
    by (cases "ev_red e")
       (auto simp: evidence_json_def object_of_def evidence_of_json_def plain opts Let_def evidence_ok_def
         intro!: evidence.equality)
qed

lemma strings_json_wf [simp]: "wf_json (strings_json xs)"
  by (simp add: strings_json_def list_all_iff)

lemma present_wf:
  "distinct (map fst fs) \<Longrightarrow> list_all (\<lambda>f. \<not> array_index (fst f) \<and> pred_option wf_json (snd f)) fs \<Longrightarrow>
     wf_json (object_of fs)"
proof -
  assume d: "distinct (map fst fs)" and a: "list_all (\<lambda>f. \<not> array_index (fst f) \<and> pred_option wf_json (snd f)) fs"
  have "list_all (\<lambda>f. \<not> array_index (fst f) \<and> wf_json (snd f)) (present fs)"
    using a by (auto simp: present_def map_filter_def list_all_iff option.pred_set)
  then show ?thesis using distinct_present [OF d]
    by (simp add: object_of_def own_key_order_plain list_all_iff)
qed

lemma pred_option_string [simp]: "pred_option (wf_json \<circ> JString) x"
  by (cases x) simp_all

lemma evidence_json_wf: "wf_json (ev_payload e) \<Longrightarrow> wf_json (evidence_json e)"
  unfolding evidence_json_def
  by (rule present_wf)
     (auto simp: evidence_fields_def array_index_def option.pred_map producer_json_def intro!: present_wf)

lemma evidence_json_shape: "\<exists>s. stringify (evidence_json e) = CHR ''{'' # s"
  by (simp add: evidence_json_def evidence_fields_def object_of_def)

lemma trim_evidence_json: "trim (stringify (evidence_json e)) = stringify (evidence_json e)"
  unfolding evidence_json_def object_of_def by (rule trim_stringify_object)

lemma parse_evidence_line:
  assumes "evidence_ok e" "wf_json (ev_payload e)"
  shows "Option.bind (json_parse (stringify (evidence_json e))) evidence_of_json = Some e"
  using json_parse_stringify [OF evidence_json_wf [OF assms(2)]] evidence_of_evidence_json [OF assms(1)] by simp

lemma evidence_line_stringify:
  assumes "evidence_ok e" "wf_json (ev_payload e)"
  shows "evidence_line sha torn n (stringify (evidence_json e)) st = evidence_accept sha n st e"
proof -
  have "stringify (evidence_json e) \<noteq> []" using evidence_json_shape [of e] by auto
  then show ?thesis
    using json_parse_stringify [OF evidence_json_wf [OF assms(2)]] evidence_of_evidence_json [OF assms(1)]
    by (simp add: evidence_line_def trim_evidence_json)
qed

section \<open>The chain\<close>

lemma evidence_accept_line: "evidence_accept sha n st e = Inr st' \<longleftrightarrow> evidence_accept sha 0 st e = Inr st'"
  by (auto simp: evidence_accept_def split: option.splits prod.splits if_splits)

definition evidence_storable :: "evidence \<Rightarrow> bool" where
  "evidence_storable e \<longleftrightarrow> evidence_ok e \<and> wf_json (ev_payload e)"

definition digest_sound :: "(string \<Rightarrow> string) \<Rightarrow> evidence \<Rightarrow> bool" where
  "digest_sound sha e \<longleftrightarrow> evidence_digest sha e = ev_digest e"

interpretation vl: jsonl_log ev_chain ev_digest "digest_sound sha" "\<lambda>st e. succeeds (evidence_accept sha 0 st e)"
    "evidence_line sha" "\<lambda>e. stringify (evidence_json e)" evidence_storable
  for sha
proof unfold_locales
  show "succeeds (evidence_accept sha 0 (rs, cs) r) = Some st \<longleftrightarrow>
       digest_sound sha r \<and>
       (case ev_chain r of
          None \<Rightarrow> cs \<noteq> Some Chained \<and> st = (rs @ [r], Some Legacy)
        | Some p \<Rightarrow> cs \<noteq> Some Legacy \<and> p = (if rs = [] then chain_genesis else ev_digest (last rs))
            \<and> st = (rs @ [r], Some Chained))" for rs cs r st
    by (auto simp: evidence_accept_def digest_sound_def split: option.splits)
  show "evidence_line sha torn n [] st = Inr st" for torn n st by (simp add: evidence_line_def)
  show "st' = st \<or> (\<exists>r. succeeds (evidence_accept sha 0 st r) = Some st')"
    if "evidence_line sha torn n l st = Inr st'" for torn n l st st'
    using that evidence_accept_line [of sha n st _ st']
    by (auto simp: evidence_line_def Let_def split: if_splits option.splits)
  show "succeeds (evidence_line sha torn n (stringify (evidence_json r)) st) = succeeds (evidence_accept sha 0 st r)"
    if "evidence_storable r" for r torn n st
    using that evidence_accept_line
    by (intro succeeds_eqI) (simp add: evidence_storable_def evidence_line_stringify)
qed (rule stringify_no_newline(1))

text \<open>Equal up to the key order of the payload.\<close>

definition same_evidence :: "evidence \<Rightarrow> evidence \<Rightarrow> bool" where
  "same_evidence a b \<longleftrightarrow>
     canonical_tree (ev_payload a) = canonical_tree (ev_payload b) \<and> a\<lparr>ev_payload := JNull\<rparr> = b\<lparr>ev_payload := JNull\<rparr>"

definition evidence_clash :: "(string \<Rightarrow> string) \<Rightarrow> evidence \<Rightarrow> evidence \<Rightarrow> bool" where
  "evidence_clash sha a b \<longleftrightarrow> collides sha (evidence_rest_json a) (evidence_rest_json b)"

lemma producer_json_inject [simp]:
  "canonical_tree (producer_json p) = canonical_tree (producer_json q) \<longleftrightarrow> p = q"
proof
  assume "canonical_tree (producer_json p) = canonical_tree (producer_json q)"
  from object_of_inject [OF this [unfolded producer_json_def]] show "p = q"
    by (cases p; cases q) simp
qed simp

lemma red_json_inject [simp]:
  "map_option canonical_tree (if a then Some (JString ''red'') else None)
     = map_option canonical_tree (if b then Some (JString ''red'') else None) \<longleftrightarrow> a = b"
  by auto

lemma evidence_rest_inject:
  assumes "canonical_tree (evidence_rest_json a) = canonical_tree (evidence_rest_json b)" "ev_digest a = ev_digest b"
  shows "same_evidence a b"
proof -
  have "list_all2 (\<lambda>f g. map_option canonical_tree (snd f) = map_option canonical_tree (snd g))
      (evidence_fields a) (evidence_fields b)"
    by (rule object_of_inject [OF assms(1) [unfolded evidence_rest_json_def]]) (simp_all add: evidence_fields_def)
  then show ?thesis using assms(2)
    unfolding evidence_fields_def same_evidence_def
    by (cases a; cases b) (simp del: canonical_tree.simps split del: if_split)
qed

interpretation vh: hashed_log ev_chain ev_digest "digest_sound sha" "\<lambda>st e. succeeds (evidence_accept sha 0 st e)"
    same_evidence "evidence_clash sha"
  for sha
proof unfold_locales
  show "same_evidence a b \<or> evidence_clash sha a b"
    if "digest_sound sha a" "digest_sound sha b" "ev_digest a = ev_digest b" for a b
  proof -
    have "digest_json sha (evidence_rest_json a) = digest_json sha (evidence_rest_json b)"
      using that by (simp add: digest_sound_def evidence_digest_def)
    with evidence_rest_inject [of a b] that(3) show ?thesis
      by (auto simp: digest_json_eq_iff evidence_clash_def)
  qed
  show "ev_chain a = ev_chain b" if "same_evidence a b" for a b
    using that by (auto simp: same_evidence_def dest: arg_cong [where f = ev_chain])
qed

lemma evidence_load_status:
  assumes "evidence_load sha (open_evidence file) = Inr st"
  shows "vl.status_ok sha (vs_records st) (vs_chain st)" "vs_file st = file"
proof -
  show "vs_file st = file"
    using assms by (auto simp: evidence_load_def open_evidence_def result_iff split: option.splits)
  show "vl.status_ok sha (vs_records st) (vs_chain st)"
  proof (cases "file")
    case None
    with assms show ?thesis by (auto simp: evidence_load_def open_evidence_def vl.status_ok_def)
  next
    case (Some raw)
    with assms have "scan_text (evidence_line sha) raw ([], None) = Inr (vs_records st, vs_chain st)"
      by (auto simp: evidence_load_def open_evidence_def result_iff)
    then show ?thesis by (rule vl.scan_text_status)
  qed
qed

section \<open>Several writers\<close>

text \<open>In a complete file that loads, the disk tail is the last record.\<close>

lemma evidence_line_record:
  assumes "evidence_line sha False n l (rs, cs) = Inr (rs', cs')"
  shows "if trim l = [] then rs' = rs
    else \<exists>e. Option.bind (json_parse (trim l)) evidence_of_json = Some e \<and> rs' = rs @ [e]"
  using assms
  by (auto simp: evidence_line_def Let_def evidence_accept_def split: if_splits option.splits)

lemma scan_lines_records:
  "scan_lines (evidence_line sha) False n ls (rs, cs) = Inr (rs', cs') \<Longrightarrow>
     \<exists>es. list_all2 (\<lambda>l e. Option.bind (json_parse (trim l)) evidence_of_json = Some e)
        (filter (\<lambda>l. trim l \<noteq> []) ls) es \<and> rs' = rs @ es"
proof (induction ls arbitrary: n rs cs)
  case (Cons l ls)
  then obtain rs1 cs1 where st1: "evidence_line sha False n l (rs, cs) = Inr (rs1, cs1)"
      "scan_lines (evidence_line sha) False (Suc n) ls (rs1, cs1) = Inr (rs', cs')"
    by (auto simp: result_iff)
  from Cons.IH [OF st1(2)] obtain es where es:
    "list_all2 (\<lambda>l e. Option.bind (json_parse (trim l)) evidence_of_json = Some e) (filter (\<lambda>l. trim l \<noteq> []) ls) es"
    "rs' = rs1 @ es" by blast
  show ?case
  proof (cases "trim l = []")
    case True
    with es evidence_line_record [OF st1(1)] show ?thesis by auto
  next
    case False
    with evidence_line_record [OF st1(1)] obtain e where
      "Option.bind (json_parse (trim l)) evidence_of_json = Some e" "rs1 = rs @ [e]" by auto
    with es False have "list_all2 (\<lambda>l e. Option.bind (json_parse (trim l)) evidence_of_json = Some e)
        (filter (\<lambda>l. trim l \<noteq> []) (l # ls)) (e # es)" "rs' = rs @ e # es" by auto
    then show ?thesis by blast
  qed
qed simp

lemma disk_tail_last:
  assumes "evidence_load sha (open_evidence file) = Inr disk" "complete_file file"
  shows "disk_tail file = (if vs_records disk = [] then None else Some (last (vs_records disk)))"
proof (cases "file")
  case None
  with assms show ?thesis by (auto simp: evidence_load_def open_evidence_def disk_tail_def)
next
  case (Some raw)
  obtain ls where ls: "split_on CHR 0x0A raw = ls @ [[]]"
  proof (cases "raw = []")
    case True
    then show ?thesis using that [of "[]"] by simp
  next
    case False
    with assms(2) Some have "last raw = CHR 0x0A" by (simp add: complete_file_def ends_line_def)
    with False have "raw = butlast raw @ [CHR 0x0A]" by (metis append_butlast_last_id)
    then show ?thesis using that [of "split_on CHR 0x0A (butlast raw)"]
      split_on_append [of "CHR 0x0A" "butlast raw" "[]"] by simp
  qed
  have "scan_text (evidence_line sha) raw ([], None) = Inr (vs_records disk, vs_chain disk)"
    using assms(1) Some by (auto simp: evidence_load_def open_evidence_def result_iff)
  then have "scan_lines (evidence_line sha) False 1 ls ([], None) = Inr (vs_records disk, vs_chain disk)"
    by (auto simp: scan_text_def ls scan_lines_append evidence_line_def result_iff)
  from scan_lines_records [OF this] have all2:
    "list_all2 (\<lambda>l e. Option.bind (json_parse (trim l)) evidence_of_json = Some e)
       (filter (\<lambda>l. trim l \<noteq> []) ls) (vs_records disk)" by simp
  show ?thesis
  proof (cases "vs_records disk" rule: rev_cases)
    case Nil
    with all2 show ?thesis by (simp add: disk_tail_def Some ls flip: rev_filter)
  next
    case (snoc es e)
    with all2 obtain ks k where "filter (\<lambda>l. trim l \<noteq> []) ls = ks @ [k]"
        "Option.bind (json_parse (trim k)) evidence_of_json = Some e"
      by (auto simp: list_all2_append2 length_Suc_conv)
    then show ?thesis by (simp add: disk_tail_def Some ls snoc flip: rev_filter)
  qed
qed

text \<open>A writer that has seen nothing, or something of a log of the same kind.\<close>

definition in_step :: "evidence_store \<Rightarrow> evidence_store \<Rightarrow> bool" where
  "in_step st disk \<longleftrightarrow>
     vs_records st = [] \<and> vs_chain st = None
     \<or> vs_records st \<noteq> [] \<and> vs_records disk \<noteq> [] \<and> vs_chain st = vs_chain disk"

definition addable :: "evidence \<Rightarrow> bool" where
  "addable r \<longleftrightarrow> ev_id r \<noteq> [] \<and> ev_timestamp r \<noteq> [] \<and> wf_json (ev_payload r) \<and> ev_chain r = None"

lemma adopt_disk_tail_in_step:
  assumes "evidence_load sha (open_evidence file) = Inr disk" "complete_file file" "vs_file st = file" "in_step st disk"
    and "adopt_disk_tail st r = (st', r')"
  shows "vs_file st' = file" "vs_chain st' = vs_chain disk"
    and "(if vs_records st' = [] then chain_genesis else ev_digest (last (vs_records st')))
       = (if vs_records disk = [] then chain_genesis else ev_digest (last (vs_records disk)))"
    and "\<exists>i. r' = r\<lparr>ev_id := i\<rparr> \<and> (ev_id r \<noteq> [] \<longrightarrow> i \<noteq> [])"
proof -
  note status = evidence_load_status(1) [OF assms(1)]
  note tail = disk_tail_last [OF assms(1,2)]
  have chain: "vs_chain disk = (if vs_records disk = [] then None else if ev_chain (last (vs_records disk)) = None then Some Legacy else Some Chained)"
  proof (cases "vs_records disk" rule: rev_cases)
    case (snoc rs x)
    with status show ?thesis
      by (auto simp: vl.status_ok_def vl.linked_append split: option.splits chain_status.splits)
  qed (use status in \<open>auto simp: vl.status_ok_def split: option.splits chain_status.splits\<close>)
  have ids: "\<exists>i. (case evidence_number x of None \<Rightarrow> r | Some n \<Rightarrow> r\<lparr>ev_id := evidence_id (n + 1)\<rparr>) = r\<lparr>ev_id := i\<rparr>
      \<and> (ev_id r \<noteq> [] \<longrightarrow> i \<noteq> [])" for x
  proof (cases "evidence_number x")
    case None
    then show ?thesis by (auto intro!: exI [of _ "ev_id r"])
  next
    case (Some n)
    then show ?thesis by (auto intro!: exI [of _ "evidence_id (n + 1)"] simp: evidence_id_def)
  qed
  have same: "\<exists>i. r = r\<lparr>ev_id := i\<rparr> \<and> (ev_id r \<noteq> [] \<longrightarrow> i \<noteq> [])"
    by (rule exI [of _ "ev_id r"]) simp
  show "vs_file st' = file"
    using assms(3,5) by (auto simp: adopt_disk_tail_def split: option.splits if_splits)
  show "vs_chain st' = vs_chain disk"
    using assms(3,4,5) chain by (auto simp: adopt_disk_tail_def tail in_step_def split: if_splits)
  show "(if vs_records st' = [] then chain_genesis else ev_digest (last (vs_records st')))
       = (if vs_records disk = [] then chain_genesis else ev_digest (last (vs_records disk)))"
    using assms(3,4,5) by (auto simp: adopt_disk_tail_def tail in_step_def split: if_splits)
  show "\<exists>i. r' = r\<lparr>ev_id := i\<rparr> \<and> (ev_id r \<noteq> [] \<longrightarrow> i \<noteq> [])"
    using assms(3,5) ids same by (auto simp: adopt_disk_tail_def tail split: if_splits)
qed

lemma digest_json_not_Nil [simp]: "digest_json sha j \<noteq> []"
  by (simp add: digest_json_def)

lemma evidence_digest_not_Nil [simp]: "evidence_digest sha e \<noteq> []"
  by (simp add: evidence_digest_def)

lemma evidence_digest_ignores_digest [simp]:
  "evidence_digest sha (e\<lparr>ev_digest := d\<rparr>) = evidence_digest sha e"
  by (simp add: evidence_digest_def evidence_rest_json_def evidence_fields_def)

lemma evidence_add_spec:
  assumes "evidence_load sha (open_evidence file) = Inr disk" "complete_file file" "vs_file st = file" "in_step st disk"
    and "addable r" "evidence_add sha st r = (st', full)"
  shows "evidence_load sha (open_evidence (vs_file st'))
      = Inr \<lparr>vs_file = vs_file st', vs_records = vs_records disk @ [full], vs_chain = vs_chain st'\<rparr>"
    and "complete_file (vs_file st')"
    and "vs_records st' \<noteq> []" "vs_chain st' = Some (if vs_chain disk = Some Legacy then Legacy else Chained)"
proof -
  obtain st1 r1 where adopt: "adopt_disk_tail st r = (st1, r1)" by force
  note a = adopt_disk_tail_in_step [OF assms(1-4) adopt]
  obtain i where r1: "r1 = r\<lparr>ev_id := i\<rparr>" "i \<noteq> []" using a(4) assms(5) by (auto simp: addable_def)
  define raw where "raw = (case file of None \<Rightarrow> [] | Some raw \<Rightarrow> raw)"
  note full = assms(6) [unfolded evidence_add_def adopt prod.case Let_def a(1) raw_def [symmetric]]
  have "vs_chain st' = (if vs_chain disk = None then Some Chained else vs_chain disk)"
    using full a(2) by auto
  then have "vs_chain st' = Some (if vs_chain disk = Some Legacy then Legacy else Chained)"
    using chain_status.exhaust by (cases "vs_chain disk") auto
  moreover have "vs_file st' = Some (raw @ stringify (evidence_json full) @ [CHR 0x0A])" "vs_records st' \<noteq> []"
    using full by auto
  ultimately have st': "vs_file st' = Some (raw @ stringify (evidence_json full) @ [CHR 0x0A])" "vs_records st' \<noteq> []"
      "vs_chain st' = Some (if vs_chain disk = Some Legacy then Legacy else Chained)" by blast+
  then show "complete_file (vs_file st')" "vs_records st' \<noteq> []"
      "vs_chain st' = Some (if vs_chain disk = Some Legacy then Legacy else Chained)"
    by (simp_all add: complete_file_def ends_line_def)
  have storable: "evidence_storable full"
    using full assms(5) r1 by (auto simp: evidence_storable_def evidence_ok_def addable_def split: if_splits)
  have sound: "digest_sound sha full" using full by (auto simp: digest_sound_def)
  have pointer: "ev_chain full = (if vs_chain disk = Some Legacy then None
      else Some (if vs_records disk = [] then chain_genesis else ev_digest (last (vs_records disk))))"
    using full a(2,3) assms(5) r1 by (auto simp: addable_def)
  have old: "scan_text (evidence_line sha) raw ([], None) = Inr (vs_records disk, vs_chain disk)"
    using assms(1) by (cases "file")
      (auto simp: evidence_load_def open_evidence_def result_iff raw_def scan_text_def evidence_line_def)
  have "raw = [] \<or> ends_line raw" using assms(2) by (auto simp: complete_file_def raw_def split: option.splits)
  from vl.scan_text_record [OF this storable, of sha "([], None)"] old
  have "succeeds (scan_text (evidence_line sha) (raw @ stringify (evidence_json full) @ [CHR 0x0A]) ([], None))
      = succeeds (evidence_accept sha 0 (vs_records disk, vs_chain disk) full)" by simp
  also have "\<dots> = Some (vs_records disk @ [full], vs_chain st')"
    using evidence_load_status(1) [OF assms(1)] sound pointer st'(3)
    unfolding vl.accept_iff by (auto simp: vl.status_ok_def split: option.splits chain_status.splits)
  finally show "evidence_load sha (open_evidence (vs_file st'))
      = Inr \<lparr>vs_file = vs_file st', vs_records = vs_records disk @ [full], vs_chain = vs_chain st'\<rparr>"
    by (simp add: evidence_load_def open_evidence_def st'(1))
qed

text \<open>
  Any number of processes on one file: each opens the log when it likes and adds records from
  whatever it has in memory; one \<open>add\<close> runs at a time.
\<close>

record writers =
  w_file :: "string option"
  w_memory :: "nat \<Rightarrow> evidence list \<times> chain_status option"

definition writer_store :: "writers \<Rightarrow> nat \<Rightarrow> evidence_store" where
  "writer_store w i = \<lparr>vs_file = w_file w, vs_records = fst (w_memory w i), vs_chain = snd (w_memory w i)\<rparr>"

definition initial_writers :: writers where
  "initial_writers = \<lparr>w_file = None, w_memory = (\<lambda>_. ([], None))\<rparr>"

inductive writer_steps :: "(string \<Rightarrow> string) \<Rightarrow> writers \<Rightarrow> bool" for sha where
  start: "writer_steps sha initial_writers"
| opens: "writer_steps sha w \<Longrightarrow> evidence_load sha (open_evidence (w_file w)) = Inr disk \<Longrightarrow>
     writer_steps sha (w\<lparr>w_memory := (w_memory w)(i := (vs_records disk, vs_chain disk))\<rparr>)"
| adds: "writer_steps sha w \<Longrightarrow> addable r \<Longrightarrow> evidence_add sha (writer_store w i) r = (st', full) \<Longrightarrow>
     writer_steps sha \<lparr>w_file = vs_file st', w_memory = (w_memory w)(i := (vs_records st', vs_chain st'))\<rparr>"

inductive_cases writer_addsE: "writer_steps sha \<lparr>w_file = f, w_memory = m\<rparr>"

definition writers_ok :: "(string \<Rightarrow> string) \<Rightarrow> writers \<Rightarrow> evidence_store \<Rightarrow> bool" where
  "writers_ok sha w disk \<longleftrightarrow>
     evidence_load sha (open_evidence (w_file w)) = Inr disk \<and> complete_file (w_file w)
     \<and> vs_chain disk \<noteq> Some Legacy \<and> (\<forall>i. in_step (writer_store w i) disk)"

lemma load_chain_nonempty:
  assumes "evidence_load sha (open_evidence file) = Inr disk"
  shows "vs_records disk = [] \<longleftrightarrow> vs_chain disk = None"
  using evidence_load_status(1) [OF assms] by (auto simp: vl.status_ok_def split: option.splits chain_status.splits)

lemma writers_ok_step:
  assumes "writers_ok sha w disk" "addable r" "evidence_add sha (writer_store w i) r = (st', full)"
  shows "writers_ok sha \<lparr>w_file = vs_file st', w_memory = (w_memory w)(i := (vs_records st', vs_chain st'))\<rparr>
    \<lparr>vs_file = vs_file st', vs_records = vs_records disk @ [full], vs_chain = vs_chain st'\<rparr>"
proof -
  have pre: "evidence_load sha (open_evidence (w_file w)) = Inr disk" "complete_file (w_file w)"
      "vs_file (writer_store w i) = w_file w" "in_step (writer_store w i) disk"
    using assms(1) by (auto simp: writers_ok_def writer_store_def)
  note add = evidence_add_spec [OF pre assms(2,3)]
  have "in_step (writer_store \<lparr>w_file = vs_file st', w_memory = (w_memory w)(i := (vs_records st', vs_chain st'))\<rparr> k)
      \<lparr>vs_file = vs_file st', vs_records = vs_records disk @ [full], vs_chain = vs_chain st'\<rparr>" for k
  proof (cases "k = i")
    case True
    then show ?thesis using add(3) by (simp add: in_step_def writer_store_def)
  next
    case False
    have "in_step (writer_store w k) disk" "vs_chain disk \<noteq> Some Legacy" using assms(1) by (auto simp: writers_ok_def)
    moreover have "vs_chain disk = Some Chained" if "vs_records disk \<noteq> []"
      using load_chain_nonempty [OF pre(1)] that assms(1) chain_status.exhaust by (cases "vs_chain disk") (auto simp: writers_ok_def)
    ultimately show ?thesis using False add(4) by (auto simp: in_step_def writer_store_def)
  qed
  moreover have "vs_chain st' \<noteq> Some Legacy" using add(4) assms(1) by (auto simp: writers_ok_def)
  ultimately show ?thesis using add(1,2) by (simp add: writers_ok_def)
qed

lemma writer_steps_ok: "writer_steps sha w \<Longrightarrow> \<exists>disk. writers_ok sha w disk"
proof (induction rule: writer_steps.induct)
  case start
  have "writers_ok sha initial_writers (open_evidence None)"
    by (simp add: writers_ok_def initial_writers_def evidence_load_def open_evidence_def complete_file_def
        in_step_def writer_store_def)
  then show ?case by blast
next
  case (opens w disk i)
  then obtain d where d: "writers_ok sha w d" by blast
  with opens have "d = disk" by (simp add: writers_ok_def)
  with d opens(2) have "writers_ok sha (w\<lparr>w_memory := (w_memory w)(i := (vs_records disk, vs_chain disk))\<rparr>) disk"
    using load_chain_nonempty [OF opens(2)] by (auto simp: writers_ok_def in_step_def writer_store_def)
  then show ?case by blast
next
  case (adds w r i st' full)
  then show ?case using writers_ok_step by blast
qed


definition sample_evidence :: "string \<Rightarrow> evidence_outcome \<Rightarrow> evidence" where
  "sample_evidence crit out =
     \<lparr>ev_id = ''EV-0001'', ev_run_id = ''run-1'', ev_task_id = None, ev_criterion_id = Some crit,
      ev_property_refs = [''REQ-001''], ev_kind = EvCommand, ev_outcome = out, ev_producer = (ByRuntime, None),
      ev_timestamp = ''t1'', ev_revision = ''rev'', ev_red = False, ev_chain = None, ev_payload = JNull, ev_digest = []\<rparr>"


text \<open>
  an add never erases: it appends exactly one record after those on the file, whatever
  the writer remembers, and the next identifier continues the file's numbering when the writer
  had not seen its tail.
\<close>
theorem evidence_add_appends:
  assumes "evidence_load sha (open_evidence file) = Inr disk" "complete_file file" "vs_file st = file" "in_step st disk"
    and "addable r"
  shows "case evidence_add sha st r of (st', full) \<Rightarrow>
    evidence_load sha (open_evidence (vs_file st'))
      = Inr \<lparr>vs_file = vs_file st', vs_records = vs_records disk @ [full], vs_chain = vs_chain st'\<rparr>
    \<and> (vs_records st = [] \<and> vs_records disk \<noteq> [] \<longrightarrow>
        ev_id full = (case evidence_number (ev_id (last (vs_records disk))) of
            Some n \<Rightarrow> evidence_id (n + 1) | None \<Rightarrow> ev_id r))"
proof -
  obtain st' full where add: "evidence_add sha st r = (st', full)" by force
  have "ev_id full = (case evidence_number (ev_id (last (vs_records disk))) of
      Some n \<Rightarrow> evidence_id (n + 1) | None \<Rightarrow> ev_id r)" if "vs_records st = []" "vs_records disk \<noteq> []"
    using add that disk_tail_last [OF assms(1,2)] assms(3)
    by (auto simp: evidence_add_def adopt_disk_tail_def Let_def split: option.splits if_splits)
  with evidence_add_spec(1) [OF assms add] show ?thesis by (simp add: add)
qed

theorem evidence_add_appends_witness:
  "\<exists>st' full. evidence_add (\<lambda>s. s) (open_evidence None) (sample_evidence ''A'' Supports) = (st', full)
     \<and> evidence_load (\<lambda>s. s) (open_evidence (vs_file st'))
       = Inr \<lparr>vs_file = vs_file st', vs_records = [full], vs_chain = vs_chain st'\<rparr>"
proof -
  have pre: "evidence_load (\<lambda>s. s) (open_evidence None) = Inr (open_evidence None)" "complete_file None"
    "vs_file (open_evidence None) = None" "in_step (open_evidence None) (open_evidence None)"
    "addable (sample_evidence ''A'' Supports)"
    by (simp_all add: evidence_load_def open_evidence_def complete_file_def in_step_def addable_def sample_evidence_def)
  obtain st' full where add: "evidence_add (\<lambda>s. s) (open_evidence None) (sample_evidence ''A'' Supports) = (st', full)" by force
  with evidence_add_appends [OF pre] show ?thesis by (simp add: open_evidence_def)
qed

text \<open>
  two chained evidence logs that load and end in the same digest hold the same records, up
  to the key order inside payloads, unless the hash function collides on two of them or maps
  one to the genesis value.
\<close>
theorem evidence_log_tamper_evident:
  assumes "evidence_load sha (open_evidence file) = Inr st" "evidence_load sha (open_evidence file') = Inr st'"
    and "vs_chain st = Some Chained" "vs_chain st' = Some Chained"
    and "ev_digest (last (vs_records st)) = ev_digest (last (vs_records st'))"
  shows "list_all2 same_evidence (vs_records st) (vs_records st')
    \<or> (\<exists>a \<in> set (vs_records st). \<exists>b \<in> set (vs_records st'). evidence_clash sha a b)
    \<or> (\<exists>a \<in> set (vs_records st) \<union> set (vs_records st'). ev_digest a = chain_genesis)"
proof -
  have "vs_records st \<noteq> [] \<and> vl.linked chain_genesis (vs_records st) \<and> list_all (digest_sound sha) (vs_records st)"
    "vs_records st' \<noteq> [] \<and> vl.linked chain_genesis (vs_records st') \<and> list_all (digest_sound sha) (vs_records st')"
    using evidence_load_status(1) [OF assms(1)] evidence_load_status(1) [OF assms(2)] assms(3,4)
    by (auto simp: vl.status_ok_def)
  moreover from this assms(5) have "vl.head (vs_records st) = vl.head (vs_records st')" by (simp add: vl.head_def)
  ultimately show ?thesis
    using vh.same_head [of "vs_records st" "vs_records st'" sha] by (auto simp: vh.tampered_def)
qed

theorem evidence_log_tamper_evident_witness:
  "\<exists>st. evidence_load (\<lambda>s. s) (open_evidence (vs_file st)) = Inr st \<and> vs_records st \<noteq> []
     \<and> (list_all2 same_evidence (vs_records st) (vs_records st)
        \<or> (\<exists>a \<in> set (vs_records st). \<exists>b \<in> set (vs_records st). evidence_clash (\<lambda>s. s) a b)
        \<or> (\<exists>a \<in> set (vs_records st) \<union> set (vs_records st). ev_digest a = chain_genesis))"
proof -
  have pre: "evidence_load (\<lambda>s. s) (open_evidence None) = Inr (open_evidence None)" "complete_file None"
    "vs_file (open_evidence None) = None" "in_step (open_evidence None) (open_evidence None)"
    "addable (sample_evidence ''A'' Supports)"
    by (simp_all add: evidence_load_def open_evidence_def complete_file_def in_step_def addable_def sample_evidence_def)
  obtain st' full where add: "evidence_add (\<lambda>s. s) (open_evidence None) (sample_evidence ''A'' Supports) = (st', full)" by force
  note spec = evidence_add_spec [OF pre add]
  let ?st = "\<lparr>vs_file = vs_file st', vs_records = [full], vs_chain = Some Chained\<rparr>"
  have "evidence_load (\<lambda>s. s) (open_evidence (vs_file st')) = Inr ?st"
    using spec(1,4) by (simp add: open_evidence_def)
  from evidence_log_tamper_evident [OF this this] this show ?thesis
    by (intro exI [of _ ?st]) simp
qed

lemma read_nat_zeros: "read_nat (replicate k CHR ''0'' @ s) = read_nat s"
  by (induction k) (simp_all add: read_nat_def digit_val_def)

text \<open>
  identifiers of evidence number correctly: the number read from the n-th identifier is n,
  so a writer that adopts the tail of the file continues its numbering.
\<close>
theorem evidence_number_id: "evidence_number (evidence_id n) = Some n"
proof -
  have "list_all is_digit (pad_start 4 CHR ''0'' (show_nat n))"
    using show_nat_digits [of _ n] by (auto simp: list_all_iff pad_start_def is_digit_def less_eq_char_def)
  moreover have "pad_start 4 CHR ''0'' (show_nat n) \<noteq> []" by (simp add: pad_start_def)
  ultimately show ?thesis
    by (simp add: evidence_number_def evidence_id_def) (simp add: pad_start_def read_nat_zeros)
qed

section \<open>FollowupStore\<close>

text \<open>The list in memory; \<open>persist\<close> writes it out after every change.\<close>

definition followup_id :: "nat \<Rightarrow> string" where
  "followup_id n = ''F-'' @ pad_start 3 CHR ''0'' (show_nat n)"

definition followup_create :: "followup list \<Rightarrow> followup_draft \<Rightarrow> string \<Rightarrow> string \<Rightarrow> followup list \<times> followup" where
  "followup_create fs draft run now =
     (let f = followup_draft.extend draft
                (followup.fields (followup_id (length fs + 1)) run Open now None None)
      in (fs @ [f], f))"

datatype followup_error = FollowupNotFound string

fun update_first :: "('a \<Rightarrow> bool) \<Rightarrow> ('a \<Rightarrow> 'a) \<Rightarrow> 'a list \<Rightarrow> 'a list" where
  "update_first P f [] = []"
| "update_first P f (x # xs) = (if P x then f x # xs else x # update_first P f xs)"

definition followup_resolve ::
  "followup list \<Rightarrow> string \<Rightarrow> resolution \<Rightarrow> string \<Rightarrow> (followup_error, followup list \<times> followup) result" where
  "followup_resolve fs i res now =
     (case List.find (\<lambda>x. fu_id x = i) fs of
        None \<Rightarrow> Inl (FollowupNotFound i)
      | Some f \<Rightarrow>
          if fu_status f = Resolved then Inr (fs, f)
          else
            (let f' = f\<lparr>fu_status := Resolved, fu_resolved_at := Some now, fu_resolution := Some res\<rparr>
             in Inr (update_first (\<lambda>x. fu_id x = i) (\<lambda>_. f') fs, f')))"

definition open_followups :: "followup list \<Rightarrow> followup list" where
  "open_followups fs = filter (\<lambda>f. fu_status f = Open) fs"

definition open_blocking :: "followup list \<Rightarrow> followup list" where
  "open_blocking fs = filter (\<lambda>f. fu_status f = Open \<and> fu_blocking f) fs"

definition find_open_for_criterion :: "followup list \<Rightarrow> string \<Rightarrow> followup option" where
  "find_open_for_criterion fs crit = List.find (\<lambda>f. fu_status f = Open \<and> fu_criterion_id f = Some crit) fs"

text \<open>The identifiers of a list that only \<open>create\<close> and \<open>resolve\<close> have touched.\<close>

definition numbered :: "followup list \<Rightarrow> bool" where
  "numbered fs \<longleftrightarrow> map fu_id fs = map (\<lambda>n. followup_id (Suc n)) [0..<length fs]"

lemma followup_id_inject [simp]: "followup_id m = followup_id n \<longleftrightarrow> m = n"
proof
  have "read_nat (drop 2 (followup_id n)) = n" for n
    by (simp add: followup_id_def pad_start_def read_nat_zeros)
  then show "followup_id m = followup_id n \<Longrightarrow> m = n" by metis
qed simp

lemma numbered_distinct: "numbered fs \<Longrightarrow> distinct (map fu_id fs)"
  by (simp add: numbered_def distinct_map inj_on_def)

lemma update_first_ids:
  "(\<And>x. P x \<Longrightarrow> g (f x) = g x) \<Longrightarrow> map g (update_first P f xs) = map g xs"
  by (induction xs) auto

lemma update_first_nth:
  assumes "distinct (map g xs)" "i < length xs"
  shows "update_first (\<lambda>x. g x = g (xs ! i)) f xs = xs[i := f (xs ! i)]"
  using assms
proof (induction xs arbitrary: i)
  case (Cons x xs)
  show ?case
  proof (cases i)
    case (Suc k)
    with Cons.prems have "g (xs ! k) \<in> g ` set xs" "g x \<notin> g ` set xs" by auto
    with Cons Suc show ?thesis by auto
  qed simp
qed simp

lemma followup_create_id [simp]:
  "fu_id (snd (followup_create fs draft run now)) = followup_id (length fs + 1)"
  "fu_status (snd (followup_create fs draft run now)) = Open"
  by (simp_all add: followup_create_def followup_draft.extend_def followup.fields_def Let_def)

lemma followup_create_numbered:
  assumes "numbered fs"
  shows "numbered (fst (followup_create fs draft run now)) \<and> fst (followup_create fs draft run now) = fs @ [snd (followup_create fs draft run now)]"
proof -
  have "map fu_id (fs @ [snd (followup_create fs draft run now)]) = map (\<lambda>n. followup_id (Suc n)) [0..<Suc (length fs)]"
    using assms by (simp add: numbered_def)
  then show "numbered (fst (followup_create fs draft run now)) \<and> fst (followup_create fs draft run now) = fs @ [snd (followup_create fs draft run now)]"
    by (simp add: numbered_def followup_create_def Let_def del: upt_Suc)
qed

text \<open>
  resolving a follow-up changes that entry alone and closes it, keeps every identifier, and
  happens once: a second resolution returns the entry with its first answer and changes nothing.
\<close>
theorem followup_resolve_once:
  assumes "numbered fs" "followup_resolve fs i res now = Inr (fs', f)"
  shows "numbered fs' \<and> f \<in> set fs' \<and> fu_id f = i \<and> fu_status f = Resolved
      \<and> (\<exists>k < length fs. fs' = fs[k := f]) \<and> followup_resolve fs' i res' now' = Inr (fs', f)"
proof -
  note r = assms(2)
  note distinct = numbered_distinct [OF assms(1)]
  obtain g where g: "List.find (\<lambda>x. fu_id x = i) fs = Some g" using r
    by (auto simp: followup_resolve_def split: option.splits)
  then obtain k where k: "k < length fs" "fs ! k = g" "fu_id g = i"
    by (auto simp: find_Some_iff)
  have find: "List.find (\<lambda>x. fu_id x = i) (fs[k := h]) = Some h" if "fu_id h = i" for h
    using k that distinct
    by (auto simp: find_Some_iff nth_list_update distinct_conv_nth intro!: exI [of _ k])
  show "numbered fs' \<and> f \<in> set fs' \<and> fu_id f = i \<and> fu_status f = Resolved
      \<and> (\<exists>k < length fs. fs' = fs[k := f]) \<and> followup_resolve fs' i res' now' = Inr (fs', f)"
  proof (cases "fu_status g = Resolved")
    case True
    with r g have "fs' = fs" "f = g" by (auto simp: followup_resolve_def)
    with g k True assms show ?thesis by (auto simp: followup_resolve_def list_update_id intro: exI [of _ k])
  next
    case False
    let ?f = "g\<lparr>fu_status := Resolved, fu_resolved_at := Some now, fu_resolution := Some res\<rparr>"
    from False r g have f: "f = ?f" "fs' = update_first (\<lambda>x. fu_id x = i) (\<lambda>_. ?f) fs"
      by (auto simp: followup_resolve_def Let_def)
    then have fs': "fs' = fs[k := f]" using update_first_nth [OF distinct k(1), of "\<lambda>_. ?f"] k by simp
    have id: "fu_id f = i" using f k by simp
    have "map fu_id fs' = map fu_id fs" using fs' id k by (simp add: map_update list_update_same_conv)
    then have "numbered fs'" using assms fs' by (simp add: numbered_def)
    then show ?thesis using fs' id k f find [OF id]
      by (auto simp: followup_resolve_def set_update_memI intro: exI [of _ k])
  qed
qed

definition sample_draft :: "followup_draft" where
  "sample_draft =
     \<lparr>fu_type = Approval, fu_blocking = True, fu_title = ''t'', fu_description = ''d'', fu_property_id = None,
      fu_task_id = None, fu_options = None, fu_recommended_default = None, fu_criterion_id = None, fu_command = None\<rparr>"

theorem followup_resolve_once_witness:
  "\<exists>fs' f. followup_resolve (fst (followup_create [] sample_draft ''run-1'' ''t1'')) ''F-001''
       \<lparr>res_option_id = None, res_note = None, res_resolved_by = None\<rparr> ''t2'' = Inr (fs', f)
     \<and> numbered fs' \<and> fu_status f = Resolved"
proof -
  let ?fs = "fst (followup_create [] sample_draft ''run-1'' ''t1'')"
  let ?res = "\<lparr>res_option_id = None, res_note = None, res_resolved_by = None\<rparr>"
  have "numbered ?fs" using followup_create_numbered [of "[]"] by (simp add: numbered_def)
  moreover have "\<not> isl (followup_resolve ?fs ''F-001'' ?res ''t2'')" by code_simp
  then have "\<exists>fs' f. followup_resolve ?fs ''F-001'' ?res ''t2'' = Inr (fs', f)"
    by (cases "followup_resolve ?fs ''F-001'' ?res ''t2''") auto
  ultimately show ?thesis using followup_resolve_once [of ?fs "''F-001''" ?res "''t2''" _ _ ?res "''t3''"] by blast
qed

end
