(* ===== verification/Evaluate.thy ===== *)
theory Evaluate
  imports Commands Patch EvidenceLog
begin

text \<open>
  Satisfaction derived from evidence: oracle validity (\<^verbatim>\<open>packages/verifier/src/oracle-validity.ts\<close>)
  and the evaluation of a property (\<^verbatim>\<open>evaluate.ts\<close>), with the adoption of flips from the runs of
  a chain (\<^verbatim>\<open>adoptAncestorFlips\<close> of \<^verbatim>\<open>packages/runtime/src/apply.ts\<close>).
\<close>

section \<open>Oracle validity\<close>

definition r_class :: "string \<Rightarrow> rx" where "r_class cs = RSet (\<lambda>c. c \<in> set cs)"

definition r_digits :: rx where "r_digits = r_plus (RSet is_digit)"

definition test_file :: rx where
  "test_file = r_cat
     [RAlt RBegin (r_class [CHR ''/'', CHR 0x5C]), r_plus (RSet (\<lambda>c. js_word_char c \<or> c \<in> set ''.@-'')), r_lit ''.'',
      r_words [''test'', ''spec''], r_lit ''.'', r_opt (r_class ''cm''), r_class ''jt'', r_lit ''s'', r_opt (r_lit ''x''), REnd]"

definition transform_envelope :: rx where
  "transform_envelope = r_cat [r_lit_i ''Transform failed with '', r_digits, r_lit_i '' error'']"

text \<open>\<open>command.split(/&&|[|][|]|;|[|]/)\<close>\<close>

fun shell_segments :: "string \<Rightarrow> string \<Rightarrow> string list" where
  "shell_segments acc [] = [rev acc]"
| "shell_segments acc [c] = (if c = CHR '';'' \<or> c = CHR ''|'' then [rev acc, []] else [rev (c # acc)])"
| "shell_segments acc (c # d # s) =
     (if c = CHR ''&'' \<and> d = CHR ''&'' \<or> c = CHR ''|'' \<and> d = CHR ''|'' then rev acc # shell_segments [] s
      else if c = CHR '';'' \<or> c = CHR ''|'' then rev acc # shell_segments [] (d # s)
      else shell_segments (c # acc) (d # s))"

text \<open>The words of a text; the split of an empty text is one empty word.\<close>

definition js_words :: "string \<Rightarrow> string list" where
  "js_words s =
     (case foldr (\<lambda>c (w, ws). if js_space c then ([], if w = [] then ws else w # ws) else (c # w, ws)) s ([], []) of
        (w, ws) \<Rightarrow> if w = [] \<and> ws = [] then [[]] else if w = [] then ws else w # ws)"

definition is_quote :: "char \<Rightarrow> bool" where "is_quote c \<longleftrightarrow> c = CHR 0x22 \<or> c = CHR 0x27"

definition strip_quotes :: "string \<Rightarrow> string" where
  "strip_quotes s =
     (let t = (if s \<noteq> [] \<and> is_quote (hd s) then tl s else s)
      in if t \<noteq> [] \<and> is_quote (last t) then butlast t else t)"

definition oracle_paths_from_command :: "string \<Rightarrow> string list" where
  "oracle_paths_from_command command =
     concat (map (\<lambda>seg. filter (rx_test test_file) (map strip_quotes (js_words (trim seg)))) (shell_segments [] command))"

definition posix_basename :: "string \<Rightarrow> string" where
  "posix_basename p = last (split_on CHR ''/'' (rev (dropWhile (\<lambda>c. c = CHR ''/'') (rev p))))"

definition oracle_base :: "string \<Rightarrow> string" where
  "oracle_base p = posix_basename (map (\<lambda>c. if c = CHR 0x5C then CHR ''/'' else c) p)"

text \<open>A located diagnostic: a path, two numbers between colons, and the word that follows.\<close>

definition after_number :: "string \<Rightarrow> string option" where
  "after_number s =
     (case s of
        c # t \<Rightarrow> if c = CHR '':'' \<and> t \<noteq> [] \<and> is_digit (hd t) then Some (dropWhile is_digit t) else None
      | [] \<Rightarrow> None)"

definition after_location :: "string \<Rightarrow> string option" where
  "after_location s =
     Option.bind (after_number s) (\<lambda>t. Option.bind (after_number t) (\<lambda>u.
       case u of
         c # v \<Rightarrow>
           (let w = dropWhile js_space v
            in if c = CHR '':'' \<and> prefix ''ERROR:'' w then Some (drop 6 w) else None)
       | [] \<Rightarrow> None))"

definition path_char :: "char \<Rightarrow> bool" where "path_char c \<longleftrightarrow> \<not> js_space c \<and> c \<noteq> CHR '':''"

definition located_from :: "string \<Rightarrow> string \<Rightarrow> (string \<times> string) option" where
  "located_from pre s =
     (let run = takeWhile path_char s
      in if run = [] then None else map_option (Pair (pre @ run)) (after_location (dropWhile path_char s)))"

definition located :: "string \<Rightarrow> (string \<times> string) option" where
  "located s =
     (let plain = located_from [] s in
      case s of
        c # d # t \<Rightarrow>
          if is_letter c \<and> d = CHR '':'' then
            (case located_from [c, d] t of Some r \<Rightarrow> Some r | None \<Rightarrow> plain)
          else plain
      | _ \<Rightarrow> plain)"

fun diagnostic_paths :: "nat \<Rightarrow> string \<Rightarrow> string list" where
  "diagnostic_paths skip [] = []"
| "diagnostic_paths (Suc n) (c # s) = diagnostic_paths n s"
| "diagnostic_paths 0 (c # s) =
     (case located (c # s) of
        None \<Rightarrow> diagnostic_paths 0 s
      | Some (p, rest) \<Rightarrow> p # diagnostic_paths (length s - length rest) s)"

text \<open>\<open>classifyOracleValidity\<close>: the detail when the oracle is invalid.\<close>

definition classify_oracle_validity :: "string \<Rightarrow> string \<Rightarrow> string option" where
  "classify_oracle_validity command output =
     (if \<not> rx_test transform_envelope output then None
      else
        (case dedup (oracle_paths_from_command command) of
           [oracle] \<Rightarrow>
             (case dedup (map oracle_base (diagnostic_paths 0 output)) of
                [base] \<Rightarrow> if base = oracle_base oracle
                  then Some (''transform error located in the oracle source '' @ oracle) else None
              | _ \<Rightarrow> None)
         | _ \<Rightarrow> None))"

definition payload_field :: "json \<Rightarrow> string \<Rightarrow> json option" where
  "payload_field payload k = (case payload of JObject fs \<Rightarrow> map_of fs k | _ \<Rightarrow> None)"

text \<open>What a template literal makes of a value.\<close>

fun json_text :: "json \<Rightarrow> string" where
  "json_text JNull = ''null''" | "json_text (JBool b) = (if b then ''true'' else ''false'')"
| "json_text (JNum i) = show_int i" | "json_text (JString s) = s"
| "json_text (JArray js) = join_with '','' (map (\<lambda>j. if j = JNull then [] else json_text j) js)"
| "json_text (JObject fs) = ''[object Object]''"

definition text_or_empty :: "json option \<Rightarrow> string" where
  "text_or_empty j = (case j of None \<Rightarrow> [] | Some JNull \<Rightarrow> [] | Some v \<Rightarrow> json_text v)"

definition is_eligible_red :: "evidence_outcome option \<Rightarrow> json \<Rightarrow> bool" where
  "is_eligible_red outcome payload =
     (if payload_field payload ''oracleValidity'' = Some (JString ''invalid'') then False
      else if outcome \<noteq> Some Contradicts then True
      else
        (case payload_field payload ''command'' of
           Some (JString command) \<Rightarrow>
             if command = [] then True
             else classify_oracle_validity command
                    (text_or_empty (payload_field payload ''stdout'') @ [CHR 0x0A]
                      @ text_or_empty (payload_field payload ''stderr'')) = None
         | _ \<Rightarrow> True))"

section \<open>Evaluation of a property\<close>

record evaluation_options =
  eo_allow_agent_only :: bool
  eo_in_progress :: "string list"
  eo_require_red :: bool
  eo_inherited :: "(string \<times> string) list"

datatype verdict_status = VPass | VFail | VIndeterminate | VUnevaluated

record criterion_verdict =
  cv_id :: string
  cv_type :: criterion_type
  cv_status :: verdict_status
  cv_evidence :: "string option"
  cv_detail :: string
  cv_deterministic :: bool
  cv_red :: "red_phase option"

definition latest_step :: "(string \<Rightarrow> evidence option) \<Rightarrow> evidence \<Rightarrow> (string \<Rightarrow> evidence option)" where
  "latest_step m e =
     (case ev_criterion_id e of
        None \<Rightarrow> m
      | Some c \<Rightarrow>
          (case m c of
             None \<Rightarrow> m(c \<mapsto> e)
           | Some current \<Rightarrow> if ev_timestamp current \<le> ev_timestamp e then m(c \<mapsto> e) else m))"

definition latest_by_criterion :: "evidence list \<Rightarrow> (string \<Rightarrow> evidence option)" where
  "latest_by_criterion es = foldl latest_step Map.empty es"

definition is_discriminating :: "acceptance_criterion \<Rightarrow> bool" where
  "is_discriminating c \<longleftrightarrow>
     (type_of_criterion c = TCommand \<or> type_of_criterion c = TFile \<or> type_of_criterion c = TSuite)
     \<and> criterion_discriminating c = Some True"

definition base_verdict :: "acceptance_criterion \<Rightarrow> evidence option \<Rightarrow> criterion_verdict" where
  "base_verdict c found =
     (let v = (\<lambda>status ev detail.
           \<lparr>cv_id = criterion_id c, cv_type = type_of_criterion c, cv_status = status, cv_evidence = ev,
            cv_detail = detail, cv_deterministic = is_deterministic_criterion c, cv_red = None\<rparr>)
      in case found of
           None \<Rightarrow> v VUnevaluated None ''no evidence recorded''
         | Some e \<Rightarrow>
             (case ev_outcome e of
                Supports \<Rightarrow> v VPass (Some (ev_id e)) (kind_text (ev_kind e) @ '' evidence supports'')
              | Contradicts \<Rightarrow> v VFail (Some (ev_id e)) (kind_text (ev_kind e) @ '' evidence contradicts'')
              | Inconclusive \<Rightarrow> v VIndeterminate (Some (ev_id e)) (kind_text (ev_kind e) @ '' evidence inconclusive'')))"

text \<open>The flip rule for a passing discriminating criterion, given its red record and inherited flip.\<close>

definition flip_verdict :: "evidence option \<Rightarrow> string option \<Rightarrow> criterion_verdict \<Rightarrow> criterion_verdict" where
  "flip_verdict red inherited v =
     (let refuse = (\<lambda>detail phase. v\<lparr>cv_status := VIndeterminate, cv_detail := detail, cv_red := Some phase\<rparr>)
      in case red of
           None \<Rightarrow> refuse ''no red-phase evidence recorded; the criterion must fail at the run's base revision'' NoRedEvidence
         | Some r \<Rightarrow>
             (case ev_outcome r of
                Supports \<Rightarrow>
                  (case inherited of
                     Some prior \<Rightarrow> v\<lparr>cv_red := Some Flipped, cv_detail := ''flip established in prior run '' @ prior
                       @ '' (chain inheritance); criterion passed at this base and the transition is recorded in that run's evidence''\<rparr>
                   | None \<Rightarrow> refuse ''criterion passed at base revision; it does not discriminate this change'' PassedAtBase)
              | Contradicts \<Rightarrow>
                  if is_eligible_red (Some Contradicts) (ev_payload r) then v\<lparr>cv_red := Some Flipped\<rparr>
                  else refuse ''baseline red is oracle-invalid or unevaluably so; no red was demonstrated, so no flip is established''
                         NoRedEvidence
              | Inconclusive \<Rightarrow>
                  refuse ''baseline evidence inconclusive; no red was demonstrated, so no flip is established'' NoRedEvidence))"

definition criterion_verdict_of ::
  "evaluation_options \<Rightarrow> (string \<Rightarrow> evidence option) \<Rightarrow> (string \<Rightarrow> evidence option) \<Rightarrow> acceptance_criterion \<Rightarrow> criterion_verdict" where
  "criterion_verdict_of opts latest latest_red c =
     (let v = base_verdict c (latest (criterion_id c))
      in if eo_require_red opts \<and> is_discriminating c \<and> cv_status v = VPass
         then flip_verdict (latest_red (criterion_id c)) (map_of (eo_inherited opts) (criterion_id c)) v
         else v)"

definition red_summary :: "evaluation_options \<Rightarrow> desired_property \<Rightarrow> criterion_verdict list \<Rightarrow> red_phase option" where
  "red_summary opts p vs =
     (if eo_require_red opts \<and> list_ex is_discriminating (dp_acceptance p)
      then Some (if list_ex (\<lambda>v. cv_red v = Some PassedAtBase) vs then PassedAtBase
                 else if list_ex (\<lambda>v. cv_red v = Some NoRedEvidence) vs then NoRedEvidence else Flipped)
      else None)"

definition human_waiver :: "evidence \<Rightarrow> bool" where
  "human_waiver e \<longleftrightarrow> ev_kind e = EvHuman \<and> payload_field (ev_payload e) ''waive'' = Some (JBool True)"

definition inherited_reason :: "criterion_verdict list \<Rightarrow> string option" where
  "inherited_reason vs =
     (let inherited = filter (\<lambda>v. index_from (cv_detail v) ''chain inheritance'' 0 \<noteq> None) vs;
          s = (if 1 < length inherited then ''s'' else [])
      in if inherited = [] then None
         else Some (show_nat (length inherited) @ '' criterion flip'' @ s @ '' established in prior chain run'' @ s @ '' (''
                @ join_with '', '' (map cv_id inherited) @ '')''))"

text \<open>The aggregation of the verdicts: status, reason and the weak-evidence mark.\<close>

definition aggregate ::
  "evaluation_options \<Rightarrow> string \<Rightarrow> criterion_verdict list \<Rightarrow> requirement_status \<times> string option \<times> bool option" where
  "aggregate opts pid vs =
     (let pass = (\<lambda>P. list_ex (\<lambda>v. cv_status v = VPass \<and> P v) vs)
      in case List.find (\<lambda>v. cv_status v = VFail) vs of
           Some v \<Rightarrow> (Unsatisfied, Some (''criterion '' @ cv_id v @ '' contradicted ('' @ cv_detail v @ '')''), None)
         | None \<Rightarrow>
             (case List.find (\<lambda>v. cv_status v = VIndeterminate) vs of
                Some v \<Rightarrow> (Indeterminate, Some (''criterion '' @ cv_id v @ '' inconclusive ('' @ cv_detail v @ '')''), None)
              | None \<Rightarrow>
                  (case List.find (\<lambda>v. cv_status v = VUnevaluated) vs of
                     Some v \<Rightarrow> (if pid \<in> set (eo_in_progress opts) then InProgress else requirement_status.Unknown,
                        Some (''criterion '' @ cv_id v @ '' not yet evaluated''), None)
                   | None \<Rightarrow>
                       if \<not> pass cv_deterministic \<and> pass (\<lambda>v. cv_type v = TAgent) \<and> \<not> eo_allow_agent_only opts
                       then (Indeterminate, Some ''verified only by agent evaluation; set verification.allowAgentOnlyMustRequirements to accept agent-only evidence'',
                             Some True)
                       else (Satisfied, inherited_reason vs, if pass cv_deterministic then None else Some True))))"

definition relevant_evidence :: "desired_property \<Rightarrow> evidence list \<Rightarrow> evidence list" where
  "relevant_evidence p es = filter (\<lambda>e. dp_id p \<in> set (ev_property_refs e)) es"

definition property_verdicts :: "desired_property \<Rightarrow> evidence list \<Rightarrow> evaluation_options \<Rightarrow> criterion_verdict list" where
  "property_verdicts p es opts =
     (let relevant = relevant_evidence p es;
          latest = latest_by_criterion (filter (\<lambda>e. \<not> ev_red e) relevant);
          latest_red = (if eo_require_red opts then latest_by_criterion (filter ev_red relevant) else Map.empty)
      in map (criterion_verdict_of opts latest latest_red) (dp_acceptance p))"

definition evaluate_property ::
  "desired_property \<Rightarrow> evidence list \<Rightarrow> evaluation_options \<Rightarrow> string \<Rightarrow> requirement_state" where
  "evaluate_property p es opts now =
     (case List.find human_waiver (relevant_evidence p es) of
        Some w \<Rightarrow> \<lparr>rs_property_id = dp_id p, rs_status = Waived, rs_evidence_ids = [ev_id w], rs_updated_at = now,
                   rs_reason = Some ''explicitly waived by human decision'', rs_weak_evidence = None, rs_red_phase = None\<rparr>
      | None \<Rightarrow>
          (let vs = property_verdicts p es opts in
           case aggregate opts (dp_id p) vs of
             (status, reason, weak) \<Rightarrow>
               \<lparr>rs_property_id = dp_id p, rs_status = status, rs_evidence_ids = List.map_filter cv_evidence vs,
                rs_updated_at = now, rs_reason = reason, rs_weak_evidence = weak, rs_red_phase = red_summary opts p vs\<rparr>))"

definition must_properties_satisfied :: "desired_property list \<Rightarrow> (string \<Rightarrow> requirement_state option) \<Rightarrow> bool" where
  "must_properties_satisfied ps states =
     list_all (\<lambda>p. case states (dp_id p) of
                 None \<Rightarrow> False
               | Some s \<Rightarrow> rs_status s = Satisfied \<or> rs_status s = Waived)
       (filter (\<lambda>p. dp_priority p = Must) ps)"

section \<open>Flips of the ancestors\<close>

text \<open>
  A record of an ancestor's file is read without validation: criterion, outcome, phase and
  payload. The map of flips keeps the first run that established one.
\<close>

record flip_record =
  fr_criterion :: "string option"
  fr_outcome :: "string option"
  fr_phase :: "string option"
  fr_payload :: json

definition saw_red :: "flip_record \<Rightarrow> bool" where
  "saw_red r \<longleftrightarrow> fr_phase r = Some ''red'' \<and> fr_outcome r = Some ''contradicts'' \<and> is_eligible_red (Some Contradicts) (fr_payload r)"

definition saw_green :: "flip_record \<Rightarrow> bool" where
  "saw_green r \<longleftrightarrow> fr_phase r \<noteq> Some ''red'' \<and> fr_outcome r = Some ''supports''"

definition seen_criteria :: "(flip_record \<Rightarrow> bool) \<Rightarrow> flip_record list \<Rightarrow> string list" where
  "seen_criteria P rs = dedup (List.map_filter (\<lambda>r. if P r then (case fr_criterion r of Some c \<Rightarrow> if c = [] then None else Some c | None \<Rightarrow> None) else None) rs)"

definition adopt_ancestor_flips ::
  "flip_record list \<Rightarrow> string \<Rightarrow> (string \<times> string) list \<Rightarrow> (string \<times> string) list" where
  "adopt_ancestor_flips rs prior flips =
     foldl (\<lambda>fl c. if c \<in> set (seen_criteria saw_red rs) \<and> map_of fl c = None then map_set c prior fl else fl)
       flips (seen_criteria saw_green rs)"

section \<open>What satisfaction means\<close>

text \<open>The record in force for a criterion: of the latest time stamp, the last of those.\<close>

definition in_force :: "evidence list \<Rightarrow> string \<Rightarrow> evidence \<Rightarrow> bool" where
  "in_force es c e \<longleftrightarrow>
     (\<exists>xs ys. es = xs @ e # ys \<and> ev_criterion_id e = Some c
        \<and> (\<forall>x \<in> set xs. ev_criterion_id x = Some c \<longrightarrow> ev_timestamp x \<le> ev_timestamp e)
        \<and> (\<forall>y \<in> set ys. ev_criterion_id y = Some c \<longrightarrow> ev_timestamp y < ev_timestamp e))"

lemma latest_by_criterion_snoc:
  "latest_by_criterion (es @ [e]) = latest_step (latest_by_criterion es) e"
  by (simp add: latest_by_criterion_def)

lemma latest_some: "latest_by_criterion es c = Some e \<Longrightarrow> in_force es c e"
  and latest_none: "latest_by_criterion es c = None \<longleftrightarrow> (\<forall>e \<in> set es. ev_criterion_id e \<noteq> Some c)"
proof (induction es arbitrary: e rule: rev_induct)
  case Nil
  { case 1 then show ?case by (simp add: latest_by_criterion_def) }
  { case 2 then show ?case by (simp add: latest_by_criterion_def) }
next
  case (snoc x es)
  { case 1
    show ?case
    proof (cases "e = x \<and> ev_criterion_id x = Some c")
      case True
      have "\<forall>y \<in> set es. ev_criterion_id y = Some c \<longrightarrow> ev_timestamp y \<le> ev_timestamp x"
      proof (cases "latest_by_criterion es c")
        case None
        then show ?thesis using snoc.IH(2) by simp
      next
        case (Some cur)
        from snoc.IH(1) [OF Some] obtain xs ys where cur: "es = xs @ cur # ys"
          "\<forall>x \<in> set xs. ev_criterion_id x = Some c \<longrightarrow> ev_timestamp x \<le> ev_timestamp cur"
          "\<forall>y \<in> set ys. ev_criterion_id y = Some c \<longrightarrow> ev_timestamp y < ev_timestamp cur"
          by (auto simp: in_force_def)
        have "ev_timestamp cur \<le> ev_timestamp x"
        proof (rule ccontr)
          assume later: "\<not> ?thesis"
          then have "cur = x" using 1 True Some by (auto simp: latest_by_criterion_snoc latest_step_def split: if_splits)
          with later show False by simp
        qed
        with cur show ?thesis by (auto intro: order_trans less_imp_le)
      qed
      with True show ?thesis unfolding in_force_def by (intro exI [of _ es] exI [of _ "[]"]) simp
    next
      case False
      then have old: "latest_by_criterion es c = Some e"
        using 1 by (auto simp: latest_by_criterion_snoc latest_step_def split: option.splits if_splits)
      then obtain xs ys where e: "es = xs @ e # ys" "ev_criterion_id e = Some c"
          "\<forall>x \<in> set xs. ev_criterion_id x = Some c \<longrightarrow> ev_timestamp x \<le> ev_timestamp e"
          "\<forall>y \<in> set ys. ev_criterion_id y = Some c \<longrightarrow> ev_timestamp y < ev_timestamp e"
        using snoc.IH(1) by (auto simp: in_force_def)
      have "ev_criterion_id x = Some c \<longrightarrow> ev_timestamp x < ev_timestamp e"
        using 1 old False by (auto simp: latest_by_criterion_snoc latest_step_def split: if_splits)
      with e show ?thesis unfolding in_force_def by (intro exI [of _ xs] exI [of _ "ys @ [x]"]) auto
    qed }
  { case 2
    show ?case using snoc.IH(2)
      by (auto simp: latest_by_criterion_snoc latest_step_def split: option.splits if_splits) }
qed

lemma in_force_unique: "in_force es c e \<Longrightarrow> in_force es c e' \<Longrightarrow> e = e'"
proof -
  assume "in_force es c e" "in_force es c e'"
  then obtain xs ys xs' ys' where
    e: "es = xs @ e # ys" "ev_criterion_id e = Some c"
      "\<forall>x \<in> set xs. ev_criterion_id x = Some c \<longrightarrow> ev_timestamp x \<le> ev_timestamp e"
      "\<forall>y \<in> set ys. ev_criterion_id y = Some c \<longrightarrow> ev_timestamp y < ev_timestamp e" and
    e': "es = xs' @ e' # ys'" "ev_criterion_id e' = Some c"
      "\<forall>x \<in> set xs'. ev_criterion_id x = Some c \<longrightarrow> ev_timestamp x \<le> ev_timestamp e'"
      "\<forall>y \<in> set ys'. ev_criterion_id y = Some c \<longrightarrow> ev_timestamp y < ev_timestamp e'"
    unfolding in_force_def by blast
  from e(1) e'(1) have "xs @ e # ys = xs' @ e' # ys'" by simp
  then obtain us where "xs = xs' @ us \<and> us @ e # ys = e' # ys' \<or> xs @ us = xs' \<and> e # ys = us @ e' # ys'"
    unfolding append_eq_append_conv2 by blast
  then show "e = e'"
  proof (elim disjE conjE)
    assume us: "xs = xs' @ us" "us @ e # ys = e' # ys'"
    show ?thesis
    proof (cases us)
      case (Cons u vs)
      with us have "e' \<in> set xs" "e \<in> set ys'" by auto
      with e(2,3) e'(2,4) have "ev_timestamp e' \<le> ev_timestamp e" "ev_timestamp e < ev_timestamp e'" by blast+
      then show ?thesis by simp
    qed (use us in simp)
  next
    assume us: "xs @ us = xs'" "e # ys = us @ e' # ys'"
    show ?thesis
    proof (cases us)
      case (Cons u vs)
      with us have "e \<in> set xs'" "e' \<in> set ys" by auto
      with e(2,4) e'(2,3) have "ev_timestamp e \<le> ev_timestamp e'" "ev_timestamp e' < ev_timestamp e" by blast+
      then show ?thesis by simp
    qed (use us in simp)
  qed
qed

lemma latest_iff: "latest_by_criterion es c = Some e \<longleftrightarrow> in_force es c e"
proof
  assume f: "in_force es c e"
  then have "e \<in> set es" "ev_criterion_id e = Some c" by (auto simp: in_force_def)
  then obtain e' where "latest_by_criterion es c = Some e'" using latest_none by fast
  with latest_some in_force_unique [OF f] show "latest_by_criterion es c = Some e" by blast
qed (rule latest_some)

text \<open>A criterion is demonstrated by the records of the result and, when it discriminates, of the base.\<close>

definition flip_demonstrated :: "evaluation_options \<Rightarrow> evidence list \<Rightarrow> string \<Rightarrow> bool" where
  "flip_demonstrated opts es c \<longleftrightarrow>
     (\<exists>r. in_force (filter ev_red es) c r
        \<and> (ev_outcome r = Contradicts \<and> is_eligible_red (Some Contradicts) (ev_payload r)
           \<or> ev_outcome r = Supports \<and> map_of (eo_inherited opts) c \<noteq> None))"

definition demonstrated :: "evaluation_options \<Rightarrow> evidence list \<Rightarrow> acceptance_criterion \<Rightarrow> bool" where
  "demonstrated opts es c \<longleftrightarrow>
     (\<exists>e. in_force (filter (\<lambda>e. \<not> ev_red e) es) (criterion_id c) e \<and> ev_outcome e = Supports)
     \<and> (eo_require_red opts \<and> is_discriminating c \<longrightarrow> flip_demonstrated opts es (criterion_id c))"

lemma base_verdict_pass: "cv_status (base_verdict c found) = VPass \<longleftrightarrow> (\<exists>e. found = Some e \<and> ev_outcome e = Supports)"
  by (simp add: base_verdict_def Let_def split: option.splits evidence_outcome.splits)

lemma base_verdict_fields [simp]:
  "cv_type (base_verdict c found) = type_of_criterion c" "cv_deterministic (base_verdict c found) = is_deterministic_criterion c"
  "cv_id (base_verdict c found) = criterion_id c"
  by (simp_all add: base_verdict_def Let_def split: option.splits evidence_outcome.splits)

lemma flip_verdict_fields [simp]:
  "cv_type (flip_verdict red inh v) = cv_type v" "cv_deterministic (flip_verdict red inh v) = cv_deterministic v"
  "cv_id (flip_verdict red inh v) = cv_id v"
  by (simp_all add: flip_verdict_def Let_def split: option.splits evidence_outcome.splits)

lemma flip_verdict_pass:
  "cv_status v = VPass \<Longrightarrow> cv_status (flip_verdict red inh v) = VPass \<longleftrightarrow>
     (\<exists>r. red = Some r \<and> (ev_outcome r = Contradicts \<and> is_eligible_red (Some Contradicts) (ev_payload r)
        \<or> ev_outcome r = Supports \<and> inh \<noteq> None))"
  by (simp add: flip_verdict_def Let_def split: option.splits evidence_outcome.splits)

lemma criterion_verdict_fields [simp]:
  "cv_type (criterion_verdict_of opts l lr c) = type_of_criterion c"
  "cv_deterministic (criterion_verdict_of opts l lr c) = is_deterministic_criterion c"
  by (simp_all add: criterion_verdict_of_def Let_def)

lemma criterion_verdict_pass:
  "cv_status (criterion_verdict_of opts (latest_by_criterion (filter (\<lambda>e. \<not> ev_red e) es))
      (if eo_require_red opts then latest_by_criterion (filter ev_red es) else Map.empty) c) = VPass
   \<longleftrightarrow> demonstrated opts es c"
  unfolding criterion_verdict_of_def Let_def demonstrated_def flip_demonstrated_def
  by (auto simp: base_verdict_pass flip_verdict_pass latest_iff)

lemma aggregate_satisfied:
  "fst (aggregate opts pid vs) = Satisfied \<longleftrightarrow>
     (\<forall>v \<in> set vs. cv_status v = VPass)
     \<and> (eo_allow_agent_only opts \<or> (\<exists>v \<in> set vs. cv_deterministic v) \<or> \<not> (\<exists>v \<in> set vs. cv_type v = TAgent))"
proof (cases "\<forall>v \<in> set vs. cv_status v = VPass")
  case True
  then have "List.find (\<lambda>v. cv_status v = st) vs = None" if "st \<noteq> VPass" for st
    using that by (auto simp: find_None_iff)
  with True show ?thesis by (auto simp: aggregate_def Let_def list_ex_iff)
next
  case False
  then obtain v where v: "v \<in> set vs" "cv_status v \<noteq> VPass" by blast
  then have "List.find (\<lambda>v. cv_status v = cv_status v0) vs \<noteq> None" if "v0 = v" for v0
    using that by (auto simp: find_None_iff)
  with v False show ?thesis
    by (cases "cv_status v") (auto simp: aggregate_def Let_def split: option.splits)
qed

lemma satisfied_iff:
  "rs_status (evaluate_property p es opts now) = Satisfied \<longleftrightarrow>
     \<not> list_ex human_waiver (relevant_evidence p es)
     \<and> list_all (demonstrated opts (relevant_evidence p es)) (dp_acceptance p)
     \<and> (eo_allow_agent_only opts \<or> list_ex is_deterministic_criterion (dp_acceptance p)
        \<or> list_all (\<lambda>c. type_of_criterion c \<noteq> TAgent) (dp_acceptance p))"
proof (cases "List.find human_waiver (relevant_evidence p es)")
  case None
  have "rs_status (evaluate_property p es opts now) = fst (aggregate opts (dp_id p) (property_verdicts p es opts))"
    by (simp add: evaluate_property_def None Let_def split: prod.splits)
  with None show ?thesis
    by (simp add: aggregate_satisfied property_verdicts_def Let_def criterion_verdict_pass list_ex_iff list_all_iff find_None_iff)
next
  case (Some w)
  then show ?thesis by (auto simp: evaluate_property_def list_ex_iff dest: find_SomeD)
qed

text \<open>
  C10: a property is satisfied exactly when no human waived it, every criterion is demonstrated by
  the evidence in force, and not by agents alone unless the configuration accepts that. A
  criterion is demonstrated by a supporting record of the result and, when it discriminates and
  the red phase is required, by an eligible failure at the base or a flip inherited from the chain.
\<close>
theorem satisfied_exact:
  "rs_status (evaluate_property p es opts now) = Satisfied \<longleftrightarrow>
     \<not> list_ex human_waiver (relevant_evidence p es)
     \<and> list_all (demonstrated opts (relevant_evidence p es)) (dp_acceptance p)
     \<and> (eo_allow_agent_only opts \<or> list_ex is_deterministic_criterion (dp_acceptance p)
        \<or> list_all (\<lambda>c. type_of_criterion c \<noteq> TAgent) (dp_acceptance p))"
  by (rule satisfied_iff)


lemma seen_criteria_iff: "c \<in> set (seen_criteria P rs) \<longleftrightarrow> c \<noteq> [] \<and> (\<exists>r \<in> set rs. P r \<and> fr_criterion r = Some c)"
  by (auto simp: seen_criteria_def List.map_filter_def image_iff split: option.splits if_splits)

text \<open>
  the chain's flips are exactly those recorded: after an ancestor is adopted, a criterion
  maps to the run it mapped to before, or else to this ancestor when its evidence holds an
  eligible red and a green for the criterion.
\<close>
theorem ancestor_flips_exact:
  "map_of (adopt_ancestor_flips rs prior flips) c = Some run \<longleftrightarrow>
     map_of flips c = Some run
     \<or> map_of flips c = None \<and> run = prior \<and> c \<noteq> []
       \<and> list_ex (\<lambda>r. saw_red r \<and> fr_criterion r = Some c) rs
       \<and> list_ex (\<lambda>r. saw_green r \<and> fr_criterion r = Some c) rs"
proof -
  let ?step = "\<lambda>fl d. if d \<in> set (seen_criteria saw_red rs) \<and> map_of fl d = None then map_set d prior fl else fl"
  have "map_of (foldl ?step fl cs) c = Some run \<longleftrightarrow>
      map_of fl c = Some run \<or> map_of fl c = None \<and> run = prior \<and> c \<in> set cs \<and> c \<in> set (seen_criteria saw_red rs)" for fl cs
  proof (induction cs arbitrary: fl)
    case (Cons d cs)
    show ?case by (auto simp: Cons.IH)
  qed simp
  then show ?thesis by (auto simp: adopt_ancestor_flips_def seen_criteria_iff list_ex_iff)
qed

end
