(* ===== verification/CommandCache.thy ===== *)
theory CommandCache
  imports Evaluate Json
begin

text \<open>
  The persisted command cache of standalone verification, \<^verbatim>\<open>packages/verifier/src/command-cache.ts\<close>:
  the scope a command names, the package directories of the workspace it covers, the digests of
  their sources and build results, and the reuse of a recorded run. The working tree is a tree of
  files; a path is the list of its components below the root.
\<close>

section \<open>The scope of a command\<close>

record cache_scope =
  sc_packages :: "string list option"
  sc_with_deps :: bool

text \<open>\<open>split\<close> at \<open>&&\<close>, \<open>||\<close> and \<open>;\<close>, white space around them dropped.\<close>

fun command_pieces :: "string \<Rightarrow> string \<Rightarrow> string list" where
  "command_pieces acc [] = [rev acc]"
| "command_pieces acc [c] = (if c = CHR '';'' then [rev acc, []] else [rev (c # acc)])"
| "command_pieces acc (c # d # s) =
     (if c = CHR ''&'' \<and> d = CHR ''&'' \<or> c = CHR ''|'' \<and> d = CHR ''|'' then rev acc # command_pieces [] s
      else if c = CHR '';'' then rev acc # command_pieces [] (d # s)
      else command_pieces (c # acc) (d # s))"

definition command_segments :: "string \<Rightarrow> string list" where
  "command_segments command = filter (\<lambda>s. s \<noteq> []) (map trim (command_pieces [] (trim command)))"

record scope_scan =
  ss_filters :: "string list"
  ss_with_deps :: bool
  ss_scope :: bool
  ss_recursive :: bool

definition ends_with :: "string \<Rightarrow> string \<Rightarrow> bool" where
  "ends_with suf s \<longleftrightarrow> length suf \<le> length s \<and> drop (length s - length suf) s = suf"

definition add_filter :: "string \<Rightarrow> scope_scan \<Rightarrow> scope_scan" where
  "add_filter spec st =
     (if ends_with ''...'' spec
      then st\<lparr>ss_filters := ss_filters st @ [take (length spec - 3) spec], ss_with_deps := True, ss_scope := True\<rparr>
      else st\<lparr>ss_filters := ss_filters st @ [spec], ss_scope := True\<rparr>)"

fun scan_tokens :: "string list \<Rightarrow> scope_scan \<Rightarrow> scope_scan" where
  "scan_tokens [] st = st"
| "scan_tokens [t] st =
     (if t = ''-r'' \<or> t = ''--recursive'' then st\<lparr>ss_recursive := True, ss_scope := True\<rparr>
      else if prefix ''--filter='' t then add_filter (drop 9 t) st else st)"
| "scan_tokens (t # u # ts) st =
     (if t = ''-r'' \<or> t = ''--recursive'' then scan_tokens (u # ts) (st\<lparr>ss_recursive := True, ss_scope := True\<rparr>)
      else if prefix ''--filter='' t then scan_tokens (u # ts) (add_filter (drop 9 t) st)
      else if t = ''--filter'' then scan_tokens ts (add_filter u st)
      else scan_tokens (u # ts) st)"

definition scan_segment :: "scope_scan \<Rightarrow> string \<Rightarrow> scope_scan" where
  "scan_segment st seg =
     (case js_words seg of
        [] \<Rightarrow> st
      | t # ts \<Rightarrow> if t = ''pnpm'' then scan_tokens ts st else st)"

definition parse_filter_scope :: "string \<Rightarrow> cache_scope option" where
  "parse_filter_scope command =
     (let st = foldl scan_segment \<lparr>ss_filters = [], ss_with_deps = False, ss_scope = False, ss_recursive = False\<rparr>
                 (command_segments command)
      in if \<not> ss_scope st then None
         else if ss_recursive st then Some \<lparr>sc_packages = None, sc_with_deps = True\<rparr>
         else Some \<lparr>sc_packages = Some (sort_unique (ss_filters st)), sc_with_deps = ss_with_deps st\<rparr>)"

section \<open>The workspace\<close>

datatype fs_node = FsFile string | FsDir "(string \<times> fs_node) list"

fun fs_at :: "fs_node \<Rightarrow> string list \<Rightarrow> fs_node option" where
  "fs_at n [] = Some n"
| "fs_at (FsFile _) (s # ss) = None"
| "fs_at (FsDir es) (s # ss) = (case map_of es s of None \<Rightarrow> None | Some n \<Rightarrow> fs_at n ss)"

definition fs_text :: "fs_node \<Rightarrow> string list \<Rightarrow> string option" where
  "fs_text root p = (case fs_at root p of Some (FsFile t) \<Rightarrow> Some t | _ \<Rightarrow> None)"

definition is_dir :: "fs_node \<Rightarrow> bool" where
  "is_dir n = (case n of FsDir _ \<Rightarrow> True | FsFile _ \<Rightarrow> False)"

definition norm_path :: "string \<Rightarrow> string list" where
  "norm_path p =
     foldl (\<lambda>acc s. if s = [] \<or> s = ''.'' then acc else if s = ''..'' then butlast acc else acc @ [s]) [] (split_on CHR ''/'' p)"

text \<open>\<open>JSON.parse\<close> of the manifest of a directory that has one; the error is what it throws.\<close>

definition manifest :: "fs_node \<Rightarrow> string list \<Rightarrow> (string, (string \<times> json) list) result" where
  "manifest root dir =
     (case fs_text root (dir @ [''package.json'']) of
        None \<Rightarrow> Inl ''unreadable package.json''
      | Some t \<Rightarrow>
          (case json_parse t of
             None \<Rightarrow> Inl ''invalid JSON''
           | Some JNull \<Rightarrow> Inl ''null''
           | Some (JObject fs) \<Rightarrow> Inr fs
           | Some _ \<Rightarrow> Inr []))"

definition manifest_name :: "(string \<times> json) list \<Rightarrow> string option" where
  "manifest_name fs = (case map_of fs ''name'' of Some (JString s) \<Rightarrow> if s = [] then None else Some s | _ \<Rightarrow> None)"

definition add_package ::
  "fs_node \<Rightarrow> string list \<Rightarrow> (string \<times> string list) list \<Rightarrow> (string, (string \<times> string list) list) result" where
  "add_package root dir by_name =
     (if fs_at root (dir @ [''package.json'']) = None then Inr by_name
      else bind_result (manifest root dir) (\<lambda>fs.
        Inr (case manifest_name fs of None \<Rightarrow> by_name | Some n \<Rightarrow> map_set n dir by_name)))"

fun add_packages ::
  "fs_node \<Rightarrow> string list list \<Rightarrow> (string \<times> string list) list \<Rightarrow> (string, (string \<times> string list) list) result" where
  "add_packages root [] by_name = Inr by_name"
| "add_packages root (d # ds) by_name = bind_result (add_package root d by_name) (add_packages root ds)"

text \<open>\<open>/^\s*-\s*(\S+)/\<close>\<close>

definition glob_of_line :: "string \<Rightarrow> string option" where
  "glob_of_line line =
     (case dropWhile js_space line of
        c # s \<Rightarrow>
          (let g = takeWhile (\<lambda>c. \<not> js_space c) (dropWhile js_space s)
           in if c = CHR ''-'' \<and> g \<noteq> [] then Some g else None)
      | [] \<Rightarrow> None)"

definition glob_dirs :: "fs_node \<Rightarrow> string \<Rightarrow> (string, string list list) result" where
  "glob_dirs root g =
     (if CHR ''*'' \<notin> set g then Inr [norm_path g]
      else
        (let dir = norm_path (takeWhile (\<lambda>c. c \<noteq> CHR ''*'') g) in
         case fs_at root dir of
           None \<Rightarrow> Inr []
         | Some (FsFile _) \<Rightarrow> Inl ''ENOTDIR''
         | Some (FsDir es) \<Rightarrow>
             Inr (map (\<lambda>(n, c). dir @ [n]) (filter (\<lambda>(n, c). is_dir c \<and> fs_at c [''package.json''] \<noteq> None) es))))"

fun glob_packages ::
  "fs_node \<Rightarrow> string list \<Rightarrow> (string \<times> string list) list \<Rightarrow> (string, (string \<times> string list) list) result" where
  "glob_packages root [] by_name = Inr by_name"
| "glob_packages root (g # gs) by_name =
     bind_result (glob_dirs root g) (\<lambda>ds. bind_result (add_packages root ds by_name) (glob_packages root gs))"

definition workspace_package_dirs :: "fs_node \<Rightarrow> (string, (string \<times> string list) list) result" where
  "workspace_package_dirs root =
     (case fs_at root [''pnpm-workspace.yaml''] of
        None \<Rightarrow> add_package root [] []
      | Some (FsDir _) \<Rightarrow> Inl ''EISDIR''
      | Some (FsFile t) \<Rightarrow> glob_packages root (List.map_filter glob_of_line (split_on CHR 0x0A t)) [])"

definition workspace_deps :: "(string \<times> json) list \<Rightarrow> string list" where
  "workspace_deps fs =
     concat (map (\<lambda>k. case map_of fs k of
         Some (JObject ds) \<Rightarrow> map fst (filter (\<lambda>(d, v). prefix ''workspace:'' (json_text v)) (own_key_order ds))
       | _ \<Rightarrow> []) [''dependencies'', ''devDependencies''])"

text \<open>The queue of \<open>resolveScopeDirs\<close>; each member of the workspace is entered once.\<close>

definition unseen_members :: "(string \<times> string list) list \<Rightarrow> string list \<Rightarrow> nat" where
  "unseen_members by_name seen = card (fst ` set by_name - set seen)"

function scope_queue ::
  "fs_node \<Rightarrow> (string \<times> string list) list \<Rightarrow> bool \<Rightarrow> string list \<Rightarrow> string list \<Rightarrow> string list list
     \<Rightarrow> (string, string list list) result" where
  "scope_queue root by_name deps [] seen dirs = Inr dirs"
| "scope_queue root by_name deps (n # queue) seen dirs =
     (if n \<in> set seen then scope_queue root by_name deps queue seen dirs
      else
        (case map_of by_name n of
           None \<Rightarrow> scope_queue root by_name deps queue (n # seen) dirs
         | Some dir \<Rightarrow>
             if \<not> deps then scope_queue root by_name deps queue (n # seen) (dirs @ [dir])
             else
               (case manifest root dir of
                  Inl err \<Rightarrow> Inl err
                | Inr fs \<Rightarrow>
                    scope_queue root by_name deps
                      (queue @ filter (\<lambda>d. d \<notin> set (n # seen)) (workspace_deps fs)) (n # seen) (dirs @ [dir]))))"
  by pat_completeness auto

lemma unseen_members_le: "unseen_members by_name (n # seen) \<le> unseen_members by_name seen"
  unfolding unseen_members_def by (rule card_mono) auto

lemma unseen_members_less:
  assumes "n \<notin> set seen" "map_of by_name n = Some dir"
  shows "unseen_members by_name (n # seen) < unseen_members by_name seen"
proof -
  have "n \<in> fst ` set by_name - set seen" using assms map_of_SomeD [OF assms(2)] by force
  then have "fst ` set by_name - set (n # seen) \<subset> fst ` set by_name - set seen" by auto
  then show ?thesis unfolding unseen_members_def by (rule psubset_card_mono [rotated]) simp
qed

termination scope_queue
proof (relation "measures [\<lambda>(root, by_name, deps, queue, seen, dirs). unseen_members by_name seen,
                          \<lambda>(root, by_name, deps, queue, seen, dirs). length queue]", goal_cases)
  case (3 root by_name deps n queue seen dirs)
  then show ?case using unseen_members_le [of by_name n seen] by (simp add: le_eq_less_or_eq)
qed (simp_all add: unseen_members_less)

definition resolve_scope_dirs :: "fs_node \<Rightarrow> cache_scope \<Rightarrow> (string, string list list) result" where
  "resolve_scope_dirs root scope =
     bind_result (workspace_package_dirs root) (\<lambda>by_name.
       case sc_packages scope of
         None \<Rightarrow> Inr (dedup (map snd by_name))
       | Some ps \<Rightarrow> bind_result (scope_queue root by_name (sc_with_deps scope) ps [] []) (\<lambda>ds. Inr (dedup ds)))"
section \<open>Digests of a scope\<close>

text \<open>\<open>path.relative(root, dir)\<close>: empty for the root itself.\<close>

definition relative :: "string list \<Rightarrow> string" where "relative dir = join_with ''/'' dir"

definition tracked_files :: "string option \<Rightarrow> string list list \<Rightarrow> string list" where
  "tracked_files listing dirs =
     (if dirs = [] then []
      else
        (case listing of
           None \<Rightarrow> []
         | Some out \<Rightarrow>
             sort (filter (\<lambda>f. list_ex (\<lambda>d. prefix (relative d @ ''/'') f \<or> f @ ''/'' = relative d) dirs)
               (filter (\<lambda>f. index_from f ''node_modules'' 0 = None \<and> ''dist'' \<notin> set (split_on CHR ''/'' f))
                 (filter (\<lambda>f. f \<noteq> []) (split_on CHR 0x0A out))))))"

definition nul :: string where "nul = [CHR 0x00]"

fun source_text :: "fs_node \<Rightarrow> string list \<Rightarrow> (string, string) result" where
  "source_text root [] = Inr []"
| "source_text root (f # fs) =
     (case fs_text root (norm_path f) of
        None \<Rightarrow> Inl ''ENOENT''
      | Some t \<Rightarrow> bind_result (source_text root fs) (\<lambda>rest. Inr (f @ nul @ t @ nul @ rest)))"

definition source_digest :: "(string \<Rightarrow> string) \<Rightarrow> fs_node \<Rightarrow> string option \<Rightarrow> string list list \<Rightarrow> (string, string) result" where
  "source_digest sha root listing dirs =
     bind_result (source_text root (tracked_files listing dirs)) (\<lambda>t. Inr (''sha256:'' @ sha t))"

text \<open>The files below a directory in the order of the walk, with the path the hash sees.\<close>

fun dist_walk :: "string \<Rightarrow> fs_node \<Rightarrow> (string \<times> string) list" where
  "dist_walk rel (FsFile t) = [(rel, t)]"
| "dist_walk rel (FsDir es) =
     concat (map snd (sort_key fst
       (map (\<lambda>e. (fst e, dist_walk (if rel = [] then fst e else rel @ ''/'' @ fst e) (snd e))) es)))"

fun dist_files :: "fs_node \<Rightarrow> string list list \<Rightarrow> (string, (string \<times> string) list) result" where
  "dist_files root [] = Inr []"
| "dist_files root (d # ds) =
     (case fs_at root (d @ [''dist'']) of
        None \<Rightarrow> dist_files root ds
      | Some (FsFile _) \<Rightarrow> Inl ''ENOTDIR''
      | Some (FsDir es) \<Rightarrow> bind_result (dist_files root ds) (\<lambda>rest. Inr (dist_walk ''dist'' (FsDir es) @ rest)))"

definition dist_digest :: "(string \<Rightarrow> string) \<Rightarrow> fs_node \<Rightarrow> string list list \<Rightarrow> (string, string) result" where
  "dist_digest sha root dirs =
     bind_result (dist_files root dirs) (\<lambda>fs.
       Inr (if fs = [] then ''absent'' else ''sha256:'' @ sha (concat (map (\<lambda>(p, t). p @ nul @ t @ nul) fs))))"

section \<open>The cache\<close>

record cached_run =
  ca_execution_id :: string
  ca_exit_code :: "int option"
  ca_stdout :: string
  ca_stderr :: string
  ca_timed_out :: bool

record cache_entry =
  en_scope_key :: string
  en_source :: string
  en_dist :: string
  en_result :: cached_run
  en_recorded_at :: string

type_synonym command_cache = "(string \<times> cache_entry) list"

definition scope_key :: "cache_scope \<Rightarrow> string" where
  "scope_key scope = stringify (JObject
     [(''packages'', case sc_packages scope of None \<Rightarrow> JNull | Some ps \<Rightarrow> strings_json ps),
      (''withDeps'', JBool (sc_with_deps scope))])"

text \<open>What the cache reads of a working tree: the files and the answer of \<^verbatim>\<open>git ls-files\<close>.\<close>

type_synonym tree_view = "fs_node \<times> string option"

definition scope_digests :: "(string \<Rightarrow> string) \<Rightarrow> tree_view \<Rightarrow> cache_scope \<Rightarrow> (string, string \<times> string) result" where
  "scope_digests sha view scope =
     bind_result (resolve_scope_dirs (fst view) scope) (\<lambda>dirs.
       bind_result (source_digest sha (fst view) (snd view) dirs) (\<lambda>s.
         bind_result (dist_digest sha (fst view) dirs) (\<lambda>d. Inr (s, d))))"

definition cache_record ::
  "(string \<Rightarrow> string) \<Rightarrow> tree_view \<Rightarrow> string \<Rightarrow> string \<Rightarrow> cached_run \<Rightarrow> command_cache \<Rightarrow> (string, command_cache) result" where
  "cache_record sha view now command run cache =
     (case parse_filter_scope command of
        None \<Rightarrow> Inr cache
      | Some scope \<Rightarrow>
          bind_result (scope_digests sha view scope) (\<lambda>(s, d).
            Inr (map_set command \<lparr>en_scope_key = scope_key scope, en_source = s, en_dist = d, en_result = run,
                   en_recorded_at = now\<rparr> cache)))"

definition cache_reusable ::
  "(string \<Rightarrow> string) \<Rightarrow> tree_view \<Rightarrow> string \<Rightarrow> command_cache \<Rightarrow> (string, cached_run option) result" where
  "cache_reusable sha view command cache =
     (case map_of cache command of
        None \<Rightarrow> Inr None
      | Some entry \<Rightarrow>
          (case parse_filter_scope command of
             None \<Rightarrow> Inr None
           | Some scope \<Rightarrow>
               if scope_key scope \<noteq> en_scope_key entry then Inr None
               else
                 bind_result (resolve_scope_dirs (fst view) scope) (\<lambda>dirs.
                   bind_result (source_digest sha (fst view) (snd view) dirs) (\<lambda>s.
                     if s \<noteq> en_source entry then Inr None
                     else bind_result (dist_digest sha (fst view) dirs) (\<lambda>d.
                       Inr (if d \<noteq> en_dist entry then None else Some (en_result entry)))))))"

section \<open>Reuse\<close>

text \<open>
  C30: a run recorded in one tree is reused in another exactly when the digests of the scope agree;
  another result is never returned for the command.
\<close>
theorem cache_reuse_exact:
  assumes "cache_record sha view now command run cache = Inr cache'" "parse_filter_scope command = Some scope"
    and "scope_digests sha view' scope = Inr digests"
  shows "cache_reusable sha view' command cache' =
    Inr (if scope_digests sha view scope = Inr digests then Some run else None)"
  using assms by (auto simp: cache_record_def cache_reusable_def scope_digests_def result_iff split: prod.splits)

definition small_tree :: "string \<Rightarrow> fs_node" where
  "small_tree source = FsDir
     [(''pnpm-workspace.yaml'', FsFile (''packages:'' @ [CHR 0x0A] @ ''  - packages/*'')),
      (''packages'', FsDir [(''a'', FsDir
         [(''package.json'', FsFile ''{\"name\":\"a\"}''), (''src.ts'', FsFile source)])])]"

definition small_view :: "string \<Rightarrow> tree_view" where
  "small_view source = (small_tree source, Some ''packages/a/src.ts'')"

definition sample_run :: cached_run where
  "sample_run = \<lparr>ca_execution_id = ''exec-1'', ca_exit_code = Some 0, ca_stdout = ''ok'', ca_stderr = [], ca_timed_out = False\<rparr>"

theorem cache_reuse_exact_witness:
  "\<exists>cache'. cache_record (\<lambda>s. s) (small_view ''1'') ''now'' ''pnpm --filter a test'' sample_run [] = Inr cache'
     \<and> cache_reusable (\<lambda>s. s) (small_view ''1'') ''pnpm --filter a test'' cache' = Inr (Some sample_run)
     \<and> cache_reusable (\<lambda>s. s) (small_view ''2'') ''pnpm --filter a test'' cache' = Inr None"
proof -
  let ?c = "''pnpm --filter a test''" and ?sc = "\<lparr>sc_packages = Some [''a''], sc_with_deps = False\<rparr>"
  have scope: "parse_filter_scope ?c = Some ?sc" by code_simp
  have digests: "scope_digests (\<lambda>s. s) (small_view ''1'') ?sc = Inr (''sha256:packages/a/src.ts'' @ nul @ ''1'' @ nul, ''absent'')"
    "scope_digests (\<lambda>s. s) (small_view ''2'') ?sc = Inr (''sha256:packages/a/src.ts'' @ nul @ ''2'' @ nul, ''absent'')"
    by code_simp+
  obtain cache' where c: "cache_record (\<lambda>s. s) (small_view ''1'') ''now'' ?c sample_run [] = Inr cache'"
    using scope digests by (simp add: cache_record_def)
  show ?thesis
    using c cache_reuse_exact [OF c scope digests(1)] cache_reuse_exact [OF c scope digests(2)] digests by simp
qed

text \<open>The workspace file of the repository itself: its globs are quoted.\<close>

definition quote_mark :: char where "quote_mark = CHR 0x22"

definition workspace_text :: string where
  "workspace_text = join_with [CHR 0x0A]
     [''packages:'', ''  - '' @ [quote_mark] @ ''packages/*'' @ [quote_mark],
      ''  - '' @ [quote_mark] @ ''evals/runner'' @ [quote_mark], ''allowBuilds:'', ''  esbuild: true'', ''  fs-ext: true'', []]"

definition quoted_workspace :: "fs_node \<Rightarrow> bool" where
  "quoted_workspace root \<longleftrightarrow> fs_text root [''pnpm-workspace.yaml''] = Some workspace_text
     \<and> fs_at root [quote_mark # ''packages''] = None \<and> fs_at root [quote_mark # ''evals''] = None"

lemma fs_at_Cons: "fs_at root (s # ss) = Option.bind (fs_at root [s]) (\<lambda>n. fs_at n ss)"
  by (cases root) (auto split: option.splits)

lemma workspace_globs:
  "List.map_filter glob_of_line (split_on CHR 0x0A workspace_text)
    = [[quote_mark] @ ''packages/*'' @ [quote_mark], [quote_mark] @ ''evals/runner'' @ [quote_mark]]"
  by code_simp

lemma scope_queue_no_members: "scope_queue root [] deps queue seen dirs = Inr dirs"
  by (induction root "[] :: (string \<times> string list) list" deps queue seen dirs rule: scope_queue.induct) auto

lemma quoted_workspace_dirs:
  assumes "quoted_workspace root"
  shows "resolve_scope_dirs root scope = Inr []"
proof -
  have ws: "fs_at root [''pnpm-workspace.yaml''] = Some (FsFile workspace_text)"
    using assms by (auto simp: quoted_workspace_def fs_text_def split: option.splits fs_node.splits)
  have norm: "norm_path (takeWhile (\<lambda>c. c \<noteq> CHR ''*'') ([quote_mark] @ ''packages/*'' @ [quote_mark])) = [quote_mark # ''packages'']"
    "norm_path ([quote_mark] @ ''evals/runner'' @ [quote_mark]) = [quote_mark # ''evals'', ''runner'' @ [quote_mark]]"
    "CHR ''*'' \<in> set ([quote_mark] @ ''packages/*'' @ [quote_mark])"
    "CHR ''*'' \<notin> set ([quote_mark] @ ''evals/runner'' @ [quote_mark])"
    by code_simp+
  have none: "fs_at root [quote_mark # ''packages''] = None" "fs_at root [quote_mark # ''evals''] = None"
    using assms by (simp_all add: quoted_workspace_def)
  have "glob_dirs root ([quote_mark] @ ''packages/*'' @ [quote_mark]) = Inr []"
    unfolding glob_dirs_def norm(1) Let_def using norm(3) none by simp
  moreover have "glob_dirs root ([quote_mark] @ ''evals/runner'' @ [quote_mark]) = Inr [[quote_mark # ''evals'', ''runner'' @ [quote_mark]]]"
    unfolding glob_dirs_def norm(2) using norm(4) by simp
  moreover have "add_package root [quote_mark # ''evals'', ''runner'' @ [quote_mark]] [] = Inr []"
    unfolding add_package_def by (subst append_Cons, subst fs_at_Cons) (simp add: none)
  ultimately have "workspace_package_dirs root = Inr []"
    unfolding workspace_package_dirs_def ws option.case fs_node.case workspace_globs by simp
  then show ?thesis
    by (simp add: resolve_scope_dirs_def scope_queue_no_members dedup_def split: option.splits)
qed

text \<open>
  with the repository's own workspace file the scope of every command is empty, since the
  quotes around the globs are taken as part of the names: a recorded run is reused in every later
  tree, whatever changed in it.
\<close>
theorem quoted_workspace_stale:
  assumes "quoted_workspace (fst view)" "quoted_workspace (fst view')" "parse_filter_scope command \<noteq> None"
  shows "\<exists>cache'. cache_record sha view now command run cache = Inr cache'
    \<and> cache_reusable sha view' command cache' = Inr (Some run)"
proof -
  obtain scope where scope: "parse_filter_scope command = Some scope" using assms(3) by blast
  have "scope_digests sha v scope = Inr (''sha256:'' @ sha [], ''absent'')" if "quoted_workspace (fst v)" for v
    using quoted_workspace_dirs [OF that, of scope]
    by (simp add: scope_digests_def source_digest_def tracked_files_def dist_digest_def)
  with assms scope show ?thesis
    by (simp add: cache_record_def cache_reusable_def scope_digests_def result_iff quoted_workspace_dirs)
qed

definition repo_tree :: "string \<Rightarrow> fs_node" where
  "repo_tree source = FsDir
     [(''pnpm-workspace.yaml'', FsFile workspace_text),
      (''packages'', FsDir [(''core'', FsDir
         [(''package.json'', FsFile ''{\"name\":\"@spc/core\"}''), (''src.ts'', FsFile source)])])]"

theorem quoted_workspace_stale_witness:
  "\<exists>cache'. cache_record (\<lambda>s. s) (repo_tree ''1'', Some ''packages/core/src.ts'') ''now'' ''pnpm --filter @spc/core test'' sample_run []
       = Inr cache'
     \<and> cache_reusable (\<lambda>s. s) (repo_tree ''2'', Some ''packages/core/src.ts'') ''pnpm --filter @spc/core test'' cache'
       = Inr (Some sample_run)"
proof (rule quoted_workspace_stale)
  show "quoted_workspace (fst (repo_tree ''1'', Some ''packages/core/src.ts''))"
    "quoted_workspace (fst (repo_tree ''2'', Some ''packages/core/src.ts''))"
    "parse_filter_scope ''pnpm --filter @spc/core test'' \<noteq> None" by code_simp+
qed

end
