(* ===== verification/RunState.thy ===== *)
theory RunState
  imports EventLog PlanValidate
begin

text \<open>
  The run state as a projection of the event log, \<^verbatim>\<open>packages/runtime/src/state.ts\<close>. Payload
  fields are read with the type tests of the code; a status string that is not one of the
  schema's statuses, which the code would store as it is, is outside the model and leaves the
  default. Keys of records are the task and property identifiers.
\<close>

section \<open>Reading payloads\<close>

definition p_string :: "(string \<times> json) list \<Rightarrow> string \<Rightarrow> string option" where
  "p_string p k = (case map_of p k of Some (JString s) \<Rightarrow> Some s | _ \<Rightarrow> None)"

definition p_number :: "(string \<times> json) list \<Rightarrow> string \<Rightarrow> int option" where
  "p_number p k = (case map_of p k of Some (JNum i) \<Rightarrow> Some i | _ \<Rightarrow> None)"

text \<open>\<open>Array.isArray(p[k]) ? p[k] as string[] : []\<close>\<close>

definition p_strings :: "(string \<times> json) list \<Rightarrow> string \<Rightarrow> string list" where
  "p_strings p k =
     (case map_of p k of
        Some (JArray js) \<Rightarrow> List.map_filter (\<lambda>j. case j of JString s \<Rightarrow> Some s | _ \<Rightarrow> None) js
      | _ \<Rightarrow> [])"

definition truthy :: "json \<Rightarrow> bool" where
  "truthy j = (case j of JNull \<Rightarrow> False | JBool b \<Rightarrow> b | JNum i \<Rightarrow> i \<noteq> 0 | JString s \<Rightarrow> s \<noteq> [] | _ \<Rightarrow> True)"

definition p_truthy :: "(string \<times> json) list \<Rightarrow> string \<Rightarrow> json option" where
  "p_truthy p k = (case map_of p k of Some j \<Rightarrow> if truthy j then Some j else None | None \<Rightarrow> None)"

text \<open>A string that is also tested for truth: the empty string counts as absent.\<close>

definition p_name :: "(string \<times> json) list \<Rightarrow> string \<Rightarrow> string option" where
  "p_name p k = (case p_string p k of Some s \<Rightarrow> if s \<noteq> [] then Some s else None | None \<Rightarrow> None)"

fun requirement_status_text :: "requirement_status \<Rightarrow> string" where
  "requirement_status_text Unknown = ''unknown''" | "requirement_status_text InProgress = ''in_progress''"
| "requirement_status_text Satisfied = ''satisfied''" | "requirement_status_text Unsatisfied = ''unsatisfied''"
| "requirement_status_text Indeterminate = ''indeterminate''" | "requirement_status_text Waived = ''waived''"

fun run_status_text :: "run_status \<Rightarrow> string" where
  "run_status_text RunRunning = ''running''" | "run_status_text Succeeded = ''succeeded''"
| "run_status_text PartiallySatisfied = ''partially_satisfied''" | "run_status_text RunBlocked = ''blocked''"
| "run_status_text RunFailed = ''failed''" | "run_status_text RunCancelled = ''cancelled''"
| "run_status_text TimedOut = ''timed_out''"

fun red_phase_text :: "red_phase \<Rightarrow> string" where
  "red_phase_text Flipped = ''flipped''" | "red_phase_text PassedAtBase = ''passed_at_base''"
| "red_phase_text NoRedEvidence = ''no_red_evidence''"

definition requirement_status_of :: "string \<Rightarrow> requirement_status option" where
  "requirement_status_of s =
     List.find (\<lambda>x. requirement_status_text x = s) [Unknown, InProgress, Satisfied, Unsatisfied, Indeterminate, Waived]"

definition run_status_of :: "string \<Rightarrow> run_status option" where
  "run_status_of s =
     List.find (\<lambda>x. run_status_text x = s)
       [RunRunning, Succeeded, PartiallySatisfied, RunBlocked, RunFailed, RunCancelled, TimedOut]"

definition red_phase_of :: "string \<Rightarrow> red_phase option" where
  "red_phase_of s = List.find (\<lambda>x. red_phase_text x = s) [Flipped, PassedAtBase, NoRedEvidence]"

section \<open>initialState\<close>

record run_meta =
  meta_run_id :: string
  meta_kind :: run_kind
  meta_spec_id :: string
  meta_spec_digest :: string
  meta_config_digest :: "string option"
  meta_plan_id :: "string option"
  meta_plan_digest :: "string option"
  meta_base_revision :: "string option"
  meta_branch :: "string option"
  meta_worktree :: "string option"
  meta_original_branch :: "string option"
  meta_parent_run_id :: "string option"
  meta_supersedes_run_id :: "string option"
  meta_created_at :: string

definition bare_task :: "string \<Rightarrow> task_status \<Rightarrow> int \<Rightarrow> task_state" where
  "bare_task tid status attempt =
     \<lparr>ts_task_id = tid, ts_status = status, ts_attempt = attempt, ts_started_at = None, ts_completed_at = None,
      ts_revision = None, ts_empty_delta = None, ts_failure = None\<rparr>"

definition when_truthy :: "string option \<Rightarrow> string option" where
  "when_truthy s = (case s of Some x \<Rightarrow> if x \<noteq> [] then Some x else None | None \<Rightarrow> None)"

definition initial_state :: "run_meta \<Rightarrow> plan option \<Rightarrow> run_state" where
  "initial_state meta plan =
     \<lparr>run_id = meta_run_id meta, run_kind = meta_kind meta, run_spec_id = meta_spec_id meta,
      run_spec_digest = meta_spec_digest meta, run_plan_id = when_truthy (meta_plan_id meta),
      run_plan_digest = when_truthy (meta_plan_digest meta), run_status = RunRunning,
      run_base_revision = when_truthy (meta_base_revision meta), run_result_revision = None,
      run_branch = when_truthy (meta_branch meta), run_worktree = when_truthy (meta_worktree meta),
      run_created_at = meta_created_at meta, run_updated_at = meta_created_at meta,
      run_model_calls = 0, run_replans = 0,
      run_tasks = (\<lambda>tid. if \<exists>t \<in> set (case plan of None \<Rightarrow> [] | Some p \<Rightarrow> plan_tasks p). task_id t = tid
                         then Some (bare_task tid Pending 0) else None),
      run_requirements = (\<lambda>_. None)\<rparr>"

section \<open>applyEvent\<close>

definition set_task :: "run_state \<Rightarrow> string \<Rightarrow> task_state \<Rightarrow> run_state" where
  "set_task s tid t = s\<lparr>run_tasks := (run_tasks s)(tid \<mapsto> t)\<rparr>"

definition prior_attempt :: "task_state option \<Rightarrow> int" where
  "prior_attempt prior = (case prior of Some t \<Rightarrow> ts_attempt t | None \<Rightarrow> 0)"

definition event_attempt :: "(string \<times> json) list \<Rightarrow> task_state option \<Rightarrow> int" where
  "event_attempt p prior = (case p_number p ''attempt'' of Some a \<Rightarrow> a | None \<Rightarrow> prior_attempt prior)"

definition prior_started :: "task_state option \<Rightarrow> string option" where
  "prior_started prior = when_truthy (Option.bind prior ts_started_at)"

definition prior_failure :: "task_state option \<Rightarrow> json option" where
  "prior_failure prior = Option.bind prior (\<lambda>t. Option.bind (ts_failure t) (\<lambda>j. if truthy j then Some j else None))"

definition skip_task :: "run_state \<Rightarrow> string \<Rightarrow> run_state" where
  "skip_task s tid =
     (case run_tasks s tid of
        None \<Rightarrow> set_task s tid (bare_task tid Skipped 0)
      | Some prior \<Rightarrow> if ts_status prior \<noteq> Completed then set_task s tid (prior\<lparr>ts_status := Skipped\<rparr>) else s)"

definition add_task :: "run_state \<Rightarrow> string \<Rightarrow> run_state" where
  "add_task s tid = set_task s tid (bare_task tid Pending 0)"

text \<open>The cases of the switch that concern one task, given its prior state.\<close>

definition task_event :: "event \<Rightarrow> string \<Rightarrow> task_state option \<Rightarrow> task_state option" where
  "task_event e tid prior =
     (let p = e_payload e in
      case e_type e of
        TASK_READY \<Rightarrow> Some ((bare_task tid Ready (event_attempt p prior))\<lparr>ts_failure := prior_failure prior\<rparr>)
      | TASK_STARTED \<Rightarrow> Some ((bare_task tid TaskRunning (event_attempt p prior))
          \<lparr>ts_started_at := Some (e_timestamp e), ts_failure := prior_failure prior\<rparr>)
      | TASK_COMMITTED \<Rightarrow>
          (case prior of
             None \<Rightarrow> None
           | Some t \<Rightarrow> Some (case p_string p ''revision'' of Some r \<Rightarrow> t\<lparr>ts_revision := Some r\<rparr> | None \<Rightarrow> t))
      | TASK_COMPLETED \<Rightarrow> Some ((bare_task tid Completed (event_attempt p prior))
          \<lparr>ts_started_at := prior_started prior, ts_completed_at := Some (e_timestamp e),
           ts_revision := when_truthy (Option.bind prior ts_revision)\<rparr>)
      | TASK_FAILED \<Rightarrow> Some ((bare_task tid TaskFailed (event_attempt p prior))
          \<lparr>ts_started_at := prior_started prior,
           ts_failure := (case p_truthy p ''error'' of Some j \<Rightarrow> Some j | None \<Rightarrow> prior_failure prior)\<rparr>)
      | TASK_BLOCKED \<Rightarrow> Some ((bare_task tid TaskBlocked (event_attempt p prior))\<lparr>ts_failure := p_truthy p ''error''\<rparr>)
      | TASK_NEEDS_REPLAN \<Rightarrow> Some (bare_task tid NeedsReplan (prior_attempt prior))
      | _ \<Rightarrow> prior)"

definition task_event_types :: "event_type list" where
  "task_event_types =
     [TASK_READY, TASK_STARTED, TASK_COMMITTED, TASK_COMPLETED, TASK_FAILED, TASK_BLOCKED, TASK_NEEDS_REPLAN]"

definition verified_requirement :: "event \<Rightarrow> string \<Rightarrow> requirement_state" where
  "verified_requirement e pid =
     (let p = e_payload e in
      \<lparr>rs_property_id = pid,
       rs_status = (case Option.bind (p_string p ''status'') requirement_status_of of Some s \<Rightarrow> s | None \<Rightarrow> Unknown),
       rs_evidence_ids = p_strings p ''evidenceIds'', rs_updated_at = e_timestamp e,
       rs_reason = p_string p ''reason'',
       rs_weak_evidence = (if map_of p ''weakEvidence'' = Some (JBool True) then Some True else None),
       rs_red_phase = Option.bind (p_string p ''redPhase'') red_phase_of\<rparr>)"

definition finish_run :: "(string \<times> json) list \<Rightarrow> run_state \<Rightarrow> run_state" where
  "finish_run p s =
     (let s1 = (case Option.bind (p_string p ''status'') run_status_of of Some st \<Rightarrow> s\<lparr>run_status := st\<rparr> | None \<Rightarrow> s)
      in case p_string p ''resultRevision'' of Some r \<Rightarrow> s1\<lparr>run_result_revision := Some r\<rparr> | None \<Rightarrow> s1)"

text \<open>Everything but the time stamp, which every event except an attestation moves.\<close>

definition apply_change :: "run_state \<Rightarrow> event \<Rightarrow> run_state" where
  "apply_change s e =
     (let p = e_payload e in
      if e_type e \<in> set task_event_types then
        (case p_name p ''taskId'' of
           None \<Rightarrow> s
         | Some tid \<Rightarrow>
             (case task_event e tid (run_tasks s tid) of
                None \<Rightarrow> s
              | Some t \<Rightarrow> set_task s tid t))
      else
        (case e_type e of
           REPLAN_REQUESTED \<Rightarrow> s\<lparr>run_replans := run_replans s + 1\<rparr>
         | PLAN_AMENDED \<Rightarrow>
             (let s1 = (case p_string p ''planDigest'' of Some d \<Rightarrow> s\<lparr>run_plan_digest := Some d\<rparr> | None \<Rightarrow> s);
                  s2 = foldl skip_task s1 (p_strings p ''removedTaskIds'')
              in foldl add_task s2 (p_strings p ''addedTaskIds''))
         | PROPERTY_INHERITED \<Rightarrow>
             (case run_requirements s (case p_string p ''propertyId'' of Some x \<Rightarrow> x | None \<Rightarrow> []) of
                None \<Rightarrow> s
              | Some req \<Rightarrow>
                  s\<lparr>run_requirements := (run_requirements s)(rs_property_id req \<mapsto> req
                    \<lparr>rs_status := Satisfied,
                     rs_reason := (case p_string p ''reason'' of Some r \<Rightarrow> Some r | None \<Rightarrow> rs_reason req)\<rparr>)\<rparr>)
         | PROPERTY_VERIFIED \<Rightarrow>
             (case p_name p ''propertyId'' of
                None \<Rightarrow> s
              | Some pid \<Rightarrow> s\<lparr>run_requirements := (run_requirements s)(pid \<mapsto> verified_requirement e pid)\<rparr>)
         | USAGE_RECORDED \<Rightarrow> s\<lparr>run_model_calls := run_model_calls s + 1\<rparr>
         | RUN_COMPLETED \<Rightarrow> finish_run p s
         | RUN_FAILED \<Rightarrow> finish_run p s
         | _ \<Rightarrow> s))"

definition apply_event :: "run_state \<Rightarrow> event \<Rightarrow> run_state" where
  "apply_event s e =
     (if e_type e = RUN_ATTESTED then s else (apply_change s e)\<lparr>run_updated_at := e_timestamp e\<rparr>)"

definition project_state :: "run_meta \<Rightarrow> plan option \<Rightarrow> event list \<Rightarrow> run_state" where
  "project_state meta plan events = foldl apply_event (initial_state meta plan) events"

section \<open>What a projection says about the log\<close>

lemma project_state_Nil [simp]: "project_state meta plan [] = initial_state meta plan"
  by (simp add: project_state_def)

lemma project_state_snoc [simp]:
  "project_state meta plan (es @ [e]) = apply_event (project_state meta plan es) e"
  by (simp add: project_state_def)

lemma project_state_append:
  "project_state meta plan (es @ es') = foldl apply_event (project_state meta plan es) es'"
  by (simp add: project_state_def)

lemma apply_event_simps [frame_simps]:
  "run_tasks (apply_event s e) = (if e_type e = RUN_ATTESTED then run_tasks s else run_tasks (apply_change s e))"
  "run_requirements (apply_event s e) =
     (if e_type e = RUN_ATTESTED then run_requirements s else run_requirements (apply_change s e))"
  "run_model_calls (apply_event s e) =
     (if e_type e = RUN_ATTESTED then run_model_calls s else run_model_calls (apply_change s e))"
  "run_replans (apply_event s e) = (if e_type e = RUN_ATTESTED then run_replans s else run_replans (apply_change s e))"
  "run_status (apply_event s e) = (if e_type e = RUN_ATTESTED then run_status s else run_status (apply_change s e))"
  by (simp_all add: apply_event_def)

lemma set_task_frame [frame_simps, simp]:
  "run_tasks (set_task s tid t) = (run_tasks s)(tid \<mapsto> t)"
  "run_requirements (set_task s tid t) = run_requirements s" "run_status (set_task s tid t) = run_status s"
  "run_model_calls (set_task s tid t) = run_model_calls s" "run_replans (set_task s tid t) = run_replans s"
  "run_result_revision (set_task s tid t) = run_result_revision s"
  by (simp_all add: set_task_def)

lemma skip_add_frame [frame_simps, simp]:
  "run_requirements (skip_task s tid) = run_requirements s" "run_status (skip_task s tid) = run_status s"
  "run_model_calls (skip_task s tid) = run_model_calls s" "run_replans (skip_task s tid) = run_replans s"
  "run_requirements (add_task s tid) = run_requirements s" "run_status (add_task s tid) = run_status s"
  "run_model_calls (add_task s tid) = run_model_calls s" "run_replans (add_task s tid) = run_replans s"
  by (simp_all add: skip_task_def add_task_def split: option.splits)

lemma foldl_frame:
  "(\<And>s x. f (g s x) = f s) \<Longrightarrow> f (foldl g s xs) = f s"
  by (induction xs arbitrary: s) auto

lemmas amend_frame [frame_simps, simp] =
  foldl_frame [of run_requirements skip_task] foldl_frame [of run_requirements add_task]
  foldl_frame [of run_model_calls skip_task] foldl_frame [of run_model_calls add_task]
  foldl_frame [of run_replans skip_task] foldl_frame [of run_replans add_task]
  foldl_frame [of run_status skip_task] foldl_frame [of run_status add_task]

lemma finish_run_frame [frame_simps, simp]:
  "run_tasks (finish_run p s) = run_tasks s" "run_requirements (finish_run p s) = run_requirements s"
  "run_model_calls (finish_run p s) = run_model_calls s" "run_replans (finish_run p s) = run_replans s"
  by (simp_all add: finish_run_def Let_def split: option.splits)

text \<open>The event types by what they change.\<close>

lemma apply_change_task:
  "e_type e \<in> set task_event_types \<Longrightarrow>
     apply_change s e = (case p_name (e_payload e) ''taskId'' of
        None \<Rightarrow> s
      | Some tid \<Rightarrow> (case task_event e tid (run_tasks s tid) of None \<Rightarrow> s | Some t \<Rightarrow> set_task s tid t))"
  by (simp add: apply_change_def Let_def)

lemma apply_change_counters:
  "run_model_calls (apply_change s e) = run_model_calls s + (if e_type e = USAGE_RECORDED then 1 else 0)"
  "run_replans (apply_change s e) = run_replans s + (if e_type e = REPLAN_REQUESTED then 1 else 0)"
  by (cases "e_type e"; simp add: apply_change_def task_event_types_def Let_def split: option.splits)+

lemma apply_change_requirements:
  "run_requirements (apply_change s e) =
     (case e_type e of
        PROPERTY_INHERITED \<Rightarrow>
          (case run_requirements s (case p_string (e_payload e) ''propertyId'' of Some x \<Rightarrow> x | None \<Rightarrow> []) of
             None \<Rightarrow> run_requirements s
           | Some req \<Rightarrow> (run_requirements s)(rs_property_id req \<mapsto> req
               \<lparr>rs_status := Satisfied,
                rs_reason := (case p_string (e_payload e) ''reason'' of Some r \<Rightarrow> Some r | None \<Rightarrow> rs_reason req)\<rparr>))
      | PROPERTY_VERIFIED \<Rightarrow>
          (case p_name (e_payload e) ''propertyId'' of
             None \<Rightarrow> run_requirements s
           | Some pid \<Rightarrow> (run_requirements s)(pid \<mapsto> verified_requirement e pid))
      | _ \<Rightarrow> run_requirements s)"
  by (cases "e_type e") (simp_all add: apply_change_def task_event_types_def Let_def split: option.splits)

lemma project_requirement_id:
  "run_requirements (project_state meta plan es) pid = Some r \<Longrightarrow> rs_property_id r = pid \<and> pid \<noteq> []"
proof (induction es arbitrary: pid r rule: rev_induct)
  case Nil
  then show ?case by (simp add: initial_state_def)
next
  case (snoc e es)
  then show ?case
    by (auto simp: apply_event_simps apply_change_requirements verified_requirement_def Let_def p_name_def
        split: if_splits event_type.splits option.splits)
qed

definition verifies_property :: "string \<Rightarrow> event \<Rightarrow> bool" where
  "verifies_property pid e \<longleftrightarrow>
     (e_type e = PROPERTY_VERIFIED \<and> p_name (e_payload e) ''propertyId'' = Some pid
        \<and> p_string (e_payload e) ''status'' = Some ''satisfied'')
     \<or> (e_type e = PROPERTY_INHERITED \<and> p_string (e_payload e) ''propertyId'' = Some pid)"

lemma requirement_status_of_text: "requirement_status_of s = Some x \<Longrightarrow> s = requirement_status_text x"
  unfolding requirement_status_of_def by (drule find_SomeD) simp

text \<open>
  C22: a run never claims more than its log: a property the projected state shows as satisfied
  was verified as satisfied, or inherited, by an event of the log that names it.
\<close>
theorem projection_satisfied_has_event:
  assumes "run_requirements (project_state meta plan es) pid = Some r" "rs_status r = Satisfied"
  shows "\<exists>e. e \<in> set es \<and> verifies_property pid e"
  using assms
proof (induction es arbitrary: r rule: rev_induct)
  case Nil
  then show ?case by (simp add: initial_state_def)
next
  case (snoc e es)
  show ?case
  proof (cases "run_requirements (project_state meta plan es) pid = Some r")
    case True
    with snoc show ?thesis by auto
  next
    case False
    let ?s = "project_state meta plan es"
    from False snoc.prems(1) have "e_type e = PROPERTY_INHERITED \<or> e_type e = PROPERTY_VERIFIED"
      by (auto simp: apply_event_simps apply_change_requirements split: if_splits event_type.splits)
    then have "verifies_property pid e"
    proof
      assume i: "e_type e = PROPERTY_INHERITED"
      let ?k = "case p_string (e_payload e) ''propertyId'' of Some x \<Rightarrow> x | None \<Rightarrow> []"
      from i False snoc.prems(1) obtain q where q: "run_requirements ?s ?k = Some q" "rs_property_id q = pid"
        by (auto simp: apply_event_simps apply_change_requirements split: if_splits option.splits)
      with project_requirement_id [OF q(1)] have "?k = pid" by metis
      show ?thesis
      proof (cases "p_string (e_payload e) ''propertyId''")
        case (Some x)
        with \<open>?k = pid\<close> i show ?thesis by (simp add: verifies_property_def)
      next
        case None
        with q project_requirement_id [OF q(1)] show ?thesis by simp
      qed
    next
      assume v: "e_type e = PROPERTY_VERIFIED"
      with False snoc.prems have "p_name (e_payload e) ''propertyId'' = Some pid" "r = verified_requirement e pid"
        by (auto simp: apply_event_simps apply_change_requirements split: option.splits if_splits)
      with v snoc.prems(2) show ?thesis
        by (auto simp: verifies_property_def verified_requirement_def Let_def Option.bind_eq_Some_conv
            split: option.splits dest!: requirement_status_of_text)
    qed
    then show ?thesis by auto
  qed
qed

definition sample_event :: "event_type \<Rightarrow> (string \<times> json) list \<Rightarrow> event" where
  "sample_event ty payload =
     \<lparr>e_seq = 1, e_id = ''id'', e_type = ty, e_run_id = ''run-1'', e_timestamp = ''t1'', e_chain = None, e_payload = payload\<rparr>"

definition sample_meta :: run_meta where
  "sample_meta =
     \<lparr>meta_run_id = ''run-1'', meta_kind = Apply, meta_spec_id = ''spec'', meta_spec_digest = ''d'', meta_config_digest = None,
      meta_plan_id = None, meta_plan_digest = None, meta_base_revision = Some ''base'', meta_branch = None,
      meta_worktree = None, meta_original_branch = None, meta_parent_run_id = None, meta_supersedes_run_id = None,
      meta_created_at = ''t0''\<rparr>"

theorem projection_satisfied_has_event_witness:
  "\<exists>e. e \<in> set [sample_event PROPERTY_VERIFIED [(''propertyId'', JString ''REQ-001''), (''status'', JString ''satisfied'')]]
     \<and> verifies_property ''REQ-001'' e"
proof -
  let ?es = "[sample_event PROPERTY_VERIFIED [(''propertyId'', JString ''REQ-001''), (''status'', JString ''satisfied'')]]"
  have "map_option rs_status (run_requirements (project_state sample_meta None ?es) ''REQ-001'') = Some Satisfied"
    by code_simp
  then obtain r where "run_requirements (project_state sample_meta None ?es) ''REQ-001'' = Some r" "rs_status r = Satisfied"
    unfolding map_option_eq_Some by blast
  then show ?thesis by (rule projection_satisfied_has_event)
qed

text \<open>Tasks.\<close>

definition completes_task :: "string \<Rightarrow> event \<Rightarrow> bool" where
  "completes_task tid e \<longleftrightarrow> e_type e = TASK_COMPLETED \<and> p_name (e_payload e) ''taskId'' = Some tid"

lemma skip_tasks_completed:
  "run_tasks (foldl skip_task s xs) tid = Some t \<Longrightarrow> ts_status t = Completed \<Longrightarrow> run_tasks s tid = Some t"
proof (induction xs arbitrary: s)
  case (Cons x xs)
  from Cons.IH [of "skip_task s x"] Cons.prems have "run_tasks (skip_task s x) tid = Some t" by simp
  with Cons.prems(2) show ?case
    by (auto simp: skip_task_def bare_task_def split: option.splits if_splits)
qed simp

lemma add_tasks_completed:
  "run_tasks (foldl add_task s xs) tid = Some t \<Longrightarrow> ts_status t = Completed \<Longrightarrow> run_tasks s tid = Some t"
proof (induction xs arbitrary: s)
  case (Cons x xs)
  from Cons.IH [of "add_task s x"] Cons.prems have "run_tasks (add_task s x) tid = Some t" by simp
  with Cons.prems(2) show ?case by (auto simp: add_task_def bare_task_def split: if_splits)
qed simp

lemma apply_change_other_tasks:
  "e_type e \<notin> set task_event_types \<Longrightarrow>
     run_tasks (apply_change s e) =
       (if e_type e = PLAN_AMENDED
        then run_tasks (foldl add_task
               (foldl skip_task
                 (case p_string (e_payload e) ''planDigest'' of Some d \<Rightarrow> s\<lparr>run_plan_digest := Some d\<rparr> | None \<Rightarrow> s)
                 (p_strings (e_payload e) ''removedTaskIds''))
               (p_strings (e_payload e) ''addedTaskIds''))
        else run_tasks s)"
  by (cases "e_type e") (simp_all add: apply_change_def task_event_types_def Let_def split: option.splits)

lemma task_event_completed:
  "task_event e tid prior = Some t \<Longrightarrow> ts_status t = Completed \<Longrightarrow>
     e_type e = TASK_COMPLETED \<or> (\<exists>t'. prior = Some t' \<and> ts_status t' = Completed)"
  by (auto simp: task_event_def bare_task_def Let_def split: event_type.splits option.splits)

text \<open>
  a task the projected state shows as completed was completed by a TASK_COMPLETED event
  of the log that names it; amendments and other events never complete a task.
\<close>
theorem projection_completed_has_event:
  assumes "run_tasks (project_state meta plan es) tid = Some t" "ts_status t = Completed"
  shows "\<exists>e. e \<in> set es \<and> completes_task tid e"
  using assms
proof (induction es arbitrary: t rule: rev_induct)
  case Nil
  then show ?case by (auto simp: initial_state_def bare_task_def split: if_splits)
next
  case (snoc e es)
  let ?s = "project_state meta plan es"
  have "completes_task tid e \<or> (\<exists>t'. run_tasks ?s tid = Some t' \<and> ts_status t' = Completed)"
  proof (cases "e_type e \<in> set task_event_types")
    case True
    then have "e_type e \<noteq> RUN_ATTESTED" by (auto simp: task_event_types_def)
    with snoc.prems True show ?thesis
      by (auto simp: apply_event_simps apply_change_task completes_task_def
          split: option.splits if_splits dest!: task_event_completed)
  next
    case False
    have "run_tasks (case p_string (e_payload e) ''planDigest'' of Some d \<Rightarrow> ?s\<lparr>run_plan_digest := Some d\<rparr> | None \<Rightarrow> ?s) = run_tasks ?s"
      by (simp split: option.splits)
    with snoc.prems show ?thesis
      by (auto simp: apply_event_simps apply_change_other_tasks [OF False] split: if_splits
          dest!: add_tasks_completed skip_tasks_completed)
  qed
  with snoc.IH show ?case by auto
qed

theorem projection_completed_has_event_witness:
  "\<exists>e. e \<in> set [sample_event TASK_STARTED [(''taskId'', JString ''T001''), (''attempt'', JNum 1)],
                 sample_event TASK_COMPLETED [(''taskId'', JString ''T001'')]]
     \<and> completes_task ''T001'' e"
proof -
  let ?es = "[sample_event TASK_STARTED [(''taskId'', JString ''T001''), (''attempt'', JNum 1)],
              sample_event TASK_COMPLETED [(''taskId'', JString ''T001'')]]"
  have "map_option ts_status (run_tasks (project_state sample_meta None ?es) ''T001'') = Some Completed" by code_simp
  then obtain t where "run_tasks (project_state sample_meta None ?es) ''T001'' = Some t" "ts_status t = Completed"
    unfolding map_option_eq_Some by blast
  then show ?thesis by (rule projection_completed_has_event)
qed

text \<open>
  the counters of the state are those of the log, and attestations are invisible: replaying
  the log without its attestation events gives the same state.
\<close>
theorem projection_counts:
  "run_model_calls (project_state meta plan es) = length (filter (\<lambda>e. e_type e = USAGE_RECORDED) es)
   \<and> run_replans (project_state meta plan es) = length (filter (\<lambda>e. e_type e = REPLAN_REQUESTED) es)
   \<and> project_state meta plan (filter (\<lambda>e. e_type e \<noteq> RUN_ATTESTED) es) = project_state meta plan es"
  by (induction es rule: rev_induct)
     (auto simp: initial_state_def apply_event_simps apply_change_counters, auto simp: apply_event_def)

end
