(* ===== verification/Criteria.thy ===== *)
theory Criteria
  imports CommandCache RunState
begin

text \<open>
  Execution of acceptance criteria, \<^verbatim>\<open>packages/verifier/src/criteria.ts\<close> and \<^verbatim>\<open>suites.ts\<close>: commands
  with policy, approval, memo, cache and one retry after a timeout; files; agents; humans. The
  operating system, the file system and the model provider are functions of a world of their own.
\<close>

section \<open>Suites\<close>

record suite_entry =
  se_id :: string
  se_command :: string
  se_digest :: string

type_synonym suite_registry = "(string \<times> suite_entry) list"
type_synonym suite_provenance = "(string \<times> string \<times> string) list"

datatype sweep_error = SuiteUnknown string string | SuiteUnresolved string | Thrown string

fun is_suite :: "acceptance_criterion \<Rightarrow> bool" where
  "is_suite (SuiteCriterion _ _ _) = True"
| "is_suite _ = False"

fun normalize_criterion ::
  "suite_registry \<Rightarrow> suite_provenance \<Rightarrow> acceptance_criterion \<Rightarrow> (sweep_error, acceptance_criterion \<times> suite_provenance) result" where
  "normalize_criterion suites prov (SuiteCriterion cid ref disc) =
     (case map_of suites ref of
        None \<Rightarrow> Inl (SuiteUnknown ref cid)
      | Some def \<Rightarrow> Inr (CommandCriterion cid (se_command def) (Some (Some 0)) None None,
                         map_set cid (se_id def, se_digest def) prov))"
| "normalize_criterion suites prov c = Inr (c, prov)"

fun normalize_criteria ::
  "suite_registry \<Rightarrow> suite_provenance \<Rightarrow> acceptance_criterion list \<Rightarrow> (sweep_error, acceptance_criterion list \<times> suite_provenance) result" where
  "normalize_criteria suites prov [] = Inr ([], prov)"
| "normalize_criteria suites prov (c # cs) =
     bind_result (normalize_criterion suites prov c) (\<lambda>(d, prov1).
       bind_result (normalize_criteria suites prov1 cs) (\<lambda>(ds, prov2). Inr (d # ds, prov2)))"

fun normalize_suite_criteria ::
  "suite_registry \<Rightarrow> suite_provenance \<Rightarrow> desired_property list \<Rightarrow> (sweep_error, desired_property list \<times> suite_provenance) result" where
  "normalize_suite_criteria suites prov [] = Inr ([], prov)"
| "normalize_suite_criteria suites prov (p # ps) =
     bind_result
       (if \<not> list_ex is_suite (dp_acceptance p) then Inr (p, prov)
        else bind_result (normalize_criteria suites prov (dp_acceptance p)) (\<lambda>(cs, prov1). Inr (p\<lparr>dp_acceptance := cs\<rparr>, prov1)))
       (\<lambda>(q, prov1). bind_result (normalize_suite_criteria suites prov1 ps) (\<lambda>(qs, prov2). Inr (q # qs, prov2)))"

section \<open>The environment and the stores of a run\<close>

record 'w sweep_env =
  sv_sha :: "string \<Rightarrow> string"
  sv_vars :: "(string \<times> string) list"
  sv_clock :: "nat \<Rightarrow> string"
  sv_uuid :: "nat \<Rightarrow> string"
  sv_spawn :: "string \<Rightarrow> 'w \<Rightarrow> spawn_result \<times> 'w"
  sv_file :: "'w \<Rightarrow> string \<Rightarrow> (string option \<times> int) option"
  sv_view :: "'w \<Rightarrow> tree_view"
  sv_provider :: "(string \<times> string option \<times> (string \<Rightarrow> 'w \<Rightarrow> (string, evidence_outcome \<times> string) result \<times> 'w)) option"
  sv_commands :: commands_config
  sv_timeout_ms :: int
  sv_max_output :: nat
  sv_allow_agent_only :: bool
  sv_require_red :: bool
  sv_run_id :: string
  sv_cwd :: string

datatype observed_run = Ran command_run | FromCache cached_run

record shared_run =
  sh_execution_id :: string
  sh_result :: command_run
  sh_origin :: string

record usage_record =
  us_role :: string
  us_request_id :: string
  us_model :: "string option"

record 'w run_stores =
  st_log :: event_store
  st_evidence :: evidence_store
  st_followups :: "followup list"
  st_usage :: "usage_record list"
  st_verdicts :: "(string \<times> evidence_outcome \<times> string) list"
  st_runs :: "(string \<times> shared_run) list"
  st_cache :: "command_cache option"
  st_tick :: nat
  st_world :: 'w

text \<open>Reading the clock, drawing an identifier, and appending an event.\<close>

definition now_of :: "'w sweep_env \<Rightarrow> 'w run_stores \<Rightarrow> string" where "now_of env s = sv_clock env (st_tick s)"

definition tick :: "'w run_stores \<Rightarrow> 'w run_stores" where "tick s = s\<lparr>st_tick := st_tick s + 1\<rparr>"

definition emit :: "'w sweep_env \<Rightarrow> event_type \<Rightarrow> (string \<times> json) list \<Rightarrow> 'w run_stores \<Rightarrow> 'w run_stores" where
  "emit env ty payload s =
     tick (s\<lparr>st_log := fst (event_append (sv_sha env) (sv_uuid env (st_tick s)) (sv_clock env (st_tick s)) ty payload (st_log s))\<rparr>)"

definition add_evidence :: "'w sweep_env \<Rightarrow> evidence \<Rightarrow> 'w run_stores \<Rightarrow> evidence \<times> 'w run_stores" where
  "add_evidence env e s =
     (case evidence_add (sv_sha env) (st_evidence s) (e\<lparr>ev_id := evidence_id (length (vs_records (st_evidence s)) + 1)\<rparr>) of
        (store, full) \<Rightarrow> (full, s\<lparr>st_evidence := store\<rparr>))"

definition create_followup :: "'w sweep_env \<Rightarrow> followup_draft \<Rightarrow> 'w run_stores \<Rightarrow> followup \<times> 'w run_stores" where
  "create_followup env draft s =
     (case followup_create (st_followups s) draft (sv_run_id env) (now_of env s) of
        (fs, f) \<Rightarrow> (f, tick (s\<lparr>st_followups := fs\<rparr>)))"

section \<open>Commands\<close>

record sweep_request =
  sq_properties :: "desired_property list"
  sq_task_id :: "string option"
  sq_red :: bool
  sq_enforce_red :: bool
  sq_environment_ready :: bool
  sq_inherited :: "(string \<times> string) list"
  sq_suites :: "suite_registry option"
  sq_revision :: string
  sq_shared :: bool
  sq_report_usage :: bool

record criterion_result =
  re_evidence :: evidence
  re_followup :: "followup_draft option"
  re_run :: "observed_run option"
  re_execution :: "(string \<times> bool \<times> string) option"

definition any_line :: rx where "any_line = RStar (RSet (\<lambda>c. c \<noteq> CHR 0x0A))"

definition infra_death_signatures :: "rx list" where
  "infra_death_signatures =
     [r_cat [r_lit_i ''vitest'', any_line, r_lit_i ''worker'', any_line, r_lit_i ''exited unexpectedly''],
      r_cat [r_lit_i ''vitest'', any_line, r_lit_i ''process'', any_line, r_alts [r_lit_i ''crashed'', r_lit_i ''exited unexpectedly'']],
      r_cat [r_lit_i ''worker process '', any_line, r_lit_i '' '', r_alts [r_lit_i ''terminated'', r_lit_i ''exited unexpectedly'']],
      r_lit_i ''test runner crashed'',
      r_cat [r_lit_i ''Error: listen EADDRINUSE'', any_line],
      r_cat [r_lit_i ''listen EACCES'', any_line]]"

definition never_ran_signatures :: "rx list" where
  "never_ran_signatures =
     [r_cat [r_lit_i ''test'', r_opt (r_lit_i ''s''), r_ws1, r_lit_i ''no tests''], r_lit_i ''cannot find module'',
      r_lit_i ''failed suites'', r_lit_i ''failed to load'', r_lit_i ''must contain at least one test'']"

fun allow_category :: "command_category \<Rightarrow> commands_config \<Rightarrow> commands_config" where
  "allow_category Network c = c\<lparr>cfg_network := PolicyAllow\<rparr>"
| "allow_category PackageInstall c = c\<lparr>cfg_package_install := PolicyAllow\<rparr>"
| "allow_category Migration c = c\<lparr>cfg_migration := PolicyAllow\<rparr>"
| "allow_category Deployment c = c\<lparr>cfg_deployment := PolicyAllow\<rparr>"
| "allow_category Publish c = c\<lparr>cfg_publish := PolicyAllow\<rparr>"
| "allow_category GitPush c = c\<lparr>cfg_git_push := PolicyAllow\<rparr>"
| "allow_category Destructive c = c\<lparr>cfg_destructive := PolicyAllow\<rparr>"
| "allow_category command_category.Unknown c = c\<lparr>cfg_unknown := PolicyAllow\<rparr>"
| "allow_category _ c = c"
text \<open>What the code reads of a run; a cached result has no command, duration, signal or refusal.\<close>

fun run_exit :: "observed_run \<Rightarrow> int option" where
  "run_exit (Ran r) = cr_exit_code r" | "run_exit (FromCache c) = ca_exit_code c"

fun run_out :: "observed_run \<Rightarrow> string" where
  "run_out (Ran r) = cr_stdout r" | "run_out (FromCache c) = ca_stdout c"

fun run_err :: "observed_run \<Rightarrow> string" where
  "run_err (Ran r) = cr_stderr r" | "run_err (FromCache c) = ca_stderr c"

fun run_timed_out :: "observed_run \<Rightarrow> bool" where
  "run_timed_out (Ran r) = cr_timed_out r" | "run_timed_out (FromCache c) = ca_timed_out c"

fun run_duration :: "observed_run \<Rightarrow> int option" where
  "run_duration (Ran r) = Some (cr_duration_ms r)" | "run_duration (FromCache c) = None"

fun run_denied :: "observed_run \<Rightarrow> string option" where
  "run_denied (Ran r) = when_truthy (cr_denied_reason r)" | "run_denied (FromCache c) = None"

fun run_signal :: "observed_run \<Rightarrow> string option" where
  "run_signal (Ran r) = when_truthy (cr_signal r)" | "run_signal (FromCache c) = None"

text \<open>The evidence of a criterion: the fields every path shares.\<close>

definition make_evidence ::
  "'w sweep_env \<Rightarrow> sweep_request \<Rightarrow> acceptance_criterion \<Rightarrow> desired_property \<Rightarrow> string option \<Rightarrow> evidence_kind \<Rightarrow> evidence_outcome
     \<Rightarrow> producer_type \<times> string option \<Rightarrow> bool \<Rightarrow> json \<Rightarrow> 'w run_stores \<Rightarrow> evidence" where
  "make_evidence env q c p task kind outcome producer red payload s =
     (let e = \<lparr>ev_id = ''pending'', ev_run_id = sv_run_id env, ev_task_id = task, ev_criterion_id = Some (criterion_id c),
               ev_property_refs = [dp_id p], ev_kind = kind, ev_outcome = outcome, ev_producer = producer,
               ev_timestamp = now_of env s, ev_revision = sq_revision q, ev_red = red, ev_chain = None,
               ev_payload = payload, ev_digest = []\<rparr>
      in e\<lparr>ev_digest := evidence_digest (sv_sha env) e\<rparr>)"

definition make_draft ::
  "sweep_request \<Rightarrow> acceptance_criterion \<Rightarrow> desired_property \<Rightarrow> followup_type \<Rightarrow> string \<Rightarrow> string \<Rightarrow> followup_draft" where
  "make_draft q c p ty title description =
     \<lparr>fu_type = ty, fu_blocking = False, fu_title = title, fu_description = description, fu_property_id = Some (dp_id p),
      fu_task_id = sq_task_id q, fu_options = None, fu_recommended_default = None, fu_criterion_id = Some (criterion_id c),
      fu_command = None\<rparr>"

definition awaiting_approval ::
  "'w sweep_env \<Rightarrow> sweep_request \<Rightarrow> acceptance_criterion \<Rightarrow> desired_property \<Rightarrow> string \<Rightarrow> command_decision \<Rightarrow> 'w run_stores \<Rightarrow> criterion_result" where
  "awaiting_approval env q c p command decision s =
     \<lparr>re_evidence = make_evidence env q c p (sq_task_id q) EvCommand Inconclusive (ByRuntime, Some ''awaiting-approval'') False
        (JObject [(''command'', JString command), (''reason'', JString (cd_reason decision))]) s,
      re_followup = Some ((make_draft q c p Approval (''Approve command for '' @ dp_id p @ '': '' @ command)
         (''The acceptance command is policy-gated (\"'' @ category_name (cd_category decision)
            @ ''\"). Approving runs it during verification; rejecting keeps this property indeterminate.''))
         \<lparr>fu_command := Some command,
          fu_options := Some [\<lparr>option_id = ''approve'', option_description = ''Allow this exact command during verification.''\<rparr>,
                              \<lparr>option_id = ''reject'', option_description = ''Keep the command blocked; the property stays indeterminate.''\<rparr>],
          fu_recommended_default := Some ''approve''\<rparr>),
      re_run = None, re_execution = None\<rparr>"

definition environment_not_ready ::
  "'w sweep_env \<Rightarrow> sweep_request \<Rightarrow> acceptance_criterion \<Rightarrow> desired_property \<Rightarrow> string \<Rightarrow> 'w run_stores \<Rightarrow> criterion_result" where
  "environment_not_ready env q c p command s =
     \<lparr>re_evidence = make_evidence env q c p None EvCommand Inconclusive (ByRuntime, None) False
        (JObject [(''command'', JString command),
           (''reason'', JString ''environment preparation failed - the observation could not be made; not a behavioral contradiction'')]) s,
      re_followup = None, re_run = None, re_execution = None\<rparr>"

text \<open>A physical run, under the policy with an approved category allowed.\<close>

definition physical_run ::
  "'w sweep_env \<Rightarrow> command_decision \<Rightarrow> string \<Rightarrow> 'w run_stores \<Rightarrow> command_run \<times> 'w run_stores" where
  "physical_run env decision command s =
     (let config = (if cd_policy decision = PolicyApproval then allow_category (cd_category decision) (sv_commands env)
                    else sv_commands env)
      in case run_command (sv_sha env) (sv_vars env) (sv_max_output env) config (sv_spawn env) command (st_world s) of
           (run, w) \<Rightarrow> (run, s\<lparr>st_world := w\<rparr>))"

definition memoize :: "'w sweep_env \<Rightarrow> string \<Rightarrow> command_run \<Rightarrow> 'w run_stores \<Rightarrow> string \<times> 'w run_stores" where
  "memoize env key run s =
     (let i = sv_uuid env (st_tick s)
      in (i, tick (s\<lparr>st_runs := map_set key \<lparr>sh_execution_id = i, sh_result = run, sh_origin = sv_run_id env\<rparr> (st_runs s)\<rparr>)))"

definition store_in_cache ::
  "'w sweep_env \<Rightarrow> string \<Rightarrow> int \<Rightarrow> string \<Rightarrow> command_run \<Rightarrow> 'w run_stores \<Rightarrow> (sweep_error, 'w run_stores) result" where
  "store_in_cache env command expected i run s =
     (case st_cache s of
        None \<Rightarrow> Inr s
      | Some cache \<Rightarrow>
          if cr_exit_code run = Some expected \<and> when_truthy (cr_denied_reason run) = None \<and> \<not> cr_timed_out run then
            (case cache_record (sv_sha env) (sv_view env (st_world s)) (now_of env s) command
                    \<lparr>ca_execution_id = i, ca_exit_code = cr_exit_code run, ca_stdout = cr_stdout run, ca_stderr = cr_stderr run,
                     ca_timed_out = cr_timed_out run\<rparr> cache of
               Inl err \<Rightarrow> Inl (Thrown err)
             | Inr cache' \<Rightarrow> Inr (tick (s\<lparr>st_cache := Some cache'\<rparr>)))
          else Inr s)"

text \<open>A fresh run, remembered for the sweep and, when clean, in the cache.\<close>

definition fresh_run ::
  "'w sweep_env \<Rightarrow> command_decision \<Rightarrow> string \<Rightarrow> int \<Rightarrow> string \<Rightarrow> 'w run_stores
     \<Rightarrow> (sweep_error, observed_run \<times> string \<times> bool \<times> string) result \<times> 'w run_stores" where
  "fresh_run env decision command expected key s =
     (case physical_run env decision command s of
        (run, s1) \<Rightarrow>
          (case memoize env key run s1 of
             (i, s2) \<Rightarrow>
               (case store_in_cache env command expected i run s2 of
                  Inl err \<Rightarrow> (Inl err, s2)
                | Inr s3 \<Rightarrow> (Inr (Ran run, i, False, sv_run_id env), s3))))"

definition first_run ::
  "'w sweep_env \<Rightarrow> command_decision \<Rightarrow> string \<Rightarrow> int \<Rightarrow> string \<Rightarrow> 'w run_stores
     \<Rightarrow> (sweep_error, observed_run \<times> string \<times> bool \<times> string) result \<times> 'w run_stores" where
  "first_run env decision command expected key s =
     (case map_of (st_runs s) key of
        Some shared \<Rightarrow> (Inr (Ran (sh_result shared), sh_execution_id shared, True, sh_origin shared), s)
      | None \<Rightarrow>
          (case (case st_cache s of None \<Rightarrow> Inr None
                 | Some cache \<Rightarrow> cache_reusable (sv_sha env) (sv_view env (st_world s)) command cache) of
             Inl err \<Rightarrow> (Inl (Thrown err), s)
           | Inr (Some hit) \<Rightarrow> (Inr (FromCache hit, ca_execution_id hit, True, ''cache''), s)
           | Inr None \<Rightarrow> fresh_run env decision command expected key s))"

text \<open>The outcome of the final run, as executed and as evidence.\<close>

definition raw_outcome :: "observed_run \<Rightarrow> int \<Rightarrow> evidence_outcome" where
  "raw_outcome run expected =
     (if run_denied run \<noteq> None then Inconclusive else if run_exit run = Some expected then Supports else Contradicts)"

definition run_output :: "observed_run \<Rightarrow> string" where "run_output run = run_out run @ [CHR 0x0A] @ run_err run"

definition infra_death :: "observed_run \<Rightarrow> int \<Rightarrow> bool" where
  "infra_death run expected \<longleftrightarrow>
     raw_outcome run expected = Contradicts \<and> \<not> run_timed_out run
     \<and> list_ex (\<lambda>re. rx_test re (run_output run)) infra_death_signatures"

definition budget_timeout :: "observed_run \<Rightarrow> int \<Rightarrow> bool" where
  "budget_timeout run expected \<longleftrightarrow> raw_outcome run expected = Contradicts \<and> run_timed_out run"

definition suite_never_ran :: "observed_run \<Rightarrow> int \<Rightarrow> bool" where
  "suite_never_ran run expected \<longleftrightarrow>
     raw_outcome run expected = Contradicts \<and> list_ex (\<lambda>re. rx_test re (run_output run)) never_ran_signatures"

definition evidence_outcome_of :: "observed_run \<Rightarrow> int \<Rightarrow> evidence_outcome" where
  "evidence_outcome_of run expected =
     (if infra_death run expected \<or> budget_timeout run expected then Inconclusive else raw_outcome run expected)"

definition failure_shape :: "observed_run \<Rightarrow> int \<Rightarrow> string option" where
  "failure_shape run expected =
     (if budget_timeout run expected then Some ''budget-timeout''
      else if infra_death run expected then Some ''environment-death''
      else if suite_never_ran run expected then Some ''suite-did-not-run'' else None)"

definition command_payload ::
  "string \<Rightarrow> int \<Rightarrow> observed_run \<Rightarrow> int option option \<Rightarrow> string \<times> bool \<times> string \<Rightarrow> (string \<times> string) option \<Rightarrow> json" where
  "command_payload command expected run retried execution suite =
     (case execution of (i, reused, origin) \<Rightarrow>
      object_of
       [(''command'', Some (JString command)), (''expectedExitCode'', Some (JNum expected)),
        (''exitCode'', Some (case run_exit run of None \<Rightarrow> JNull | Some n \<Rightarrow> JNum n)),
        (''timedOut'', Some (JBool (run_timed_out run))), (''durationMs'', map_option JNum (run_duration run)),
        (''stdout'', Some (JString (run_out run))), (''stderr'', Some (JString (run_err run))),
        (''failureShape'', map_option JString (failure_shape run expected)),
        (''attempts'', map_option (\<lambda>_. JNum 2) retried), (''firstAttemptTimedOut'', map_option (\<lambda>_. JBool True) retried),
        (''firstAttemptDurationMs'', map_option JNum (Option.bind retried (\<lambda>d. d))),
        (''signal'', map_option JString (run_signal run)),
        (''oracleValidity'', if raw_outcome run expected = Contradicts
            \<and> classify_oracle_validity command (run_output run) \<noteq> None then Some (JString ''invalid'') else None),
        (''deniedReason'', map_option JString (run_denied run)),
        (''executionId'', if i = [] then None else Some (JString i)),
        (''reusedFrom'', if reused then Some (JString origin) else None),
        (''suite'', map_option (JString \<circ> fst) suite), (''suiteDigest'', map_option (JString \<circ> snd) suite)])"

definition command_evidence ::
  "'w sweep_env \<Rightarrow> sweep_request \<Rightarrow> suite_provenance \<Rightarrow> acceptance_criterion \<Rightarrow> desired_property \<Rightarrow> string \<Rightarrow> int
     \<Rightarrow> observed_run \<Rightarrow> int option option \<Rightarrow> string \<times> bool \<times> string \<Rightarrow> 'w run_stores \<Rightarrow> criterion_result" where
  "command_evidence env q prov c p command expected run retried execution s =
     \<lparr>re_evidence = make_evidence env q c p (sq_task_id q)
        (if classify_command command = TestRun then EvTest else EvCommand) (evidence_outcome_of run expected) (ByRuntime, None)
        (sq_red q) (command_payload command expected run retried execution (map_of prov (criterion_id c))) s,
      re_followup = map_option (\<lambda>reason. make_draft q c p Investigation
          (''Command policy blocked verification of '' @ dp_id p)
          (''Acceptance command \"'' @ command @ ''\" was blocked: '' @ reason
             @ ''. Adjust command policy or the acceptance criterion.'')) (run_denied run),
      re_run = Some run, re_execution = Some execution\<rparr>"

definition verify_command ::
  "'w sweep_env \<Rightarrow> sweep_request \<Rightarrow> string list \<Rightarrow> suite_provenance \<Rightarrow> acceptance_criterion \<Rightarrow> desired_property
     \<Rightarrow> string \<Rightarrow> int \<Rightarrow> int \<Rightarrow> 'w run_stores \<Rightarrow> (sweep_error, criterion_result) result \<times> 'w run_stores" where
  "verify_command env q approved prov c p command expected timeout_ms s =
     (let decision = evaluate_command_policy command (sv_commands env);
          key = command @ nul @ show_int expected @ nul @ show_int timeout_ms
      in if cd_policy decision = PolicyApproval \<and> command \<notin> set approved
         then (Inr (awaiting_approval env q c p command decision s), tick s)
         else if \<not> sq_environment_ready q then (Inr (environment_not_ready env q c p command s), tick s)
         else
           (case first_run env decision command expected key s of
              (Inl err, s1) \<Rightarrow> (Inl err, s1)
            | (Inr (run, execution), s1) \<Rightarrow>
                if run_timed_out run \<and> run_denied run = None then
                  (case fresh_run env decision command expected key s1 of
                     (Inl err, s2) \<Rightarrow> (Inl err, s2)
                   | (Inr (retry, execution'), s2) \<Rightarrow>
                       (Inr (command_evidence env q prov c p command expected retry (Some (run_duration run)) execution' s2), tick s2))
                else (Inr (command_evidence env q prov c p command expected run None execution s1), tick s1)))"

section \<open>Files, agents and humans\<close>

definition assert_json :: "file_assert \<Rightarrow> json" where
  "assert_json a = object_of
     [(''exists'', map_option JBool (assert_exists a)), (''contains'', map_option JString (assert_contains a)),
      (''notContains'', map_option JString (assert_not_contains a))]"

definition contains_text :: "string \<Rightarrow> string \<Rightarrow> bool" where
  "contains_text content needle \<longleftrightarrow> index_from content needle 0 \<noteq> None"

text \<open>The three checks; the file is absent, or present with its text if it can be read.\<close>

definition file_checks :: "file_assert \<Rightarrow> string option option \<Rightarrow> (string \<times> bool) list" where
  "file_checks a file_text =
     List.map_filter (\<lambda>x. x)
      [map_option (\<lambda>b. (''exists'', (file_text \<noteq> None) = b)) (assert_exists a),
       map_option (\<lambda>t. (''contains'', case file_text of Some (Some content) \<Rightarrow> contains_text content t | _ \<Rightarrow> False)) (assert_contains a),
       map_option (\<lambda>t. (''notContains'', case file_text of Some (Some content) \<Rightarrow> \<not> contains_text content t | _ \<Rightarrow> True)) (assert_not_contains a)]"

definition verify_file ::
  "'w sweep_env \<Rightarrow> sweep_request \<Rightarrow> acceptance_criterion \<Rightarrow> desired_property \<Rightarrow> string \<Rightarrow> file_assert \<Rightarrow> 'w run_stores
     \<Rightarrow> criterion_result \<times> 'w run_stores" where
  "verify_file env q c p path a s =
     (if \<not> is_safe_relative_path path then
        (\<lparr>re_evidence = make_evidence env q c p (sq_task_id q) EvFile Inconclusive (ByRuntime, Some ''unsafe-criterion-path'') False
            (JObject [(''path'', JString path), (''reason'', JString ''criterion path is not a safe relative path'')]) s,
          re_followup = Some (make_draft q c p Investigation (''Unsafe file criterion path for '' @ dp_id p)
            (''Criterion '' @ criterion_id c @ '' path \"'' @ path @ ''\" escapes the repository; fix the spec.'')),
          re_run = None, re_execution = None\<rparr>, tick s)
      else
        (let found = sv_file env (st_world s) path;
             checks = file_checks a (map_option fst found)
         in (\<lparr>re_evidence = make_evidence env q c p (sq_task_id q) EvFile
                (if list_all snd checks then Supports else Contradicts) (ByRuntime, None) (sq_red q)
                (JObject [(''path'', JString path), (''assert'', assert_json a),
                   (''checks'', JObject (map (\<lambda>(k, b). (k, JBool b)) checks)),
                   (''observed'', JObject [(''exists'', JBool (found \<noteq> None)),
                                          (''size'', JNum (case found of None \<Rightarrow> 0 | Some (_, n) \<Rightarrow> n))])]) s,
              re_followup = None, re_run = None, re_execution = None\<rparr>, tick s)))"

definition verdict_payload :: "string \<Rightarrow> string \<Rightarrow> bool \<Rightarrow> json" where
  "verdict_payload instruction justification cached = object_of
     [(''instruction'', Some (JString instruction)), (''justification'', Some (JString justification)),
      (''cachedVerdict'', if cached then Some (JBool True) else None)]"

definition verify_agent ::
  "'w sweep_env \<Rightarrow> sweep_request \<Rightarrow> acceptance_criterion \<Rightarrow> desired_property \<Rightarrow> string \<Rightarrow> 'w run_stores
     \<Rightarrow> (sweep_error, criterion_result) result \<times> 'w run_stores" where
  "verify_agent env q c p instruction s =
     (let answer = (\<lambda>name outcome payload. \<lparr>re_evidence = make_evidence env q c p (sq_task_id q) EvAgent outcome (ByAgent, Some name) False payload s,
            re_followup = None, re_run = None, re_execution = None\<rparr>);
          key = sq_revision q @ nul @ dp_id p @ nul @ criterion_id c
      in case sv_provider env of
           None \<Rightarrow>
             (Inr \<lparr>re_evidence = make_evidence env q c p (sq_task_id q) EvAgent Inconclusive (ByRuntime, Some ''no-provider'') False
                 (JObject [(''reason'', JString ''no LLM provider configured for agent verification'')]) s,
               re_followup = Some (make_draft q c p Investigation (''Agent verification unavailable for '' @ dp_id p)
                 (''Criterion '' @ criterion_id c @ '' requires an agent verifier but no provider is configured.'')),
               re_run = None, re_execution = None\<rparr>, tick s)
         | Some (name, model, ask) \<Rightarrow>
             (case map_of (st_verdicts s) key of
                Some (outcome, justification) \<Rightarrow> (Inr (answer name outcome (verdict_payload instruction justification True)), tick s)
              | None \<Rightarrow>
                  (case ask (dp_id p @ '':'' @ criterion_id c) (st_world s) of
                     (Inl thrown, w) \<Rightarrow> (Inl (Thrown thrown), s\<lparr>st_world := w\<rparr>)
                   | (Inr (outcome, justification), w) \<Rightarrow>
                       (let i = sv_uuid env (st_tick s);
                            s1 = tick (s\<lparr>st_world := w\<rparr>);
                            s2 = (if sq_report_usage q
                                  then emit env USAGE_RECORDED
                                    (present [(''role'', Some (JString ''verifier'')), (''requestId'', Some (JString i)),
                                              (''model'', map_option JString model)])
                                    (s1\<lparr>st_usage := st_usage s1 @ [\<lparr>us_role = ''verifier'', us_request_id = i, us_model = model\<rparr>]\<rparr>)
                                  else s1)
                        in (Inr (answer name outcome (verdict_payload instruction justification False)),
                            s2\<lparr>st_verdicts := map_set key (outcome, justification) (st_verdicts s2)\<rparr>)))))"

definition verify_human ::
  "'w sweep_env \<Rightarrow> sweep_request \<Rightarrow> acceptance_criterion \<Rightarrow> desired_property \<Rightarrow> string \<Rightarrow> 'w run_stores
     \<Rightarrow> criterion_result \<times> 'w run_stores" where
  "verify_human env q c p instruction s =
     (\<lparr>re_evidence = make_evidence env q c p (sq_task_id q) EvHuman Inconclusive (ByRuntime, Some ''awaiting-human'') False
         (JObject [(''instruction'', JString instruction), (''status'', JString ''outstanding'')]) s,
       re_followup = Some ((make_draft q c p ManualVerification (''Manual review: '' @ dp_id p) instruction)
         \<lparr>fu_options := Some [\<lparr>option_id = ''confirm'', option_description = ''The property holds as far as human review can establish.''\<rparr>,
                             \<lparr>option_id = ''reject'', option_description = ''The property does not hold.''\<rparr>],
          fu_recommended_default := Some ''confirm''\<rparr>),
       re_run = None, re_execution = None\<rparr>, tick s)"

fun verify_criterion ::
  "'w sweep_env \<Rightarrow> sweep_request \<Rightarrow> string list \<Rightarrow> suite_provenance \<Rightarrow> desired_property \<Rightarrow> acceptance_criterion \<Rightarrow> 'w run_stores
     \<Rightarrow> (sweep_error, criterion_result) result \<times> 'w run_stores" where
  "verify_criterion env q approved prov p (CommandCriterion cid command expect timeout_ms disc) s =
     verify_command env q approved prov (CommandCriterion cid command expect timeout_ms disc) p command
       (case Option.bind expect (\<lambda>x. x) of Some n \<Rightarrow> n | None \<Rightarrow> 0)
       (case timeout_ms of Some t \<Rightarrow> t | None \<Rightarrow> sv_timeout_ms env) s"
| "verify_criterion env q approved prov p (FileCriterion cid path a disc) s =
     (case verify_file env q (FileCriterion cid path a disc) p path a s of (r, s') \<Rightarrow> (Inr r, s'))"
| "verify_criterion env q approved prov p (AgentCriterion cid instruction disc) s =
     verify_agent env q (AgentCriterion cid instruction disc) p instruction s"
| "verify_criterion env q approved prov p (HumanCriterion cid instruction disc) s =
     (case verify_human env q (HumanCriterion cid instruction disc) p instruction s of (r, s') \<Rightarrow> (Inr r, s'))"
| "verify_criterion env q approved prov p (SuiteCriterion cid ref disc) s =
     (Inl (SuiteUnresolved (''criterion '' @ cid @ '' is an unresolved suite reference ('' @ ref @ ''); the sweep must normalize it first'')), s)"

end
