(* ===== verification/PlanDigest.thy ===== *)
theory PlanDigest
  imports Digest PlanValidate
begin

text \<open>
  The digest of a plan, \<^verbatim>\<open>planDigest\<close> of \<^verbatim>\<open>packages/core/src/plan/normalize.ts\<close>: the canonical JSON of
  the normalised plan, hashed. The encoders give the JSON value of the records of \<^verbatim>\<open>plan.ts\<close> and
  \<^verbatim>\<open>followup.ts\<close>, absent optional fields omitted.
\<close>

section \<open>Encoders\<close>

fun task_kind_text :: "task_kind \<Rightarrow> string" where
  "task_kind_text Inspect = ''inspect''" | "task_kind_text Modify = ''modify''" | "task_kind_text Test = ''test''"
| "task_kind_text Verify = ''verify''" | "task_kind_text Cleanup = ''cleanup''"

fun risk_text :: "risk_level \<Rightarrow> string" where
  "risk_text Low = ''low''" | "risk_text Medium = ''medium''" | "risk_text High = ''high''"

fun followup_type_text :: "followup_type \<Rightarrow> string" where
  "followup_type_text HumanInput = ''human_input''" | "followup_type_text Approval = ''approval''"
| "followup_type_text MissingSecret = ''missing_secret''" | "followup_type_text MissingEnvironment = ''missing_environment''"
| "followup_type_text SpecClarification = ''spec_clarification''" | "followup_type_text SpecChange = ''spec_change''"
| "followup_type_text Investigation = ''investigation''" | "followup_type_text ReplanFollowup = ''replan''"
| "followup_type_text ManualVerification = ''manual_verification''" | "followup_type_text PostRun = ''post_run''"

definition targets_json :: "task_targets \<Rightarrow> json" where
  "targets_json g = object_of [(''read'', map_option strings_json (targets_read g)),
     (''write'', map_option strings_json (targets_write g))]"

definition task_json :: "task \<Rightarrow> json" where
  "task_json t = object_of
     [(''id'', Some (JString (task_id t))), (''title'', Some (JString (task_title t))),
      (''kind'', Some (JString (task_kind_text (task_kind t)))), (''intent'', Some (JString (task_intent t))),
      (''dependsOn'', map_option strings_json (task_depends_on t)), (''satisfies'', map_option strings_json (task_satisfies t)),
      (''verifies'', map_option strings_json (task_verifies t)), (''targets'', map_option targets_json (task_targets t)),
      (''risk'', map_option (\<lambda>r. JString (risk_text r)) (task_risk t))]"

definition option_json :: "followup_option \<Rightarrow> json" where
  "option_json x = object_of [(''id'', Some (JString (option_id x))), (''description'', Some (JString (option_description x)))]"

definition draft_json :: "followup_draft \<Rightarrow> json" where
  "draft_json d = object_of
     [(''type'', Some (JString (followup_type_text (fu_type d)))), (''blocking'', Some (JBool (fu_blocking d))),
      (''title'', Some (JString (fu_title d))), (''description'', Some (JString (fu_description d))),
      (''propertyId'', map_option JString (fu_property_id d)), (''taskId'', map_option JString (fu_task_id d)),
      (''options'', map_option (\<lambda>xs. JArray (map option_json xs)) (fu_options d)),
      (''recommendedDefault'', map_option JString (fu_recommended_default d)),
      (''criterionId'', map_option JString (fu_criterion_id d)), (''command'', map_option JString (fu_command d))]"

definition generator_json :: "string \<times> string option \<Rightarrow> json" where
  "generator_json g = object_of [(''provider'', Some (JString (fst g))), (''model'', map_option JString (snd g))]"

definition plan_metadata_json :: "plan \<Rightarrow> json" where
  "plan_metadata_json p = object_of
     [(''id'', Some (JString (plan_id p))), (''title'', map_option JString (plan_title p)),
      (''createdAt'', Some (JString (plan_created_at p))), (''generatedBy'', map_option generator_json (plan_generated_by p))]"

definition plan_spec_json :: "plan \<Rightarrow> json" where
  "plan_spec_json p = object_of [(''id'', Some (JString (plan_spec_id p))), (''digest'', Some (JString (plan_spec_digest p)))]"

definition plan_repository_json :: "plan \<Rightarrow> json" where
  "plan_repository_json p = object_of
     [(''revision'', Some (JString (plan_revision p))), (''snapshotDigest'', Some (JString (plan_snapshot_digest p)))]"

definition plan_json :: "plan \<Rightarrow> json" where
  "plan_json p = object_of
     [(''apiVersion'', Some (JString ''spc.dev/v1alpha1'')), (''kind'', Some (JString ''Plan'')),
      (''metadata'', Some (plan_metadata_json p)), (''spec'', Some (plan_spec_json p)),
      (''repository'', Some (plan_repository_json p)), (''tasks'', Some (JArray (map task_json (plan_tasks p)))),
      (''assumptions'', map_option strings_json (plan_assumptions p)),
      (''followups'', map_option (\<lambda>ds. JArray (map draft_json ds)) (plan_followups p))]"

section \<open>planDigest\<close>

definition plan_digest :: "(string \<Rightarrow> string) \<Rightarrow> plan \<Rightarrow> string" where
  "plan_digest sha256_hex p = digest_json sha256_hex (plan_json (normalize_plan p))"

section \<open>The encodings are injective\<close>

lemma task_kind_text_inject [simp]: "task_kind_text a = task_kind_text b \<longleftrightarrow> a = b"
  by (cases a; cases b) simp_all

lemma risk_text_inject [simp]: "risk_text a = risk_text b \<longleftrightarrow> a = b"
  by (cases a; cases b) simp_all

lemma followup_type_text_inject [simp]: "followup_type_text a = followup_type_text b \<longleftrightarrow> a = b"
  by (cases a; cases b) simp_all

lemma targets_json_inject [simp]:
  fixes a b :: task_targets
  shows "canonical_tree (targets_json a) = canonical_tree (targets_json b) \<longleftrightarrow> a = b"
  by (cases a; cases b) (auto simp: targets_json_def dest!: object_of_inject)

lemma task_json_inject [simp]:
  fixes a b :: task
  shows "canonical_tree (task_json a) = canonical_tree (task_json b) \<longleftrightarrow> a = b"
proof
  assume "canonical_tree (task_json a) = canonical_tree (task_json b)"
  from object_of_inject [OF this [unfolded task_json_def]]
  show "a = b" by (cases a; cases b) (simp del: canonical_tree.simps)
qed simp

lemma option_json_inject [simp]:
  fixes a b :: followup_option
  shows "canonical_tree (option_json a) = canonical_tree (option_json b) \<longleftrightarrow> a = b"
  by (cases a; cases b) (auto simp: option_json_def dest!: object_of_inject)

lemma lists_json_inject [simp]:
  "canonical_tree (JArray (map option_json xs)) = canonical_tree (JArray (map option_json ys)) \<longleftrightarrow> xs = ys"
  "canonical_tree (JArray (map task_json ts)) = canonical_tree (JArray (map task_json us)) \<longleftrightarrow> ts = us"
  by (simp_all add: map_inject_canonical [where R = "(=)"] list.rel_eq del: canonical_tree.simps)

lemma draft_json_inject [simp]:
  fixes a b :: followup_draft
  shows "canonical_tree (draft_json a) = canonical_tree (draft_json b) \<longleftrightarrow> a = b"
proof
  assume "canonical_tree (draft_json a) = canonical_tree (draft_json b)"
  from object_of_inject [OF this [unfolded draft_json_def]]
  show "a = b" by (cases a; cases b) (simp del: canonical_tree.simps)
qed simp

lemma drafts_json_inject [simp]:
  "canonical_tree (JArray (map draft_json xs)) = canonical_tree (JArray (map draft_json ys)) \<longleftrightarrow> xs = ys"
  by (simp add: map_inject_canonical [where R = "(=)"] list.rel_eq del: canonical_tree.simps)

lemma generator_json_inject [simp]: "canonical_tree (generator_json a) = canonical_tree (generator_json b) \<longleftrightarrow> a = b"
  by (cases a; cases b) (auto simp: generator_json_def dest!: object_of_inject)

lemma plan_parts_inject:
  "canonical_tree (plan_metadata_json p) = canonical_tree (plan_metadata_json q) \<longleftrightarrow>
     plan_id p = plan_id q \<and> plan_title p = plan_title q \<and> plan_created_at p = plan_created_at q
       \<and> plan_generated_by p = plan_generated_by q"
  "canonical_tree (plan_spec_json p) = canonical_tree (plan_spec_json q) \<longleftrightarrow>
     plan_spec_id p = plan_spec_id q \<and> plan_spec_digest p = plan_spec_digest q"
  "canonical_tree (plan_repository_json p) = canonical_tree (plan_repository_json q) \<longleftrightarrow>
     plan_revision p = plan_revision q \<and> plan_snapshot_digest p = plan_snapshot_digest q"
  by (auto simp: plan_metadata_json_def plan_spec_json_def plan_repository_json_def
      dest!: object_of_inject simp del: canonical_tree.simps)

lemma plan_json_inject: "canonical_tree (plan_json p) = canonical_tree (plan_json q) \<longleftrightarrow> p = q"
proof
  assume "canonical_tree (plan_json p) = canonical_tree (plan_json q)"
  from object_of_inject [OF this [unfolded plan_json_def]]
  show "p = q" by (cases p; cases q) (simp del: canonical_tree.simps add: plan_parts_inject)
qed simp

text \<open>
  C21: two plans have the same digest exactly when they agree in everything but the order and
  repetition of their set-like arrays, or the hash collides on their two canonical texts.
\<close>
theorem plan_digest_exact:
  "plan_digest sha p = plan_digest sha q \<longleftrightarrow>
     p\<lparr>plan_tasks := []\<rparr> = q\<lparr>plan_tasks := []\<rparr> \<and> list_all2 same_task (plan_tasks p) (plan_tasks q)
     \<or> collides sha (plan_json (normalize_plan p)) (plan_json (normalize_plan q))"
  by (simp add: plan_digest_def digest_json_eq_iff plan_json_inject normalize_plan_eq_iff)

end
