(* ===== verification/Sweep.thy ===== *)
theory Sweep
  imports Criteria PlanDigest
begin

text \<open>
  The verification sweep, \<^verbatim>\<open>packages/runtime/src/verify.ts\<close>: suites are resolved, every criterion of
  every property is executed with its evidence, events and follow-ups recorded, and the states of
  the properties are derived and recorded. It changes the stores of the run and nothing else.
\<close>

section \<open>verifyProperties\<close>

definition phase_field :: "sweep_request \<Rightarrow> (string \<times> json option) list" where
  "phase_field q = [(''phase'', if sq_red q then Some (JString ''red'') else None)]"

definition task_field :: "sweep_request \<Rightarrow> (string \<times> json option) list" where
  "task_field q = [(''taskId'', map_option JString (sq_task_id q))]"

definition approved_commands :: "followup list \<Rightarrow> string list" where
  "approved_commands fs =
     List.map_filter (\<lambda>f. if fu_status f = Resolved \<and> fu_type f = Approval
         \<and> Option.bind (fu_resolution f) res_option_id = Some ''approve'' then when_truthy (fu_command f) else None) fs"

definition resolve_suites :: "sweep_request \<Rightarrow> (sweep_error, desired_property list \<times> suite_provenance) result" where
  "resolve_suites q =
     (case sq_suites q of
        Some suites \<Rightarrow> normalize_suite_criteria suites [] (sq_properties q)
      | None \<Rightarrow>
          if list_ex (\<lambda>p. list_ex is_suite (dp_acceptance p)) (sq_properties q)
          then Inl (SuiteUnresolved ''suite-reference criteria present but no suite registry was provided to the sweep'')
          else Inr (sq_properties q, []))"

definition execution_event :: "sweep_request \<Rightarrow> 'w sweep_env \<Rightarrow> string \<Rightarrow> criterion_result \<Rightarrow> 'w run_stores \<Rightarrow> 'w run_stores" where
  "execution_event q env cid r s =
     (case re_execution r of
        Some (i, True, origin) \<Rightarrow>
          emit env COMMAND_RESULT_REUSED
            (present ([(''command'', Some (JString (case re_run r of Some (Ran run) \<Rightarrow> cr_command run | _ \<Rightarrow> []))),
               (''executionId'', Some (JString i)), (''originRunId'', Some (JString origin)),
               (''criterionId'', Some (JString cid))] @ task_field q @ phase_field q)) s
      | _ \<Rightarrow>
          (case re_run r of
             Some (Ran run) \<Rightarrow>
               if cr_allowed run then
                 emit env COMMAND_EXECUTED
                   (present ([(''command'', Some (JString (cr_command run))), (''cwd'', Some (JString (sv_cwd env))),
                      (''exitCode'', Some (case cr_exit_code run of None \<Rightarrow> JNull | Some n \<Rightarrow> JNum n)),
                      (''durationMs'', Some (JNum (cr_duration_ms run))), (''stdoutDigest'', Some (JString (cr_stdout_digest run))),
                      (''stderrDigest'', Some (JString (cr_stderr_digest run))), (''timedOut'', Some (JBool (cr_timed_out run))),
                      (''executionId'', map_option (\<lambda>x. JString (fst x)) (re_execution r))] @ task_field q @ phase_field q)) s
               else s
           | _ \<Rightarrow> s))"

definition raise_followup :: "'w sweep_env \<Rightarrow> followup_draft option \<Rightarrow> 'w run_stores \<Rightarrow> 'w run_stores" where
  "raise_followup env draft s =
     (case draft of
        None \<Rightarrow> s
      | Some d \<Rightarrow>
          if Option.bind (fu_criterion_id d) (find_open_for_criterion (st_followups s)) \<noteq> None then s
          else
            (case create_followup env d s of
               (f, s1) \<Rightarrow> emit env FOLLOWUP_CREATED
                 (present [(''followupId'', Some (JString (fu_id f))), (''blocking'', Some (JBool (fu_blocking f))),
                           (''type'', Some (JString (followup_type_text (fu_type f)))),
                           (''propertyId'', map_option JString (when_truthy (fu_property_id f)))]) s1))"

definition evidence_event :: "sweep_request \<Rightarrow> 'w sweep_env \<Rightarrow> evidence \<Rightarrow> 'w run_stores \<Rightarrow> 'w run_stores" where
  "evidence_event q env e s = emit env EVIDENCE_RECORDED
     (present ([(''evidenceId'', Some (JString (ev_id e))), (''propertyRefs'', Some (strings_json (ev_property_refs e))),
        (''criterionId'', map_option JString (when_truthy (ev_criterion_id e))), (''kind'', Some (JString (kind_text (ev_kind e)))),
        (''outcome'', Some (JString (outcome_text (ev_outcome e))))] @ task_field q @ phase_field q)) s"

text \<open>One criterion: skipped when its human follow-up is open.\<close>

definition sweep_criterion ::
  "'w sweep_env \<Rightarrow> sweep_request \<Rightarrow> string list \<Rightarrow> suite_provenance \<Rightarrow> desired_property \<Rightarrow> acceptance_criterion
     \<Rightarrow> 'w run_stores \<Rightarrow> sweep_error option \<times> 'w run_stores" where
  "sweep_criterion env q approved prov p c s =
     (if type_of_criterion c = THuman \<and> find_open_for_criterion (st_followups s) (criterion_id c) \<noteq> None then (None, s)
      else
        (case verify_criterion env q approved prov p c s of
           (Inl err, s1) \<Rightarrow> (Some err, s1)
         | (Inr r, s1) \<Rightarrow>
             (case add_evidence env (re_evidence r) s1 of
                (e, s2) \<Rightarrow>
                  (None, raise_followup env (re_followup r)
                     (execution_event q env (criterion_id c) r (evidence_event q env e s2))))))"

fun sweep_criteria ::
  "'w sweep_env \<Rightarrow> sweep_request \<Rightarrow> string list \<Rightarrow> suite_provenance \<Rightarrow> (desired_property \<times> acceptance_criterion) list
     \<Rightarrow> 'w run_stores \<Rightarrow> sweep_error option \<times> 'w run_stores" where
  "sweep_criteria env q approved prov [] s = (None, s)"
| "sweep_criteria env q approved prov ((p, c) # pcs) s =
     (case sweep_criterion env q approved prov p c s of
        (Some err, s1) \<Rightarrow> (Some err, s1)
      | (None, s1) \<Rightarrow> sweep_criteria env q approved prov pcs s1)"

definition criteria_of :: "desired_property list \<Rightarrow> (desired_property \<times> acceptance_criterion) list" where
  "criteria_of ps = concat (map (\<lambda>p. map (Pair p) (dp_acceptance p)) ps)"

definition sweep_options :: "'w sweep_env \<Rightarrow> sweep_request \<Rightarrow> evaluation_options" where
  "sweep_options env q =
     \<lparr>eo_allow_agent_only = sv_allow_agent_only env, eo_in_progress = [],
      eo_require_red = (sq_enforce_red q \<and> sv_require_red env), eo_inherited = sq_inherited q\<rparr>"

definition verified_payload :: "sweep_request \<Rightarrow> requirement_state \<Rightarrow> (string \<times> json) list" where
  "verified_payload q st =
     present ([(''propertyId'', Some (JString (rs_property_id st))), (''status'', Some (JString (requirement_status_text (rs_status st)))),
        (''evidenceIds'', Some (strings_json (rs_evidence_ids st))), (''reason'', map_option JString (when_truthy (rs_reason st))),
        (''weakEvidence'', if rs_weak_evidence st = Some True then Some (JBool True) else None),
        (''redPhase'', map_option (JString \<circ> red_phase_text) (rs_red_phase st))] @ phase_field q)"

fun derive_states ::
  "'w sweep_env \<Rightarrow> sweep_request \<Rightarrow> desired_property list \<Rightarrow> 'w run_stores \<Rightarrow> requirement_state list \<times> 'w run_stores" where
  "derive_states env q [] s = ([], s)"
| "derive_states env q (p # ps) s =
     (let st = evaluate_property p (vs_records (st_evidence s)) (sweep_options env q) (now_of env s)
      in case derive_states env q ps (emit env PROPERTY_VERIFIED (verified_payload q st) (tick s)) of
           (sts, s') \<Rightarrow> (st # sts, s'))"

definition verify_properties ::
  "'w sweep_env \<Rightarrow> sweep_request \<Rightarrow> 'w run_stores \<Rightarrow> (sweep_error, requirement_state list) result \<times> 'w run_stores" where
  "verify_properties env q s =
     (case resolve_suites q of
        Inl err \<Rightarrow> (Inl err, s)
      | Inr (ps, prov) \<Rightarrow>
          (case sweep_criteria env q (approved_commands (st_followups s)) prov (criteria_of ps)
                  (if sq_shared q then s else s\<lparr>st_runs := []\<rparr>) of
             (Some err, s1) \<Rightarrow> (Inl err, s1)
           | (None, s1) \<Rightarrow> (case derive_states env q ps s1 of (sts, s2) \<Rightarrow> (Inr sts, s2))))"
section \<open>The projection agrees with the sweep\<close>

lemma emit_fields [simp]:
  "st_evidence (emit env ty p s) = st_evidence s" "st_followups (emit env ty p s) = st_followups s"
  "st_usage (emit env ty p s) = st_usage s" "st_world (emit env ty p s) = st_world s" "st_runs (emit env ty p s) = st_runs s"
  "st_verdicts (emit env ty p s) = st_verdicts s" "st_cache (emit env ty p s) = st_cache s"
  "st_log (tick s) = st_log s" "st_evidence (tick s) = st_evidence s" "st_followups (tick s) = st_followups s"
  "st_world (tick s) = st_world s" "st_usage (tick s) = st_usage s"
  by (simp_all add: emit_def tick_def)

definition log_of :: "'w run_stores \<Rightarrow> event list" where "log_of s = es_events (st_log s)"

lemma log_of_simps [simp]: "log_of (tick s) = log_of s"
  by (simp add: log_of_def)

lemma emit_log: "\<exists>e. log_of (emit env ty p s) = log_of s @ [e] \<and> e_type e = ty \<and> e_payload e = p"
  by (simp add: log_of_def emit_def tick_def event_append_def new_event_def Let_def)

definition plain_state :: "requirement_state \<Rightarrow> bool" where
  "plain_state st \<longleftrightarrow> rs_reason st \<noteq> Some [] \<and> rs_weak_evidence st \<noteq> Some False \<and> rs_property_id st \<noteq> []"

lemma status_of_text [simp]: "requirement_status_of (requirement_status_text x) = Some x"
  by (cases x) (simp_all add: requirement_status_of_def)

lemma red_of_text [simp]: "red_phase_of (red_phase_text x) = Some x"
  by (cases x) (simp_all add: red_phase_of_def)

lemma strings_read: "List.map_filter (\<lambda>j. case j of JString s \<Rightarrow> Some s | _ \<Rightarrow> None) (map JString xs) = xs"
  by (induction xs) (simp_all add: List.map_filter_simps)

lemma verified_payload_read:
  assumes "plain_state st"
  shows "p_name (verified_payload q st) ''propertyId'' = Some (rs_property_id st)"
    "e_payload e = verified_payload q st \<Longrightarrow>
       verified_requirement e (rs_property_id st) = st\<lparr>rs_updated_at := e_timestamp e\<rparr>"
proof -
  note read = verified_payload_def p_name_def p_string_def p_strings_def phase_field_def strings_json_def strings_read when_truthy_def
  show "p_name (verified_payload q st) ''propertyId'' = Some (rs_property_id st)"
    using assms by (simp add: read plain_state_def)
  assume e: "e_payload e = verified_payload q st"
  have p: "p_string (verified_payload q st) ''status'' = Some (requirement_status_text (rs_status st))"
    "p_strings (verified_payload q st) ''evidenceIds'' = rs_evidence_ids st"
    by (simp_all add: read)
  have r: "p_string (verified_payload q st) ''reason'' = rs_reason st"
    using assms by (cases "rs_reason st"; cases "rs_weak_evidence st"; cases "rs_red_phase st") (simp_all add: read plain_state_def)
  have w: "(if map_of (verified_payload q st) ''weakEvidence'' = Some (JBool True) then Some True else None) = rs_weak_evidence st"
    using assms by (cases "rs_reason st"; cases "rs_weak_evidence st"; cases "rs_red_phase st") (simp_all add: read plain_state_def)
  have d: "Option.bind (p_string (verified_payload q st) ''redPhase'') red_phase_of = rs_red_phase st"
    using assms by (cases "rs_reason st"; cases "rs_weak_evidence st"; cases "rs_red_phase st") (simp_all add: read plain_state_def)
  show "verified_requirement e (rs_property_id st) = st\<lparr>rs_updated_at := e_timestamp e\<rparr>"
    by (simp add: verified_requirement_def e p r w d)
qed

lemma evaluate_property_id [simp]: "rs_property_id (evaluate_property p es opts now) = dp_id p"
  by (simp add: evaluate_property_def Let_def split: option.splits prod.splits)

lemma aggregate_plain: "aggregate opts pid vs = (st, reason, weak) \<Longrightarrow> reason \<noteq> Some [] \<and> weak \<noteq> Some False"
  by (auto simp: aggregate_def inherited_reason_def Let_def split: option.splits if_splits)

lemma evaluate_property_plain: "dp_id p \<noteq> [] \<Longrightarrow> plain_state (evaluate_property p es opts now)"
  unfolding plain_state_def evaluate_property_id
  by (auto simp: evaluate_property_def Let_def split: option.splits prod.splits dest: aggregate_plain)

lemma verified_event:
  assumes "plain_state st" "e_type e = PROPERTY_VERIFIED" "e_payload e = verified_payload q st"
  shows "run_requirements (apply_event s e) = (run_requirements s)(rs_property_id st \<mapsto> st\<lparr>rs_updated_at := e_timestamp e\<rparr>)"
  using assms verified_payload_read(1) [OF assms(1), where q = q] verified_payload_read(2) [OF assms(1,3)] by (simp add: apply_event_simps apply_change_requirements)

text \<open>The states the sweep returned are those the log records, the time of the update aside.\<close>

definition records_states :: "requirement_state list \<Rightarrow> run_state \<Rightarrow> bool" where
  "records_states sts s \<longleftrightarrow>
     (\<forall>st \<in> set sts. \<exists>t. run_requirements s (rs_property_id st) = Some (st\<lparr>rs_updated_at := t\<rparr>))"

lemma derive_states_projection:
  assumes "derive_states env q ps s = (sts, s')" "distinct (map dp_id ps)" "[] \<notin> set (map dp_id ps)"
  shows "map rs_property_id sts = map dp_id ps
    \<and> records_states sts (project_state meta plan (log_of s'))
    \<and> (\<forall>pid. pid \<notin> set (map dp_id ps) \<longrightarrow> run_requirements (project_state meta plan (log_of s')) pid
          = run_requirements (project_state meta plan (log_of s)) pid)"
  using assms
proof (induction ps arbitrary: s sts s')
  case Nil
  then show ?case by (simp add: records_states_def)
next
  case (Cons p ps)
  let ?st = "evaluate_property p (vs_records (st_evidence s)) (sweep_options env q) (now_of env s)"
  let ?s1 = "emit env PROPERTY_VERIFIED (verified_payload q ?st) (tick s)"
  obtain sts1 where d: "derive_states env q ps ?s1 = (sts1, s')" and sts: "sts = ?st # sts1"
    using Cons.prems(1) by (auto simp: Let_def split: prod.splits)
  have ids: "dp_id p \<noteq> []" "dp_id p \<notin> set (map dp_id ps)" using Cons.prems(2,3) by auto
  obtain e where e: "log_of ?s1 = log_of s @ [e]" "e_type e = PROPERTY_VERIFIED" "e_payload e = verified_payload q ?st"
    using emit_log [of env PROPERTY_VERIFIED "verified_payload q ?st" "tick s"] by auto
  have req: "run_requirements (project_state meta plan (log_of ?s1))
      = (run_requirements (project_state meta plan (log_of s)))(dp_id p \<mapsto> ?st\<lparr>rs_updated_at := e_timestamp e\<rparr>)"
    using verified_event [OF evaluate_property_plain [OF ids(1)] e(2,3)] by (simp add: e(1))
  have "map rs_property_id sts1 = map dp_id ps"
    and rec: "records_states sts1 (project_state meta plan (log_of s'))"
    and frame: "\<And>pid. pid \<notin> set (map dp_id ps) \<Longrightarrow> run_requirements (project_state meta plan (log_of s')) pid
          = run_requirements (project_state meta plan (log_of ?s1)) pid"
    using Cons.IH [OF d] Cons.prems(2,3) by auto
  moreover have "run_requirements (project_state meta plan (log_of s')) (dp_id p) = Some (?st\<lparr>rs_updated_at := e_timestamp e\<rparr>)"
    using frame [OF ids(2)] req by simp
  ultimately show ?case
    using rec frame req ids by (auto simp: sts records_states_def)
qed

lemma normalize_suite_ids:
  "normalize_suite_criteria suites prov ps = Inr (qs, prov') \<Longrightarrow> map dp_id qs = map dp_id ps"
proof (induction suites prov ps arbitrary: qs prov' rule: normalize_suite_criteria.induct)
  case (2 suites prov p ps)
  then obtain q prov1 qs1 where "qs = q # qs1" "normalize_suite_criteria suites prov1 ps = Inr (qs1, prov')" "dp_id q = dp_id p"
    by (auto simp: result_iff split: if_splits prod.splits)
  with 2(1) show ?case by (auto simp: result_iff)
qed simp

lemma resolve_suites_ids: "resolve_suites q = Inr (ps, prov) \<Longrightarrow> map dp_id ps = map dp_id (sq_properties q)"
  by (auto simp: resolve_suites_def dest: normalize_suite_ids split: option.splits if_splits)

lemma verify_properties_records:
  assumes "verify_properties env q s = (Inr sts, s')"
    and "distinct (map dp_id (sq_properties q))" "[] \<notin> set (map dp_id (sq_properties q))"
  shows "map rs_property_id sts = map dp_id (sq_properties q)
    \<and> records_states sts (project_state meta plan (log_of s'))"
proof -
  from assms(1) obtain ps prov s1 where ps: "resolve_suites q = Inr (ps, prov)" "derive_states env q ps s1 = (sts, s')"
    by (auto simp: verify_properties_def split: sum.splits prod.splits option.splits)
  with assms(2,3) resolve_suites_ids [OF ps(1)] derive_states_projection [OF ps(2), of meta plan]
  show ?thesis by simp
qed

text \<open>
  C28: the log carries the sweep: after a sweep over properties with distinct identifiers, the state
  projected from the event log shows for every property the status, evidence, reason and flip
  state the sweep returned.
\<close>
theorem sweep_refines_projection:
  assumes "verify_properties env q s = (Inr sts, s')"
    and "distinct (map dp_id (sq_properties q))" "[] \<notin> set (map dp_id (sq_properties q))"
  shows "map rs_property_id sts = map dp_id (sq_properties q)
    \<and> records_states sts (project_state meta plan (es_events (st_log s')))"
  using verify_properties_records [OF assms, of meta plan] by (simp add: log_of_def)

definition sample_env :: "unit sweep_env" where
  "sample_env =
     \<lparr>sv_sha = (\<lambda>s. []), sv_vars = [], sv_clock = (\<lambda>n. ''t'' @ show_nat n), sv_uuid = (\<lambda>n. ''id''),
      sv_spawn = (\<lambda>c w. (Exited (Some 0) None ''ok'' [] False 5, w)),
      sv_file = (\<lambda>w p. if p = ''a.txt'' then Some (Some ''text'', 4) else None), sv_view = (\<lambda>w. (FsDir [], None)),
      sv_provider = None, sv_commands = default_commands, sv_timeout_ms = 1000, sv_max_output = 100,
      sv_allow_agent_only = False, sv_require_red = True, sv_run_id = ''run-1'', sv_cwd = ''/w''\<rparr>"

definition sample_property :: "acceptance_criterion list \<Rightarrow> desired_property" where
  "sample_property cs =
     \<lparr>dp_kind = KRequirement, dp_id = ''REQ-001'', dp_statement = ''holds'', dp_priority = Must, dp_category = None,
      dp_depends_on = [], dp_acceptance = cs, dp_scope = None, dp_metadata = None\<rparr>"

definition sample_request :: "acceptance_criterion list \<Rightarrow> sweep_request" where
  "sample_request cs =
     \<lparr>sq_properties = [sample_property cs], sq_task_id = None, sq_red = False, sq_enforce_red = True, sq_environment_ready = True,
      sq_inherited = [], sq_suites = None, sq_revision = ''rev'', sq_shared = False, sq_report_usage = False\<rparr>"

definition sample_stores :: "unit run_stores" where
  "sample_stores =
     \<lparr>st_log = open_log ''run-1'' None, st_evidence = open_evidence None, st_followups = [], st_usage = [], st_verdicts = [],
      st_runs = [], st_cache = None, st_tick = 0, st_world = ()\<rparr>"

definition file_criterion :: acceptance_criterion where
  "file_criterion = FileCriterion ''REQ-001-a'' ''a.txt''
     \<lparr>assert_exists = Some True, assert_contains = None, assert_not_contains = None\<rparr> None"

theorem sweep_refines_projection_witness:
  "\<exists>sts s'. verify_properties sample_env (sample_request [file_criterion]) sample_stores = (Inr sts, s')
     \<and> sts \<noteq> [] \<and> records_states sts (project_state sample_meta None (es_events (st_log s')))"
proof -
  let ?r = "verify_properties sample_env (sample_request [file_criterion]) sample_stores"
  have "(case fst ?r of Inr sts \<Rightarrow> map rs_status sts = [Satisfied] | Inl _ \<Rightarrow> False)" by code_simp
  then obtain sts where sts: "fst ?r = Inr sts" "map rs_status sts = [Satisfied]" by (auto split: sum.splits)
  then have r: "?r = (Inr sts, snd ?r)" by (metis prod.collapse)
  have ids: "distinct (map dp_id (sq_properties (sample_request [file_criterion])))"
    "[] \<notin> set (map dp_id (sq_properties (sample_request [file_criterion])))" by code_simp+
  from sweep_refines_projection [OF r ids] r sts(2) show ?thesis by auto
qed

section \<open>Gated commands\<close>

lemma run_command_denied:
  "\<not> cd_allowed (evaluate_command_policy command config) \<Longrightarrow>
     run_command sha vars n config spawn command w = (r, w') \<Longrightarrow> w' = w \<and> cr_denied_reason r \<noteq> None \<and> cr_timed_out r = False"
  by (auto simp: run_command_def Let_def)

lemma policy_allowed: "cd_allowed (evaluate_command_policy command config) \<longleftrightarrow> cd_policy (evaluate_command_policy command config) = PolicyAllow"
  by (simp add: evaluate_command_policy_def Let_def split: option.splits policy_value.splits)

text \<open>
  a command the policy denies, or gates without an approval on record, is not executed: the
  world is as it was. Without the approval its evidence is inconclusive and asks for one.
\<close>
theorem gated_command_not_run:
  assumes "cd_policy (evaluate_command_policy command (sv_commands env)) \<noteq> PolicyAllow"
    and "cd_policy (evaluate_command_policy command (sv_commands env)) = PolicyApproval \<Longrightarrow> command \<notin> set approved"
    and "st_runs s = []" "verify_command env q approved prov c p command expected ms s = (r, s')"
  shows "st_world s' = st_world s \<and> (cd_policy (evaluate_command_policy command (sv_commands env)) = PolicyApproval \<longrightarrow>
     (case r of Inr x \<Rightarrow> ev_outcome (re_evidence x) = Inconclusive \<and> re_followup x \<noteq> None \<and> re_run x = None | Inl _ \<Rightarrow> False))"
proof (cases "cd_policy (evaluate_command_policy command (sv_commands env)) = PolicyApproval")
  case True
  with assms(2,4) show ?thesis
    by (auto simp: verify_command_def Let_def awaiting_approval_def make_evidence_def)
next
  case False
  let ?d = "evaluate_command_policy command (sv_commands env)"
  have denied: "\<not> cd_allowed ?d" using assms(1) by (simp add: policy_allowed)
  have run: "st_world s2 = st_world s1 \<and> cr_timed_out run = False" if "physical_run env ?d command s1 = (run, s2)" for s1 run s2
    using that False
    by (auto simp: physical_run_def Let_def split: prod.splits dest!: run_command_denied [OF denied])
  have fresh: "st_world s2 = st_world s1 \<and> (\<forall>run ex. out = Inr (run, ex) \<longrightarrow> \<not> run_timed_out run)"
    if "fresh_run env ?d command expected key s1 = (out, s2)" for s1 out s2 key
  proof -
    obtain run s3 where p: "physical_run env ?d command s1 = (run, s3)" by force
    with run [OF p] that show ?thesis
      by (auto simp: fresh_run_def memoize_def store_in_cache_def tick_def Let_def split: option.splits sum.splits if_splits)
  qed
  obtain out s1 where f: "first_run env ?d command expected (command @ nul @ show_int expected @ nul @ show_int ms) s = (out, s1)" by force
  have w: "st_world s1 = st_world s"
    using f fresh assms(3) by (auto simp: first_run_def split: option.splits sum.splits)
  show ?thesis
  proof (cases out)
    case (Inl err)
    with f w assms(4) False show ?thesis by (auto simp: verify_command_def Let_def split: if_splits)
  next
    case (Inr x)
    obtain run ex where x: "x = (run, ex)" by (rule prod.exhaust)
    show ?thesis
    proof (cases "run_timed_out run \<and> run_denied run = None")
      case True
      obtain out2 s2 where g: "fresh_run env ?d command expected (command @ nul @ show_int expected @ nul @ show_int ms) s1 = (out2, s2)" by force
      with f w Inr x True assms(4) False fresh [OF g] show ?thesis
        by (auto simp: verify_command_def Let_def split: if_splits sum.splits prod.splits)
    next
      case nt: False
      with f w Inr x assms(4) False show ?thesis by (auto simp: verify_command_def Let_def split: if_splits)
    qed
  qed
qed

theorem gated_command_not_run_witness:
  "\<exists>r s'. verify_command sample_env (sample_request []) [] [] file_criterion (sample_property []) ''curl http://x'' 0 1000 sample_stores = (r, s')
     \<and> st_world s' = st_world sample_stores"
proof -
  obtain r s' where v: "verify_command sample_env (sample_request []) [] [] file_criterion (sample_property []) ''curl http://x'' 0 1000 sample_stores = (r, s')"
    by force
  have c: "cd_policy (evaluate_command_policy ''curl http://x'' (sv_commands sample_env)) = PolicyDeny" "st_runs sample_stores = []"
    by code_simp+
  show ?thesis using gated_command_not_run [OF _ _ c(2) v] v c(1) by simp
qed

section \<open>The stores only grow\<close>

text \<open>The events a sweep records: none of them moves a task or the plan.\<close>

definition criterion_events :: "event_type list" where
  "criterion_events = [COMMAND_EXECUTED, COMMAND_RESULT_REUSED, FOLLOWUP_CREATED, EVIDENCE_RECORDED, USAGE_RECORDED]"

definition sweep_events :: "event_type list" where
  "sweep_events = PROPERTY_VERIFIED # criterion_events"

definition appends :: "event_type list \<Rightarrow> event list \<Rightarrow> event list \<Rightarrow> bool" where
  "appends types es es' \<longleftrightarrow> (\<exists>new. es' = es @ new \<and> list_all (\<lambda>e. e_type e \<in> set types) new)"

lemma appends_refl [simp]: "appends types es es" by (simp add: appends_def)

lemma appends_trans: "appends types a b \<Longrightarrow> appends types b c \<Longrightarrow> appends types a c"
  unfolding appends_def by (metis append.assoc list_all_append)

lemma appends_prefix: "appends types es es' \<Longrightarrow> prefix es es'" by (auto simp: appends_def)

text \<open>The model calls a sweep accounts for are the verifier's.\<close>

definition reports :: "usage_record list \<Rightarrow> usage_record list \<Rightarrow> bool" where
  "reports us us' \<longleftrightarrow> (\<exists>new. us' = us @ new \<and> list_all (\<lambda>u. us_role u = ''verifier'') new)"

lemma reports_refl [simp]: "reports us us" by (simp add: reports_def)

lemma reports_snoc: "reports us (us @ [u]) \<longleftrightarrow> us_role u = ''verifier''" by (simp add: reports_def)

lemma reports_trans: "reports a b \<Longrightarrow> reports b c \<Longrightarrow> reports a c"
  by (auto simp: reports_def)

definition grows_by :: "event_type list \<Rightarrow> 'w run_stores \<Rightarrow> 'w run_stores \<Rightarrow> bool" where
  "grows_by types s s' \<longleftrightarrow> appends types (log_of s) (log_of s') \<and> prefix (vs_records (st_evidence s)) (vs_records (st_evidence s'))
     \<and> prefix (st_followups s) (st_followups s') \<and> reports (st_usage s) (st_usage s')"

abbreviation grows :: "'w run_stores \<Rightarrow> 'w run_stores \<Rightarrow> bool" where "grows \<equiv> grows_by sweep_events"

abbreviation observes :: "'w run_stores \<Rightarrow> 'w run_stores \<Rightarrow> bool" where "observes \<equiv> grows_by criterion_events"

lemma observes_grows: "observes s s' \<Longrightarrow> grows s s'"
  by (auto simp: grows_by_def appends_def list_all_iff sweep_events_def)

lemma grows_refl [simp]: "grows_by types s s" by (simp add: grows_by_def)

lemma grows_trans: "grows_by types s t \<Longrightarrow> grows_by types t u \<Longrightarrow> grows_by types s u"
  unfolding grows_by_def by (elim conjE, intro conjI; blast intro: appends_trans reports_trans prefix_order.trans)

lemma grows_same:
  "log_of s' = log_of s \<Longrightarrow> st_evidence s' = st_evidence s \<Longrightarrow> st_followups s' = st_followups s \<Longrightarrow> st_usage s' = st_usage s \<Longrightarrow> grows_by types s s'"
  by (simp add: grows_by_def)

lemma grows_tick [simp]: "grows_by types s (tick s)" by (rule grows_same) simp_all

lemma grows_emit [simp]: "ty \<in> set types \<Longrightarrow> grows_by types s (emit env ty p s)"
  using emit_log [of env ty p s] by (auto simp: grows_by_def appends_def)

lemma swept [simp]: "COMMAND_EXECUTED \<in> set criterion_events" "COMMAND_RESULT_REUSED \<in> set criterion_events"
  "FOLLOWUP_CREATED \<in> set criterion_events" "EVIDENCE_RECORDED \<in> set criterion_events" "PROPERTY_VERIFIED \<in> set sweep_events"
  "USAGE_RECORDED \<in> set criterion_events"
  by (simp_all add: sweep_events_def criterion_events_def)

lemma evidence_add_grows: "prefix (vs_records st) (vs_records (fst (evidence_add sha st r)))"
  by (auto simp: evidence_add_def adopt_disk_tail_def Let_def split: option.splits prod.splits if_splits)

lemma grows_evidence: "add_evidence env e s = (full, s') \<Longrightarrow> grows_by types s s'"
  using evidence_add_grows [of "st_evidence s"] unfolding add_evidence_def
  by (auto simp: grows_by_def log_of_def split: prod.splits) (metis fst_conv)

lemma grows_followup: "create_followup env d s = (f, s') \<Longrightarrow> grows_by types s s'"
  by (auto simp: create_followup_def followup_create_def Let_def grows_by_def log_of_def tick_def)

lemma grows_raise: "observes s (raise_followup env d s)"
  by (auto simp: raise_followup_def split: option.splits prod.splits intro: grows_trans [OF grows_followup grows_emit])

lemma fresh_run_grows: "fresh_run env d command expected key s = (r, s') \<Longrightarrow> observes s s'"
  by (auto simp: fresh_run_def physical_run_def memoize_def store_in_cache_def Let_def grows_by_def log_of_def tick_def
      split: prod.splits sum.splits option.splits if_splits)

lemma first_run_grows: "first_run env d command expected key s = (r, s') \<Longrightarrow> observes s s'"
  by (auto simp: first_run_def fresh_run_grows split: option.splits sum.splits)

lemma verify_command_grows:
  assumes "verify_command env q approved prov c p command expected ms s = (r, s')"
  shows "observes s s'"
proof -
  let ?d = "evaluate_command_policy command (sv_commands env)" and ?k = "command @ nul @ show_int expected @ nul @ show_int ms"
  obtain out s1 where f: "first_run env ?d command expected ?k s = (out, s1)" by force
  obtain out2 s2 where g: "fresh_run env ?d command expected ?k s1 = (out2, s2)" by force
  have "observes s s1" "observes s s2" using first_run_grows [OF f] fresh_run_grows [OF g] by (auto intro: grows_trans)
  with assms f g show ?thesis
    by (auto simp: verify_command_def Let_def split: if_splits sum.splits prod.splits intro: grows_trans [OF _ grows_tick])
qed

lemma verify_agent_grows:
  assumes "verify_agent env q c p instruction s = (r, s')"
  shows "observes s s'"
proof -
  have u: "observes s (emit env USAGE_RECORDED payload (tick (s\<lparr>st_world := w\<rparr>)\<lparr>st_usage := st_usage s @ [\<lparr>us_role = ''verifier'', us_request_id = i, us_model = model\<rparr>]\<rparr>))" for payload w i model
    by (rule grows_trans [OF _ grows_emit]) (simp_all add: grows_by_def log_of_def tick_def reports_snoc)
  have w: "observes s (tick (s\<lparr>st_world := w\<rparr>))" "observes s (s\<lparr>st_world := w\<rparr>)" for w
    by (auto simp: grows_by_def log_of_def tick_def)
  have v: "observes s s1 \<Longrightarrow> observes s (s1\<lparr>st_verdicts := x\<rparr>)" for s1 x
    by (auto simp: grows_by_def log_of_def)
  show ?thesis using assms
    by (auto simp: verify_agent_def Let_def split: option.splits prod.splits sum.splits if_splits intro!: v u w)
qed

lemma verify_criterion_grows: "verify_criterion env q approved prov p c s = (r, s') \<Longrightarrow> observes s s'"
  by (cases c) (auto simp: verify_command_grows verify_agent_grows verify_file_def verify_human_def Let_def split: if_splits)

lemma execution_event_grows: "observes s (execution_event q env cid r s)"
  by (auto simp: execution_event_def split: option.splits prod.splits bool.splits observed_run.splits)

lemma sweep_criterion_grows:
  assumes "sweep_criterion env q approved prov p c s = (err, s')"
  shows "observes s s'"
proof -
  obtain r s1 where v: "verify_criterion env q approved prov p c s = (r, s1)" by force
  note g = verify_criterion_grows [OF v]
  show ?thesis
  proof (cases "type_of_criterion c = THuman \<and> find_open_for_criterion (st_followups s) (criterion_id c) \<noteq> None")
    case True
    with assms show ?thesis by (simp add: sweep_criterion_def)
  next
    case False
    show ?thesis
    proof (cases r)
      case (Inl e)
      with assms v False g show ?thesis unfolding sweep_criterion_def by (simp split: if_splits)
    next
      case (Inr x)
      obtain e s2 where a: "add_evidence env (re_evidence x) s1 = (e, s2)" by force
      have "s' = raise_followup env (re_followup x) (execution_event q env (criterion_id c) x (evidence_event q env e s2))"
        using assms v Inr a unfolding sweep_criterion_def if_not_P [OF False] by simp
      then show ?thesis
        using grows_trans [OF grows_trans [OF g grows_evidence [OF a]]
            grows_trans [OF grows_emit grows_trans [OF execution_event_grows grows_raise]]]
        by (simp add: evidence_event_def)
    qed
  qed
qed

lemma sweep_criteria_grows: "sweep_criteria env q approved prov pcs s = (err, s') \<Longrightarrow> observes s s'"
  by (induction env q approved prov pcs s rule: sweep_criteria.induct)
    (auto split: prod.splits option.splits intro: grows_trans dest: sweep_criterion_grows)

lemma derive_states_grows: "derive_states env q ps s = (sts, s') \<Longrightarrow> grows s s'"
proof (induction ps arbitrary: s sts)
  case (Cons p ps)
  let ?s1 = "emit env PROPERTY_VERIFIED (verified_payload q (evaluate_property p (vs_records (st_evidence s)) (sweep_options env q) (now_of env s))) (tick s)"
  obtain sts1 where d: "derive_states env q ps ?s1 = (sts1, s')"
    using Cons.prems by (auto simp: Let_def split: prod.splits)
  have "grows s ?s1" by (rule grows_trans [OF grows_tick grows_emit]) simp
  with Cons.IH [OF d] show ?case by (blast intro: grows_trans)
qed simp

lemma verify_properties_grows:
  assumes "verify_properties env q s = (r, s')"
  shows "grows s s'"
proof -
  let ?s0 = "if sq_shared q then s else s\<lparr>st_runs := []\<rparr>"
  have start: "grows s ?s0" by (auto simp: grows_by_def log_of_def)
  show ?thesis
    using assms start
    by (auto simp: verify_properties_def split: sum.splits prod.splits option.splits
        intro: grows_trans dest!: sweep_criteria_grows [THEN observes_grows] derive_states_grows)
qed

text \<open>What a sweep leaves of the projected requirements, those it derives apart.\<close>

lemma observes_requirements:
  assumes "observes s s'"
  shows "run_requirements (project_state meta plan (log_of s')) = run_requirements (project_state meta plan (log_of s))"
proof -
  from assms obtain new where n: "log_of s' = log_of s @ new" "list_all (\<lambda>e. e_type e \<in> set criterion_events) new"
    by (auto simp: grows_by_def appends_def)
  have "list_all (\<lambda>e. e_type e \<in> set criterion_events) new \<Longrightarrow> run_requirements (foldl apply_event st new) = run_requirements st" for st
    by (induction new arbitrary: st) (auto simp: criterion_events_def apply_event_simps apply_change_requirements)
  with n show ?thesis by (simp add: project_state_append)
qed

lemma verify_properties_frame:
  assumes "verify_properties env q s = (Inr sts, s')"
    and "distinct (map dp_id (sq_properties q))" "[] \<notin> set (map dp_id (sq_properties q))"
    and "pid \<notin> set (map dp_id (sq_properties q))"
  shows "run_requirements (project_state meta plan (log_of s')) pid = run_requirements (project_state meta plan (log_of s)) pid"
proof -
  let ?s0 = "if sq_shared q then s else s\<lparr>st_runs := []\<rparr>"
  from assms(1) obtain ps prov s1 where ps: "resolve_suites q = Inr (ps, prov)" "derive_states env q ps s1 = (sts, s')"
    "sweep_criteria env q (approved_commands (st_followups s)) prov (criteria_of ps) ?s0 = (None, s1)"
    by (auto simp: verify_properties_def split: sum.splits prod.splits option.splits)
  have "log_of ?s0 = log_of s" by (simp add: log_of_def)
  with assms(2-4) resolve_suites_ids [OF ps(1)] derive_states_projection [OF ps(2), of meta plan]
    observes_requirements [OF sweep_criteria_grows [OF ps(3)], of meta plan]
  show ?thesis by simp
qed

text \<open>
  C29: a sweep rewrites nothing: whether it returns or throws, the events, evidence records,
  follow-ups and usage records from before it are a prefix of those after it, it records no
  event that moves a task or the plan, and accounts only for calls of the verifier.
\<close>
theorem sweep_append_only:
  assumes "verify_properties env q s = (r, s')"
  shows "appends sweep_events (es_events (st_log s)) (es_events (st_log s'))
    \<and> prefix (vs_records (st_evidence s)) (vs_records (st_evidence s'))
    \<and> prefix (st_followups s) (st_followups s') \<and> reports (st_usage s) (st_usage s')"
  using verify_properties_grows [OF assms] by (simp add: grows_by_def log_of_def)

theorem sweep_append_only_witness:
  "\<exists>r s'. verify_properties sample_env (sample_request [file_criterion]) sample_stores = (r, s')
     \<and> appends sweep_events (es_events (st_log sample_stores)) (es_events (st_log s'))"
proof -
  obtain r s' where "verify_properties sample_env (sample_request [file_criterion]) sample_stores = (r, s')" by force
  with sweep_append_only [OF this] show ?thesis by blast
qed

section \<open>Two findings\<close>

definition suite_criterion :: acceptance_criterion where
  "suite_criterion = SuiteCriterion ''A'' ''unit'' (Some True)"

definition unit_suite :: suite_registry where
  "unit_suite = [(''unit'', \<lparr>se_id = ''unit'', se_command = ''pnpm test'', se_digest = ''d''\<rparr>)]"

definition red_options :: evaluation_options where
  "red_options = \<lparr>eo_allow_agent_only = False, eo_in_progress = [], eo_require_red = True, eo_inherited = []\<rparr>"

definition green_everywhere :: "evidence list" where
  "green_everywhere = [(sample_evidence ''A'' Supports)\<lparr>ev_red := True\<rparr>, sample_evidence ''A'' Supports]"

text \<open>
  the flip rule is lost with a suite: a discriminating suite criterion that already passed at
  the base leaves its property indeterminate, but the resolution of the suite drops the mark, and
  the property the sweep evaluates is satisfied by the same evidence.
\<close>
theorem suite_flip_lost:
  "rs_status (evaluate_property (sample_property [suite_criterion]) green_everywhere red_options ''now'') = Indeterminate
   \<and> (case normalize_suite_criteria unit_suite [] [sample_property [suite_criterion]] of
        Inr (ps, prov) \<Rightarrow>
          map (\<lambda>p. rs_status (evaluate_property p green_everywhere red_options ''now'')) ps = [Satisfied]
      | Inl _ \<Rightarrow> False)"
  by code_simp

definition human_criterion :: acceptance_criterion where
  "human_criterion = HumanCriterion ''A'' ''look at it'' None"

definition answered :: followup where
  "answered = followup_draft.extend
     ((make_draft (sample_request []) human_criterion (sample_property []) ManualVerification ''t'' ''d''))
     (followup.fields ''F-001'' ''run-1'' Resolved ''t0'' (Some ''t0'')
        (Some \<lparr>res_option_id = Some ''confirm'', res_note = None, res_resolved_by = None\<rparr>))"

definition confirmed_stores :: "unit run_stores" where
  "confirmed_stores = sample_stores
     \<lparr>st_followups := [answered],
      st_evidence := \<lparr>vs_file = None,
         vs_records = [(sample_evidence ''A'' Supports)\<lparr>ev_kind := EvHuman, ev_timestamp := ''t''\<rparr>],
         vs_chain = Some Chained\<rparr>\<rparr>"

text \<open>
  a human answer does not last: a criterion a human confirmed is satisfied by that record, but
  the next sweep finds no open follow-up, records a later inconclusive one, asks again, and
  leaves the property indeterminate.
\<close>
theorem human_answer_overridden:
  "rs_status (evaluate_property (sample_property [human_criterion]) (vs_records (st_evidence confirmed_stores))
      red_options ''now'') = Satisfied
   \<and> (let r = verify_properties sample_env (sample_request [human_criterion]) confirmed_stores in
      (case fst r of Inr sts \<Rightarrow> map rs_status sts = [Indeterminate] | Inl _ \<Rightarrow> False)
      \<and> map fu_status (st_followups (snd r)) = [Resolved, Open])"
  by code_simp

end
