(* ===== verification/Resolve.thy ===== *)
theory Resolve
  imports Sweep
begin

text \<open>
  What happens after a run, \<^verbatim>\<open>packages/runtime/src/queries.ts\<close>: a human resolves a follow-up, which
  produces human evidence and derives the property's state anew; the conclusion of a standalone
  verification run; and the chain of parent runs. \<^verbatim>\<open>verifyStandalone\<close> of \<^verbatim>\<open>verify.ts\<close> is here too.
  The stores of the run are given as loaded; the state file is the run state it holds.
\<close>

section \<open>resolveFollowup\<close>

record resolve_request =
  rq_followup_id :: string
  rq_option_id :: "string option"
  rq_note :: "string option"
  rq_resolved_by :: "string option"
  rq_properties :: "desired_property list"

datatype resolve_error = FollowupUnknown string string | OptionInvalid string string "string list"

definition human_outcome :: "string option \<Rightarrow> evidence_outcome" where
  "human_outcome opt =
     (if opt = Some ''waive'' then Supports
      else if opt = Some ''reject'' then Contradicts
      else if opt = Some ''confirm'' then Supports else Inconclusive)"

definition null_or :: "string option \<Rightarrow> json" where
  "null_or x = (case x of None \<Rightarrow> JNull | Some s \<Rightarrow> JString s)"

definition resolution_of :: "resolve_request \<Rightarrow> resolution" where
  "resolution_of rq = \<lparr>res_option_id = when_truthy (rq_option_id rq), res_note = when_truthy (rq_note rq),
     res_resolved_by = when_truthy (rq_resolved_by rq)\<rparr>"

definition human_evidence :: "'w sweep_env \<Rightarrow> resolve_request \<Rightarrow> followup \<Rightarrow> string \<Rightarrow> string \<Rightarrow> 'w run_stores \<Rightarrow> evidence" where
  "human_evidence env rq f crit pid s =
     \<lparr>ev_id = [], ev_run_id = sv_run_id env, ev_task_id = None, ev_criterion_id = Some crit, ev_property_refs = [pid],
      ev_kind = EvHuman, ev_outcome = human_outcome (rq_option_id rq),
      ev_producer = (ByHuman, when_truthy (rq_resolved_by rq)), ev_timestamp = now_of env s,
      ev_revision = ''post-run-resolution'', ev_red = False, ev_chain = None,
      ev_payload = object_of [(''followupId'', Some (JString (fu_id f))), (''optionId'', Some (null_or (rq_option_id rq))),
        (''note'', map_option JString (when_truthy (rq_note rq))),
        (''waive'', if rq_option_id rq = Some ''waive'' then Some (JBool True) else None)],
      ev_digest = []\<rparr>"

text \<open>The state is derived without the red phase and without inherited flips.\<close>

definition resolution_options :: "'w sweep_env \<Rightarrow> evaluation_options" where
  "resolution_options env = \<lparr>eo_allow_agent_only = sv_allow_agent_only env, eo_in_progress = [],
     eo_require_red = False, eo_inherited = []\<rparr>"

definition human_evidence_event :: "'w sweep_env \<Rightarrow> resolve_request \<Rightarrow> string \<Rightarrow> string \<Rightarrow> 'w run_stores \<Rightarrow> 'w run_stores" where
  "human_evidence_event env rq crit pid s = emit env EVIDENCE_RECORDED
     (present [(''evidenceId'', case vs_records (st_evidence s) of [] \<Rightarrow> None | rs \<Rightarrow> Some (JString (ev_id (last rs)))),
        (''propertyRefs'', Some (strings_json [pid])), (''criterionId'', Some (JString crit)), (''kind'', Some (JString ''human'')),
        (''outcome'', Some (JString (outcome_text (human_outcome (rq_option_id rq)))))]) s"

definition resolved_payload :: "requirement_state \<Rightarrow> (string \<times> json) list" where
  "resolved_payload st =
     present [(''propertyId'', Some (JString (rs_property_id st))), (''status'', Some (JString (requirement_status_text (rs_status st)))),
        (''evidenceIds'', Some (strings_json (rs_evidence_ids st))), (''reason'', map_option JString (when_truthy (rs_reason st)))]"

text \<open>The evidence, the derived state and the events of a follow-up that names a criterion of a known property.\<close>

definition record_answer ::
  "'w sweep_env \<Rightarrow> resolve_request \<Rightarrow> followup \<Rightarrow> string \<Rightarrow> desired_property \<Rightarrow> 'w run_stores \<Rightarrow> requirement_state \<times> 'w run_stores" where
  "record_answer env rq f crit p s =
     (case add_evidence env (human_evidence env rq f crit (dp_id p) s) (tick s) of
        (_, s1) \<Rightarrow>
          let st = evaluate_property p (vs_records (st_evidence s1)) (resolution_options env) (now_of env s1)
          in (st, emit env PROPERTY_VERIFIED (resolved_payload st) (human_evidence_event env rq crit (dp_id p) (tick s1))))"

definition answered_property :: "resolve_request \<Rightarrow> followup \<Rightarrow> (string \<times> desired_property) option" where
  "answered_property rq f =
     (case (when_truthy (fu_criterion_id f), when_truthy (fu_property_id f)) of
        (Some crit, Some pid) \<Rightarrow> map_option (Pair crit) (List.find (\<lambda>p. dp_id p = pid) (rq_properties rq))
      | _ \<Rightarrow> None)"

definition update_saved :: "requirement_state \<Rightarrow> run_state option \<Rightarrow> run_state option" where
  "update_saved st saved =
     map_option (\<lambda>rs. rs\<lparr>run_requirements := (run_requirements rs)(rs_property_id st \<mapsto> st)\<rparr>) saved"

definition resolved_event :: "'w sweep_env \<Rightarrow> resolve_request \<Rightarrow> followup \<Rightarrow> 'w run_stores \<Rightarrow> 'w run_stores" where
  "resolved_event env rq f s = emit env FOLLOWUP_RESOLVED
     [(''followupId'', JString (fu_id f)), (''optionId'', null_or (rq_option_id rq)), (''note'', null_or (rq_note rq))] s"

definition valid_option :: "resolve_request \<Rightarrow> followup \<Rightarrow> bool" where
  "valid_option rq f \<longleftrightarrow>
     (case (fu_options f, when_truthy (rq_option_id rq)) of
        (Some opts, Some oid) \<Rightarrow> list_ex (\<lambda>x. option_id x = oid) opts
      | _ \<Rightarrow> True)"

definition resolve_followup ::
  "'w sweep_env \<Rightarrow> resolve_request \<Rightarrow> 'w run_stores \<Rightarrow> run_state option
     \<Rightarrow> (resolve_error, (followup \<times> requirement_state list) \<times> 'w run_stores \<times> run_state option) result" where
  "resolve_followup env rq s saved =
     (case List.find (\<lambda>f. fu_id f = rq_followup_id rq) (st_followups s) of
        None \<Rightarrow> Inl (FollowupUnknown (rq_followup_id rq) (sv_run_id env))
      | Some f \<Rightarrow>
          if fu_status f = Resolved then Inr ((f, []), s, saved)
          else if \<not> valid_option rq f
          then Inl (OptionInvalid (case rq_option_id rq of Some o' \<Rightarrow> o' | None \<Rightarrow> []) (fu_id f)
                 (case fu_options f of Some opts \<Rightarrow> map option_id opts | None \<Rightarrow> []))
          else
            (case followup_resolve (st_followups s) (rq_followup_id rq) (resolution_of rq) (now_of env s) of
               Inl _ \<Rightarrow> Inl (FollowupUnknown (rq_followup_id rq) (sv_run_id env))
             | Inr (fs, resolved) \<Rightarrow>
                 let s1 = resolved_event env rq resolved (tick (s\<lparr>st_followups := fs\<rparr>))
                 in case answered_property rq f of
                      None \<Rightarrow> Inr ((resolved, []), s1, saved)
                    | Some (crit, p) \<Rightarrow>
                        (case record_answer env rq resolved crit p s1 of
                           (st, s2) \<Rightarrow> Inr ((resolved, [st]), s2, update_saved st saved))))"

section \<open>Standalone verification\<close>

datatype prepare_mode = Installed | Linked | NoPreparation | PrepareFailed

record prepare_outcome =
  po_mode :: prepare_mode
  po_exit_code :: "int option"
  po_detail :: "string option"

fun mode_text :: "prepare_mode \<Rightarrow> string" where
  "mode_text Installed = ''installed''" | "mode_text Linked = ''linked''"
| "mode_text NoPreparation = ''none''" | "mode_text PrepareFailed = ''failed''"

definition preparation_evidence :: "'w sweep_env \<Rightarrow> sweep_request \<Rightarrow> prepare_outcome \<Rightarrow> 'w run_stores \<Rightarrow> evidence" where
  "preparation_evidence env q po s =
     \<lparr>ev_id = [], ev_run_id = sv_run_id env, ev_task_id = None, ev_criterion_id = None, ev_property_refs = [],
      ev_kind = EvPreparation, ev_outcome = (if po_mode po = PrepareFailed then Inconclusive else Supports),
      ev_producer = (ByRuntime, None), ev_timestamp = now_of env s, ev_revision = sq_revision q, ev_red = False, ev_chain = None,
      ev_payload = object_of [(''mode'', Some (JString (mode_text (po_mode po)))), (''exitCode'', map_option JNum (po_exit_code po)),
        (''detail'', map_option JString (when_truthy (po_detail po)))],
      ev_digest = []\<rparr>"

text \<open>No task, no phase, no flips and no agent verdicts are carried into a standalone sweep.\<close>

definition standalone_request :: "desired_property list \<Rightarrow> string \<Rightarrow> suite_registry option \<Rightarrow> bool \<Rightarrow> prepare_outcome option \<Rightarrow> sweep_request" where
  "standalone_request ps revision suites shared po =
     \<lparr>sq_properties = ps, sq_task_id = None, sq_red = False, sq_enforce_red = False,
      sq_environment_ready = (case po of None \<Rightarrow> True | Some x \<Rightarrow> po_mode x \<noteq> PrepareFailed),
      sq_inherited = [], sq_suites = suites, sq_revision = revision, sq_shared = shared, sq_report_usage = False\<rparr>"

definition verify_standalone ::
  "'w sweep_env \<Rightarrow> sweep_request \<Rightarrow> prepare_outcome option \<Rightarrow> 'w run_stores \<Rightarrow> (sweep_error, requirement_state list) result \<times> 'w run_stores" where
  "verify_standalone env q po s =
     verify_properties env q
       (case po of None \<Rightarrow> s | Some x \<Rightarrow> snd (add_evidence env (preparation_evidence env q x s) (tick s)))"

text \<open>The conclusion of a verification run.\<close>

definition settled :: "requirement_state list \<Rightarrow> desired_property \<Rightarrow> bool" where
  "settled sts p \<longleftrightarrow>
     (case map_of (rev (map (\<lambda>st. (rs_property_id st, st)) sts)) (dp_id p) of
        None \<Rightarrow> False
      | Some st \<Rightarrow> rs_status st = Satisfied \<or> rs_status st = Waived)"

definition verify_status :: "desired_property list \<Rightarrow> requirement_state list \<Rightarrow> followup list \<Rightarrow> run_status" where
  "verify_status ps sts fs =
     (if open_blocking fs \<noteq> [] then RunBlocked
      else if list_all (settled sts) (filter (\<lambda>p. dp_priority p = Must) ps) then Succeeded else PartiallySatisfied)"

definition requirement_statuses :: "requirement_state list \<Rightarrow> json" where
  "requirement_statuses sts =
     object_from (map (\<lambda>st. (rs_property_id st, JString (requirement_status_text (rs_status st)))) sts)"

text \<open>The state saved at the end: the projection of the log so far, the conclusion and the sweep's own states.\<close>

definition conclude_verify ::
  "'w sweep_env \<Rightarrow> run_meta \<Rightarrow> desired_property list \<Rightarrow> requirement_state list \<Rightarrow> 'w run_stores \<Rightarrow> run_state \<times> 'w run_stores" where
  "conclude_verify env meta ps sts s =
     (let status = verify_status ps sts (st_followups s);
          projected = project_state meta None (log_of s)
      in (projected\<lparr>run_status := status,
            run_requirements := foldl (\<lambda>m st. m(rs_property_id st \<mapsto> st)) (run_requirements projected) sts\<rparr>,
          emit env RUN_COMPLETED
            [(''status'', JString (run_status_text status)), (''requirements'', requirement_statuses sts)] s))"

section \<open>The chain of parent runs\<close>

text \<open>
  \<open>parent\<close> is the \<open>parentRunId\<close> of a run's metadata, \<open>None\<close> when the file is missing, is not JSON
  or names no parent. The walk stops at a run it has seen; \<open>visited\<close> is its own result so far.
\<close>

definition unvisited :: "string list \<Rightarrow> string list \<Rightarrow> nat" where
  "unvisited runs visited = length (filter (\<lambda>r. r \<notin> set visited) runs)"

function resolve_chain_from :: "string list \<Rightarrow> (string \<Rightarrow> string option) \<Rightarrow> string list \<Rightarrow> string \<Rightarrow> string list" where
  "resolve_chain_from runs parent visited cursor =
     (if cursor \<notin> set runs then visited
      else case parent cursor of
        None \<Rightarrow> visited
      | Some p \<Rightarrow>
          if p = [] \<or> p \<in> set visited then visited
          else resolve_chain_from runs parent (visited @ [p]) p)"
  by pat_completeness auto

termination
proof (relation "measures [\<lambda>(runs, parent, visited, cursor). unvisited runs visited,
    \<lambda>(runs, parent, visited, cursor). if cursor \<in> set runs then 1 else 0]", goal_cases)
  case (2 runs parent visited cursor p)
  have "unvisited runs (visited @ [p]) = length (filter (\<lambda>r. r \<noteq> p) (filter (\<lambda>r. r \<notin> set visited) runs))"
    unfolding unvisited_def filter_filter by (intro arg_cong [where f = length] filter_cong) auto
  moreover have "\<dots> < unvisited runs visited" if "p \<in> set runs"
    unfolding unvisited_def using that 2(3) by (intro length_filter_less [of p]) auto
  moreover have "length (filter (\<lambda>r. r \<noteq> p) (filter (\<lambda>r. r \<notin> set visited) runs)) \<le> unvisited runs visited"
    unfolding unvisited_def by (rule length_filter_le)
  ultimately show ?case using 2(1) by (cases "p \<in> set runs") auto
qed simp

definition resolve_chain :: "string list \<Rightarrow> (string \<Rightarrow> string option) \<Rightarrow> string \<Rightarrow> string list" where
  "resolve_chain runs parent run = resolve_chain_from runs parent [run] run"


section \<open>The log carries the answer\<close>

lemma resolved_payload_read:
  assumes "plain_state st"
  shows "p_name (resolved_payload st) ''propertyId'' = Some (rs_property_id st)"
    "e_payload e = resolved_payload st \<Longrightarrow>
       verified_requirement e (rs_property_id st)
         = st\<lparr>rs_updated_at := e_timestamp e, rs_weak_evidence := None, rs_red_phase := None\<rparr>"
proof -
  note read = resolved_payload_def p_name_def p_string_def p_strings_def strings_json_def strings_read when_truthy_def
  show "p_name (resolved_payload st) ''propertyId'' = Some (rs_property_id st)"
    using assms by (simp add: read plain_state_def)
  assume e: "e_payload e = resolved_payload st"
  have "p_string (resolved_payload st) ''status'' = Some (requirement_status_text (rs_status st))"
    "p_strings (resolved_payload st) ''evidenceIds'' = rs_evidence_ids st"
    by (simp_all add: read)
  moreover have "p_string (resolved_payload st) ''reason'' = rs_reason st" "map_of (resolved_payload st) ''weakEvidence'' = None"
    "p_string (resolved_payload st) ''redPhase'' = None"
    using assms by (cases "rs_reason st"; simp add: read plain_state_def)+
  ultimately show "verified_requirement e (rs_property_id st)
      = st\<lparr>rs_updated_at := e_timestamp e, rs_weak_evidence := None, rs_red_phase := None\<rparr>"
    by (simp add: verified_requirement_def e)
qed

lemma other_event_requirements:
  assumes "e_type e = FOLLOWUP_RESOLVED \<or> e_type e = EVIDENCE_RECORDED"
  shows "run_requirements (apply_event s e) = run_requirements s"
  using assms by (auto simp: apply_event_simps apply_change_requirements)

text \<open>What the projected state shows of a derived state: all but the mark of weak evidence and the flip.\<close>

definition shows_state :: "run_state \<Rightarrow> requirement_state \<Rightarrow> bool" where
  "shows_state s st \<longleftrightarrow>
     (\<exists>t. run_requirements s (rs_property_id st)
            = Some (st\<lparr>rs_updated_at := t, rs_weak_evidence := None, rs_red_phase := None\<rparr>))"

lemma record_answer_shown:
  assumes "record_answer env rq f crit p s = (st, s')" "dp_id p \<noteq> []"
  shows "shows_state (project_state meta plan (log_of s')) st"
proof -
  obtain e s1 where a: "add_evidence env (human_evidence env rq f crit (dp_id p) s) (tick s) = (e, s1)" by force
  let ?st = "evaluate_property p (vs_records (st_evidence s1)) (resolution_options env) (now_of env s1)"
  let ?s2 = "human_evidence_event env rq crit (dp_id p) (tick s1)"
  have st: "st = ?st" and s': "s' = emit env PROPERTY_VERIFIED (resolved_payload ?st) ?s2"
    using assms(1) by (auto simp: record_answer_def a Let_def)
  have plain: "plain_state ?st" by (rule evaluate_property_plain [OF assms(2)])
  obtain v where v: "log_of s' = log_of ?s2 @ [v]" "e_type v = PROPERTY_VERIFIED" "e_payload v = resolved_payload ?st"
    using emit_log [of env PROPERTY_VERIFIED "resolved_payload ?st" ?s2] unfolding s' by blast
  show ?thesis
    using resolved_payload_read(1) [OF plain] resolved_payload_read(2) [OF plain v(3)] v
    by (auto simp: shows_state_def st apply_event_simps apply_change_requirements)
qed


definition resolved_form :: "'w sweep_env \<Rightarrow> resolve_request \<Rightarrow> 'w run_stores \<Rightarrow> followup \<Rightarrow> followup" where
  "resolved_form env rq s f =
     f\<lparr>fu_status := Resolved, fu_resolved_at := Some (now_of env s), fu_resolution := Some (resolution_of rq)\<rparr>"

definition resolved_stores :: "'w sweep_env \<Rightarrow> resolve_request \<Rightarrow> 'w run_stores \<Rightarrow> followup \<Rightarrow> 'w run_stores" where
  "resolved_stores env rq s f =
     resolved_event env rq f (tick (s\<lparr>st_followups := update_first (\<lambda>x. fu_id x = rq_followup_id rq) (\<lambda>_. f) (st_followups s)\<rparr>))"

lemma resolved_form_fields [simp]:
  "fu_status (resolved_form env rq s f) = Resolved" "fu_id (resolved_form env rq s f) = fu_id f"
  by (simp_all add: resolved_form_def)

lemma resolved_stores_followups [simp]:
  "st_followups (resolved_stores env rq s f) = update_first (\<lambda>x. fu_id x = rq_followup_id rq) (\<lambda>_. f) (st_followups s)"
  by (simp add: resolved_stores_def resolved_event_def)

lemma resolve_followup_Inr:
  assumes "resolve_followup env rq s saved = Inr ((f, sts), s', saved')"
  shows "\<exists>f0. List.find (\<lambda>f. fu_id f = rq_followup_id rq) (st_followups s) = Some f0 \<and>
    (if fu_status f0 = Resolved then f = f0 \<and> sts = [] \<and> s' = s \<and> saved' = saved
     else f = resolved_form env rq s f0 \<and>
       (case answered_property rq f0 of
          None \<Rightarrow> sts = [] \<and> s' = resolved_stores env rq s f \<and> saved' = saved
        | Some (crit, p) \<Rightarrow> \<exists>st. record_answer env rq f crit p (resolved_stores env rq s f) = (st, s')
            \<and> sts = [st] \<and> saved' = update_saved st saved))"
proof -
  obtain f0 where f0: "List.find (\<lambda>f. fu_id f = rq_followup_id rq) (st_followups s) = Some f0"
    using assms by (cases "List.find (\<lambda>f. fu_id f = rq_followup_id rq) (st_followups s)") (simp_all add: resolve_followup_def)
  note e = assms [unfolded resolve_followup_def f0 option.case]
  have "if fu_status f0 = Resolved then f = f0 \<and> sts = [] \<and> s' = s \<and> saved' = saved
     else f = resolved_form env rq s f0 \<and>
       (case answered_property rq f0 of
          None \<Rightarrow> sts = [] \<and> s' = resolved_stores env rq s f \<and> saved' = saved
        | Some (crit, p) \<Rightarrow> \<exists>st. record_answer env rq f crit p (resolved_stores env rq s f) = (st, s')
            \<and> sts = [st] \<and> saved' = update_saved st saved)"
  proof (cases "fu_status f0 = Resolved")
    case True
    with e show ?thesis by simp
  next
    case False
    have r: "followup_resolve (st_followups s) (rq_followup_id rq) (resolution_of rq) (now_of env s)
        = Inr (update_first (\<lambda>x. fu_id x = rq_followup_id rq) (\<lambda>_. resolved_form env rq s f0) (st_followups s), resolved_form env rq s f0)"
      using False by (simp add: followup_resolve_def f0 resolved_form_def Let_def)
    have valid: "valid_option rq f0" using e False by (simp split: if_split_asm)
    note e' = e [unfolded if_not_P [OF False] if_not_P [OF iffD2 [OF not_not valid]] r sum.case prod.case Let_def,
        folded resolved_stores_def]
    show ?thesis
    proof (cases "answered_property rq f0")
      case None
      with e' False show ?thesis by auto
    next
      case (Some cp)
      obtain crit p where cp: "cp = (crit, p)" by force
      obtain st s2 where rec: "record_answer env rq (resolved_form env rq s f0) crit p
          (resolved_stores env rq s (resolved_form env rq s f0)) = (st, s2)" by force
      from e' [unfolded Some cp option.case prod.case rec] False show ?thesis by (auto simp: Some cp rec)
    qed
  qed
  with f0 show ?thesis by blast
qed

lemma record_answer_followups: "record_answer env rq f crit p s = (st, s') \<Longrightarrow> st_followups s' = st_followups s"
  by (auto simp: record_answer_def Let_def add_evidence_def human_evidence_event_def split: prod.splits)

lemma find_update_first:
  "List.find P xs = Some x \<Longrightarrow> P y \<Longrightarrow> List.find P (update_first P (\<lambda>_. y) xs) = Some y"
  by (induction xs) (auto split: if_splits)

lemma resolve_keeps_resolved:
  assumes "resolve_followup env rq s saved = Inr ((f, sts), s', saved')"
  shows "List.find (\<lambda>f. fu_id f = rq_followup_id rq) (st_followups s') = Some f \<and> fu_status f = Resolved"
proof -
  from resolve_followup_Inr [OF assms] obtain f0 where
    f0: "List.find (\<lambda>f. fu_id f = rq_followup_id rq) (st_followups s) = Some f0"
    and r: "if fu_status f0 = Resolved then f = f0 \<and> sts = [] \<and> s' = s \<and> saved' = saved
     else f = resolved_form env rq s f0 \<and>
       (case answered_property rq f0 of
          None \<Rightarrow> sts = [] \<and> s' = resolved_stores env rq s f \<and> saved' = saved
        | Some (crit, p) \<Rightarrow> \<exists>st. record_answer env rq f crit p (resolved_stores env rq s f) = (st, s')
            \<and> sts = [st] \<and> saved' = update_saved st saved)" by blast
  have new: "List.find (\<lambda>f. fu_id f = rq_followup_id rq)
      (update_first (\<lambda>x. fu_id x = rq_followup_id rq) (\<lambda>_. resolved_form env rq s f0) (st_followups s))
      = Some (resolved_form env rq s f0)"
    by (rule find_update_first [OF f0]) (use find_SomeD [OF f0] in simp)
  show ?thesis
    using r f0 new by (auto dest: record_answer_followups split: if_splits option.splits)
qed

text \<open>
  C34: an answer reaches the log and the saved state: after a follow-up was resolved, the state
  projected from the log and the state file show every derived state, the projection without
  its weak-evidence and flip marks, which the event does not carry.
\<close>
theorem resolution_recorded:
  assumes "resolve_followup env rq s saved = Inr ((f, sts), s', saved')" "[] \<notin> set (map dp_id (rq_properties rq))"
  shows "list_all (shows_state (project_state meta plan (log_of s'))) sts
    \<and> (case saved' of None \<Rightarrow> saved = None | Some rs \<Rightarrow> list_all (\<lambda>st. run_requirements rs (rs_property_id st) = Some st) sts)
    \<and> fu_status f = Resolved \<and> f \<in> set (st_followups s')"
proof -
  have final: "fu_status f = Resolved \<and> f \<in> set (st_followups s')"
    using resolve_keeps_resolved [OF assms(1)] by (auto dest: find_SomeD)
  from resolve_followup_Inr [OF assms(1)] obtain f0 where
    r: "if fu_status f0 = Resolved then f = f0 \<and> sts = [] \<and> s' = s \<and> saved' = saved
     else f = resolved_form env rq s f0 \<and>
       (case answered_property rq f0 of
          None \<Rightarrow> sts = [] \<and> s' = resolved_stores env rq s f \<and> saved' = saved
        | Some (crit, p) \<Rightarrow> \<exists>st. record_answer env rq f crit p (resolved_stores env rq s f) = (st, s')
            \<and> sts = [st] \<and> saved' = update_saved st saved)" by blast
  show ?thesis
  proof (cases "fu_status f0 = Resolved \<or> answered_property rq f0 = None")
    case True
    with r have "sts = []" "saved' = saved" by (auto split: if_splits)
    with final show ?thesis by (simp split: option.split)
  next
    case False
    then obtain crit p where ap: "answered_property rq f0 = Some (crit, p)" and unresolved: "fu_status f0 \<noteq> Resolved" by auto
    then obtain st where rec: "record_answer env rq f crit p (resolved_stores env rq s f) = (st, s')"
      and out: "sts = [st]" "saved' = update_saved st saved"
      using r by auto
    have "p \<in> set (rq_properties rq)"
      using ap by (auto simp: answered_property_def split: option.splits dest: find_SomeD)
    then have "dp_id p \<noteq> []" using assms(2) by (metis image_eqI set_map)
    from record_answer_shown [OF rec this, of meta plan] final show ?thesis
      by (simp add: out update_saved_def split: option.split)
  qed
qed

text \<open>
  C35: a resolution is final: asking again for the follow-up just resolved, with whatever option,
  returns it as it is and changes nothing, neither log nor evidence nor state.
\<close>
theorem resolution_final:
  assumes "resolve_followup env rq s saved = Inr ((f, sts), s', saved')" "rq_followup_id rq' = rq_followup_id rq"
  shows "resolve_followup env rq' s' saved' = Inr ((f, []), s', saved')"
  using resolve_keeps_resolved [OF assms(1)] by (simp add: resolve_followup_def assms(2))

section \<open>A successful verification\<close>

text \<open>A property is established by the evidence: waived by a human, or every criterion demonstrated.\<close>

definition established :: "evaluation_options \<Rightarrow> evidence list \<Rightarrow> desired_property \<Rightarrow> bool" where
  "established opts es p \<longleftrightarrow> list_ex human_waiver (relevant_evidence p es)
     \<or> list_all (demonstrated opts (relevant_evidence p es)) (dp_acceptance p)"

lemma evaluate_established:
  assumes "rs_status (evaluate_property p es opts now) = Satisfied \<or> rs_status (evaluate_property p es opts now) = Waived"
  shows "established opts es p"
  using assms
proof
  assume "rs_status (evaluate_property p es opts now) = Satisfied"
  then show ?thesis unfolding satisfied_iff by (simp add: established_def)
next
  assume waived: "rs_status (evaluate_property p es opts now) = Waived"
  show ?thesis
  proof (cases "List.find human_waiver (relevant_evidence p es)")
    case None
    have "fst (aggregate opts pid vs) \<noteq> Waived" for pid vs
      by (auto simp: aggregate_def Let_def split: option.splits)
    with None waived show ?thesis
      by (auto simp: evaluate_property_def Let_def split: prod.splits) (metis fst_conv)
  next
    case (Some w)
    then show ?thesis by (auto simp: established_def list_ex_iff dest: find_SomeD)
  qed
qed

lemma derive_states_each:
  "derive_states env q ps s = (sts, s') \<Longrightarrow> vs_records (st_evidence s') = vs_records (st_evidence s)
    \<and> list_all2 (\<lambda>p st. \<exists>now. st = evaluate_property p (vs_records (st_evidence s)) (sweep_options env q) now) ps sts"
proof (induction ps arbitrary: s sts s')
  case (Cons p ps)
  let ?st = "evaluate_property p (vs_records (st_evidence s)) (sweep_options env q) (now_of env s)"
  obtain sts1 where "derive_states env q ps (emit env PROPERTY_VERIFIED (verified_payload q ?st) (tick s)) = (sts1, s')" "sts = ?st # sts1"
    using Cons.prems by (auto simp: Let_def split: prod.splits)
  with Cons.IH show ?case by fastforce
qed simp

lemma settled_state:
  assumes "settled sts p" "list_all2 (\<lambda>p st. rs_property_id st = dp_id p) ps sts" "distinct (map dp_id ps)" "p \<in> set ps"
  shows "\<exists>st. (p, st) \<in> set (zip ps sts) \<and> (rs_status st = Satisfied \<or> rs_status st = Waived)"
proof -
  from assms(1) obtain st where st: "map_of (rev (map (\<lambda>st. (rs_property_id st, st)) sts)) (dp_id p) = Some st"
    and ok: "rs_status st = Satisfied \<or> rs_status st = Waived"
    by (auto simp: settled_def split: option.splits)
  from map_of_SomeD [OF st] have mem: "st \<in> set sts" "rs_property_id st = dp_id p" by auto
  then obtain i where i: "i < length sts" "sts ! i = st" by (auto simp: in_set_conv_nth)
  with assms(2) have pi: "i < length ps" "dp_id (ps ! i) = dp_id p"
    using mem(2) by (auto simp: list_all2_conv_all_nth)
  then have "ps ! i = p" using assms(3,4) by (metis distinct_map inj_onD nth_mem)
  with i pi ok show ?thesis by (force simp: set_zip)
qed



text \<open>The state an answer derives, without the stores that record it.\<close>

definition answer_state :: "'w sweep_env \<Rightarrow> resolve_request \<Rightarrow> followup \<Rightarrow> string \<Rightarrow> desired_property \<Rightarrow> 'w run_stores \<Rightarrow> requirement_state" where
  "answer_state env rq f crit p s =
     evaluate_property p
       (vs_records (fst (evidence_add (sv_sha env) (st_evidence s)
          ((human_evidence env rq f crit (dp_id p) s)\<lparr>ev_timestamp := sv_clock env (st_tick s + 2),
             ev_id := evidence_id (length (vs_records (st_evidence s)) + 1)\<rparr>))))
       (resolution_options env) (sv_clock env (st_tick s + 3))"

lemma resolve_answered:
  assumes "List.find (\<lambda>f. fu_id f = rq_followup_id rq) (st_followups s) = Some f0" "fu_status f0 \<noteq> Resolved"
    and "valid_option rq f0" "answered_property rq f0 = Some (crit, p)"
  shows "\<exists>s' saved'. resolve_followup env rq s saved
     = Inr ((resolved_form env rq s f0, [answer_state env rq f0 crit p s]), s', saved')"
proof -
  let ?f = "resolved_form env rq s f0"
  have stores: "st_evidence (resolved_stores env rq s ?f) = st_evidence s" "st_tick (resolved_stores env rq s ?f) = st_tick s + 2"
    by (simp_all add: resolved_stores_def resolved_event_def emit_def tick_def)
  have form: "human_evidence env rq ?f crit pid t = (human_evidence env rq f0 crit pid s)\<lparr>ev_timestamp := now_of env t\<rparr>" for pid t
    by (simp add: human_evidence_def)
  have "fst (record_answer env rq ?f crit p (resolved_stores env rq s ?f)) = answer_state env rq f0 crit p s"
    unfolding record_answer_def Let_def add_evidence_def answer_state_def case_prod_unfold form
    by (simp add: now_of_def stores tick_def eval_nat_numeral)
  then obtain s2 where rec: "record_answer env rq ?f crit p (resolved_stores env rq s ?f) = (answer_state env rq f0 crit p s, s2)"
    by (metis prod.collapse)
  have r: "followup_resolve (st_followups s) (rq_followup_id rq) (resolution_of rq) (now_of env s)
      = Inr (update_first (\<lambda>x. fu_id x = rq_followup_id rq) (\<lambda>_. ?f) (st_followups s), ?f)"
    using assms(2) by (simp add: followup_resolve_def assms(1) resolved_form_def Let_def)
  show ?thesis
    using assms rec by (simp add: resolve_followup_def r Let_def flip: resolved_stores_def)
qed

section \<open>Samples\<close>

text \<open>A run whose follow-up asks about a criterion, with the records its sweep left.\<close>

definition open_question :: "followup_draft \<Rightarrow> followup" where
  "open_question d = followup_draft.extend d (followup.fields ''F-001'' ''run-1'' Open ''t0'' None None)"

definition open_stores :: "followup_draft \<Rightarrow> evidence list \<Rightarrow> unit run_stores" where
  "open_stores d es = sample_stores
     \<lparr>st_followups := [open_question d], st_evidence := \<lparr>vs_file = None, vs_records = es, vs_chain = None\<rparr>\<rparr>"

definition human_question :: followup_draft where
  "human_question = make_draft (sample_request []) human_criterion (sample_property []) ManualVerification ''t'' ''d''"

definition pick_option :: "string \<Rightarrow> acceptance_criterion list \<Rightarrow> resolve_request" where
  "pick_option option cs = \<lparr>rq_followup_id = ''F-001'', rq_option_id = Some option, rq_note = None, rq_resolved_by = Some ''ada'',
     rq_properties = [sample_property cs]\<rparr>"

lemma resolve_question:
  assumes "valid_option (pick_option option cs) (open_question d)"
    and "answered_property (pick_option option cs) (open_question d) = Some (crit, p)"
  shows "\<exists>s' saved'. resolve_followup env (pick_option option cs) (open_stores d es) None
     = Inr ((resolved_form env (pick_option option cs) (open_stores d es) (open_question d),
             [answer_state env (pick_option option cs) (open_question d) crit p (open_stores d es)]), s', saved')"
  by (rule resolve_answered [OF _ _ assms]) (simp_all add: open_stores_def open_question_def pick_option_def followup_draft.defs followup.defs)

lemma human_answered:
  "valid_option (pick_option option cs) (open_question human_question)"
  "answered_property (pick_option option cs) (open_question human_question) = Some (''A'', sample_property cs)"
  by (simp_all add: valid_option_def answered_property_def pick_option_def open_question_def human_question_def make_draft_def
      sample_property_def human_criterion_def when_truthy_def followup_draft.defs followup.defs)

lemma confirm_human:
  "rs_status (answer_state sample_env (pick_option ''confirm'' [human_criterion]) (open_question human_question) ''A''
     (sample_property [human_criterion]) (open_stores human_question [])) = Satisfied"
  by code_simp

theorem resolution_recorded_witness:
  "\<exists>f st s' saved'. resolve_followup sample_env (pick_option ''confirm'' [human_criterion]) (open_stores human_question []) None
       = Inr ((f, [st]), s', saved')
     \<and> rs_status st = Satisfied \<and> shows_state (project_state sample_meta None (log_of s')) st"
proof -
  let ?rq = "pick_option ''confirm'' [human_criterion]"
  from resolve_question [OF human_answered] obtain f st s' saved' where
    r: "resolve_followup sample_env ?rq (open_stores human_question []) None = Inr ((f, [st]), s', saved')"
    and st: "st = answer_state sample_env ?rq (open_question human_question) ''A'' (sample_property [human_criterion]) (open_stores human_question [])"
    by blast
  have "[] \<notin> set (map dp_id (rq_properties ?rq))" by (simp add: pick_option_def sample_property_def)
  from resolution_recorded [OF r this, of sample_meta None] r confirm_human st show ?thesis by simp
qed

theorem resolution_final_witness:
  "\<exists>f s' saved'. resolve_followup sample_env (pick_option ''waive'' [human_criterion]) s' saved' = Inr ((f, []), s', saved')
     \<and> fu_status f = Resolved"
proof -
  from resolve_question [OF human_answered] obtain f sts s' saved' where
    r: "resolve_followup sample_env (pick_option ''confirm'' [human_criterion]) (open_stores human_question []) None = Inr ((f, sts), s', saved')"
    by blast
  have "rq_followup_id (pick_option ''waive'' [human_criterion]) = rq_followup_id (pick_option ''confirm'' [human_criterion])"
    by (simp add: pick_option_def)
  from resolution_final [OF r this] resolve_keeps_resolved [OF r] show ?thesis by blast
qed

definition plain_request :: sweep_request where
  "plain_request = standalone_request [sample_property [file_criterion]] ''rev'' None False None"


section \<open>Findings\<close>

definition gated_criterion :: acceptance_criterion where
  "gated_criterion = CommandCriterion ''A'' ''git push'' None None None"

definition approval_question :: "followup_draft option" where
  "approval_question = re_followup (awaiting_approval sample_env (sample_request [gated_criterion]) gated_criterion
     (sample_property [gated_criterion]) ''git push'' (evaluate_command_policy ''git push'' default_commands) sample_stores)"

text \<open>
  Rejecting the approval of a gated command leaves the property unsatisfied, where the option
  offered says that it stays indeterminate.
\<close>
theorem rejected_approval_contradicts:
  "case approval_question of
     None \<Rightarrow> False
   | Some d \<Rightarrow>
       map_option (map option_description) (fu_options d)
         = Some [''Allow this exact command during verification.'', ''Keep the command blocked; the property stays indeterminate.'']
       \<and> rs_status (answer_state sample_env (pick_option ''reject'' [gated_criterion]) (open_question d) ''A''
           (sample_property [gated_criterion]) (open_stores d [])) = Unsatisfied"
  by code_simp

definition flip_criterion :: acceptance_criterion where
  "flip_criterion = CommandCriterion ''B'' ''pnpm test'' None None (Some True)"

text \<open>
  Resolving a follow-up forgets the red phase: with a discriminating criterion that was never seen
  failing the evidence leaves the property indeterminate in an apply run, and satisfied once a
  human confirms another criterion of it.
\<close>
theorem resolution_forgets_flip:
  "rs_status (answer_state sample_env (pick_option ''confirm'' [flip_criterion, human_criterion]) (open_question human_question) ''A''
      (sample_property [flip_criterion, human_criterion]) (open_stores human_question [sample_evidence ''B'' Supports])) = Satisfied
   \<and> rs_status (evaluate_property (sample_property [flip_criterion, human_criterion])
        [sample_evidence ''B'' Supports, (sample_evidence ''A'' Supports)\<lparr>ev_kind := EvHuman\<rparr>] red_options ''now'') = Indeterminate"
  by code_simp

section \<open>The chain\<close>

lemma resolve_chain_from_spec:
  "cursor = last visited \<Longrightarrow> visited \<noteq> [] \<Longrightarrow> distinct visited \<Longrightarrow>
     successively (\<lambda>a b. parent a = Some b) visited \<Longrightarrow>
     (let chain = resolve_chain_from runs parent visited cursor in
      prefix visited chain \<and> distinct chain \<and> successively (\<lambda>a b. parent a = Some b) chain
      \<and> (last chain \<notin> set runs \<or> parent (last chain) = None \<or> parent (last chain) = Some []
         \<or> (\<exists>p \<in> set chain. parent (last chain) = Some p)))"
proof (induction runs parent visited cursor rule: resolve_chain_from.induct)
  case (1 runs parent visited cursor)
  show ?case
  proof (cases "cursor \<in> set runs \<and> (\<exists>p. parent cursor = Some p \<and> p \<noteq> [] \<and> p \<notin> set visited)")
    case True
    then obtain p where p: "cursor \<in> set runs" "parent cursor = Some p" "p \<noteq> []" "p \<notin> set visited" by blast
    have succ: "successively (\<lambda>a b. parent a = Some b) (visited @ [p])"
      using 1(3,2,5) p(2) by (simp add: successively_append_iff)
    have "resolve_chain_from runs parent visited cursor = resolve_chain_from runs parent (visited @ [p]) p"
      using p by simp
    moreover have "prefix visited chain" if "prefix (visited @ [p]) chain" for chain
      using that by (metis append_prefixD)
    ultimately show ?thesis
      using "1.IH" [of p] p succ 1(4) by (simp add: Let_def)
  next
    case False
    then have "resolve_chain_from runs parent visited cursor = visited" by (auto split: option.split)
    with False 1(2-5) show ?thesis by (auto simp: Let_def)
  qed
qed

declare resolve_chain_from.simps [simp del]

text \<open>Where a walk may stop: the metadata is missing, names no parent, or the parent is already there.\<close>

definition chain_ends :: "string list \<Rightarrow> (string \<Rightarrow> string option) \<Rightarrow> string list \<Rightarrow> bool" where
  "chain_ends runs parent chain \<longleftrightarrow>
     last chain \<notin> set runs \<or> parent (last chain) \<in> {None, Some []} \<union> Some ` set chain"

text \<open>
  C36: the chain of a run is its line of parents: it starts with the run, each next run is the
  recorded parent of the one before, no run occurs twice even when the metadata forms a cycle,
  and it ends only where no further parent is recorded or the parent is already in it.
\<close>
theorem chain_is_lineage:
  "\<exists>rest. resolve_chain runs parent run = run # rest \<and> distinct (run # rest)
     \<and> successively (\<lambda>a b. parent a = Some b) (run # rest)
     \<and> chain_ends runs parent (run # rest)"
proof -
  have "successively (\<lambda>a b. parent a = Some b) [run]" by simp
  from resolve_chain_from_spec [of run "[run]" parent runs, OF _ _ _ this]
  have chain: "prefix [run] (resolve_chain runs parent run)" "distinct (resolve_chain runs parent run)"
    "successively (\<lambda>a b. parent a = Some b) (resolve_chain runs parent run)"
    "chain_ends runs parent (resolve_chain runs parent run)"
    by (auto simp: resolve_chain_def chain_ends_def Let_def)
  from chain(1) obtain rest where "resolve_chain runs parent run = run # rest" by (auto simp: prefix_def)
  with chain show ?thesis by metis
qed

end
