(* ===== verification/RepoContent.thy ===== *)
theory RepoContent
  imports Prelude
begin

text \<open>
  Content snapshots and status of a checkout, \<^verbatim>\<open>packages/repo/src/content.ts\<close> and the parsing
  parts of \<^verbatim>\<open>packages/repo/src/git.ts\<close>. The output of git is a string, the contents of the
  files a function \<open>file_hash\<close> giving the sha256 of a readable file, and \<open>tracked\<close> whether
  \<^verbatim>\<open>git ls-files\<close> knows a path.
\<close>

section \<open>Snapshots\<close>

type_synonym content_snapshot = "(string \<times> string) list"

definition deleted_mark :: string where "deleted_mark = ''<deleted>''"

definition quoted :: "string \<Rightarrow> bool" where
  "quoted p \<longleftrightarrow> prefix [CHR 0x22] p \<and> suffix [CHR 0x22] p"

definition unquote :: "string \<Rightarrow> string" where
  "unquote p = (if quoted p then butlast (tl p) else p)"

definition hashed :: "(string \<Rightarrow> string option) \<Rightarrow> string \<Rightarrow> string \<Rightarrow> string" where
  "hashed file_hash fallback p = (case file_hash p of Some h \<Rightarrow> ''sha256:'' @ h | None \<Rightarrow> fallback)"

text \<open>A line of \<^verbatim>\<open>git diff --raw HEAD --no-abbrev\<close>.\<close>

definition diff_entry ::
  "(string \<Rightarrow> string option) \<Rightarrow> string \<Rightarrow> content_snapshot \<Rightarrow> content_snapshot" where
  "diff_entry file_hash line entries =
     (if trim line = [] then entries
      else
        (let parts = split_on (CHR 0x09) line;
             path_field = (if 1 < length parts then parts ! 1 else [])
         in if path_field = [] then entries
            else
              (let p = (if 2 < length parts then last parts else path_field) in
               if quoted p then entries
               else
                 (let meta = split_on (CHR '' '') (hd parts);
                      dst_blob = (if 3 < length meta then Some (meta ! 3) else None);
                      status_letter = (if 4 < length meta then meta ! 4 else [])
                  in if CHR ''D'' \<in> set status_letter then map_set p deleted_mark entries
                     else if dst_blob = Some (replicate 40 CHR ''0'') then map_set p (hashed file_hash ''unknown'' p) entries
                     else map_set p (case dst_blob of Some b \<Rightarrow> b | None \<Rightarrow> ''unknown'') entries))))"

text \<open>A line of \<^verbatim>\<open>git status --porcelain -uall\<close>: only the untracked paths count here.\<close>

definition untracked_entry ::
  "(string \<Rightarrow> string option) \<Rightarrow> string \<Rightarrow> content_snapshot \<Rightarrow> content_snapshot" where
  "untracked_entry file_hash line entries =
     (if trim line = [] \<or> CHR ''?'' \<notin> set (take 2 line) then entries
      else (let p = unquote (drop 3 line) in map_set p (hashed file_hash ''unreadable'' p) entries))"

definition content_snapshot :: "(string \<Rightarrow> string option) \<Rightarrow> string \<Rightarrow> string \<Rightarrow> content_snapshot" where
  "content_snapshot file_hash raw_diff status =
     fold (untracked_entry file_hash) (split_on (CHR 0x0A) status)
       (fold (diff_entry file_hash) (split_on (CHR 0x0A) raw_diff) [])"

section \<open>Deltas\<close>

datatype content_change = ContentCreated | ContentModified | ContentDeleted

definition delta_after ::
  "(string \<Rightarrow> bool) option \<Rightarrow> content_snapshot \<Rightarrow> string \<times> string \<Rightarrow>
   (string \<times> content_change) list \<Rightarrow> (string \<times> content_change) list" where
  "delta_after tracked before entry out =
     (case entry of (p, identity) \<Rightarrow>
        if map_of before p = Some identity then out
        else if identity = deleted_mark then map_set p ContentDeleted out
        else if map_of before p = None
        then map_set p (case tracked of Some t \<Rightarrow> if t p then ContentModified else ContentCreated
                        | None \<Rightarrow> ContentCreated) out
        else map_set p ContentModified out)"

definition delta_before ::
  "content_snapshot \<Rightarrow> string \<times> string \<Rightarrow> (string \<times> content_change) list \<Rightarrow> (string \<times> content_change) list" where
  "delta_before after entry out =
     (case entry of (p, _) \<Rightarrow> if map_of after p = None then map_set p ContentDeleted out else out)"

definition content_delta ::
  "content_snapshot \<Rightarrow> content_snapshot \<Rightarrow> (string \<Rightarrow> bool) option \<Rightarrow> (string \<times> content_change) list" where
  "content_delta before after tracked =
     fold (delta_before after) before (fold (delta_after tracked before) after [])"

section \<open>git status\<close>

definition status_line :: "string \<Rightarrow> (string \<times> string) list \<Rightarrow> (string \<times> string) list" where
  "status_line line entries =
     (if trim line = [] then entries else map_set (unquote (drop 3 line)) (take 2 line) entries)"

definition status_porcelain :: "string \<Rightarrow> (string \<times> string) list" where
  "status_porcelain out = fold status_line (split_on (CHR 0x0A) out) []"

definition status_change :: "string \<Rightarrow> content_change" where
  "status_change xy =
     (if CHR ''D'' \<in> set xy then ContentDeleted
      else if CHR ''?'' \<in> set xy \<or> prefix ''A'' xy \<or> suffix ''A'' xy then ContentCreated
      else ContentModified)"

definition status_delta ::
  "(string \<times> string) list \<Rightarrow> (string \<times> string) list \<Rightarrow> (string \<times> content_change) list" where
  "status_delta before after =
     fold (\<lambda>(p, xy) out. if map_of before p = Some xy then out else map_set p (status_change xy) out) after []"

section \<open>Snapshots are maps\<close>

lemma fold_distinct:
  assumes "\<And>x m. distinct (map fst m) \<Longrightarrow> distinct (map fst (f x m))" "distinct (map fst m)"
  shows "distinct (map fst (fold f xs m))"
  using assms(2) by (induction xs arbitrary: m) (simp_all add: assms(1))

lemma content_snapshot_distinct: "distinct (map fst (content_snapshot file_hash diff st))"
  unfolding content_snapshot_def
  by (intro fold_distinct)
     (simp_all add: untracked_entry_def diff_entry_def Let_def map_set_distinct)

text \<open>What one pass over a map leaves at a path: only the entry of that path matters.\<close>

lemma fold_delta_after:
  "distinct (map fst after) \<Longrightarrow>
   map_of (fold (delta_after tracked before) after out) p =
     (case map_of after p of
        None \<Rightarrow> map_of out p
      | Some identity \<Rightarrow> map_of (delta_after tracked before (p, identity) out) p)"
proof (induction after arbitrary: out)
  case (Cons e after)
  obtain q i where e: "e = (q, i)" by force
  have same: "map_of (delta_after tracked before (q, i) out) p = map_of out p" if "p \<noteq> q" for out
    using that by (simp add: delta_after_def)
  have local_only: "map_of (delta_after tracked before (p, j) out) p = map_of (delta_after tracked before (p, j) out') p"
    if "map_of out p = map_of out' p" for out out' j
    using that by (simp add: delta_after_def)
  show ?case
  proof (cases "p = q")
    case True
    then have "map_of after p = None" using Cons.prems e by (auto simp: map_of_eq_None_iff)
    then show ?thesis using Cons True by (simp add: e)
  next
    case False
    then show ?thesis using Cons local_only [OF same [OF False]]
      by (auto simp: e same split: option.splits)
  qed
qed simp

lemma fold_delta_before:
  "map_of (fold (delta_before after) before out) p =
     (if map_of before p \<noteq> None \<and> map_of after p = None then Some ContentDeleted else map_of out p)"
  by (induction before arbitrary: out) (auto simp: delta_before_def)

text \<open>
  the content delta names exactly the paths whose identity differs between the snapshots:
  gone from the later one, or marked deleted there, is deleted; new is created, or modified when
  git tracks it; anything else is modified.
\<close>
theorem content_delta_exact:
  assumes "distinct (map fst after)"
  shows "map_of (content_delta before after tracked) p =
    (if map_of before p = map_of after p then None
     else case map_of after p of
        None \<Rightarrow> Some ContentDeleted
      | Some identity \<Rightarrow>
          if identity = deleted_mark then Some ContentDeleted
          else if map_of before p = None \<and> \<not> (\<exists>t. tracked = Some t \<and> t p) then Some ContentCreated
          else Some ContentModified)"
  by (cases "map_of before p"; cases "map_of after p"; cases tracked)
     (simp_all add: content_delta_def fold_delta_before fold_delta_after [OF assms] delta_after_def)

theorem content_delta_exact_witness:
  "map_of (content_delta [(''a'', ''1''), (''b'', ''2'')] [(''b'', ''3''), (''c'', ''4'')] None) ''b'' = Some ContentModified
   \<and> map_of (content_delta [(''a'', ''1''), (''b'', ''2'')] [(''b'', ''3''), (''c'', ''4'')] None) ''c'' = Some ContentCreated"
  using content_delta_exact [of "[(''b'', ''3''), (''c'', ''4'')]" "[(''a'', ''1''), (''b'', ''2'')]" None]
  by (simp add: deleted_mark_def)

text \<open>
  a tracked file that was dirty and that a task restores to its committed content is
  reported as deleted: the earlier snapshot lists it, the later one, equal to the commit, does
  not.
\<close>
theorem restored_reported_deleted:
  "content_delta (content_snapshot h ('':100644 100644 '' @ replicate 40 CHR ''a'' @ '' '' @ replicate 40 CHR ''b'' @ '' M''
       @ [CHR 0x09] @ ''src/a.ts'') []) (content_snapshot h [] []) tracked
   = [(''src/a.ts'', ContentDeleted)]"
proof -
  have "content_snapshot h ('':100644 100644 '' @ replicate 40 CHR ''a'' @ '' '' @ replicate 40 CHR ''b'' @ '' M''
       @ [CHR 0x09] @ ''src/a.ts'') [] = [(''src/a.ts'', replicate 40 CHR ''b'')]"
    by code_simp
  moreover have "content_snapshot h [] [] = []" by code_simp
  ultimately show ?thesis by (simp add: content_delta_def delta_before_def)
qed

end
