(* ===== verification/Enforce.thy ===== *)
theory Enforce
  imports Patch RepoContent Commands
begin

text \<open>
  What keeps a task inside its declared scope: \<^verbatim>\<open>packages/executor/src/enforce.ts\<close>, the
  submission guard \<^verbatim>\<open>unmediated-guard.ts\<close> and the declared commands \<^verbatim>\<open>touchset.ts\<close>. Git and the
  file system are parameters; paths use the separator of POSIX. Messages are not modelled,
  only the paths they name.
\<close>

section \<open>Scopes\<close>

datatype violation_code = OutOfScopeWrite | UnsafePath | ProtectedPathWrite

record scope_violation =
  sv_path :: string
  sv_code :: violation_code

definition enforce_protected_paths :: "string list \<Rightarrow> string list \<Rightarrow> scope_violation list" where
  "enforce_protected_paths protected changed =
     (if protected = [] then []
      else map (\<lambda>raw. \<lparr>sv_path = raw, sv_code = ProtectedPathWrite\<rparr>)
        (filter (\<lambda>raw. glob_match_any protected (normalize_rel_path raw)) changed))"

fun enforce_write_scope :: "string list \<Rightarrow> string list \<Rightarrow> scope_violation list" where
  "enforce_write_scope patterns [] = []"
| "enforce_write_scope patterns (raw # changed) =
     (let path = normalize_rel_path raw in
      if \<not> is_safe_relative_path path
      then \<lparr>sv_path = raw, sv_code = UnsafePath\<rparr> # enforce_write_scope patterns changed
      else if \<not> glob_match_any patterns path
      then \<lparr>sv_path = raw, sv_code = OutOfScopeWrite\<rparr> # enforce_write_scope patterns changed
      else enforce_write_scope patterns changed)"

definition in_scope :: "string list \<Rightarrow> string \<Rightarrow> bool" where
  "in_scope patterns path \<longleftrightarrow> is_safe_relative_path path \<and> (\<exists>p \<in> set patterns. glob_match p path)"

lemma glob_match_any_normal [simp]:
  "glob_match q (normalize_rel_path p) = glob_match q p"
  "glob_match_any ps (normalize_rel_path p) = glob_match_any ps p"
  by (simp_all add: glob_match_any_def glob_match_def)

text \<open>
  the write scope check passes exactly when every changed path is safe and matches a
  declared pattern, and otherwise reports the offending paths, each once per occurrence and in
  order; a protected path is reported whatever the declared scope is.
\<close>
theorem write_scope_exact:
  "(enforce_write_scope patterns changed = [] \<longleftrightarrow> list_all (in_scope patterns) changed)
   \<and> map sv_path (enforce_write_scope patterns changed) = filter (\<lambda>p. \<not> in_scope patterns p) changed
   \<and> map sv_path (enforce_protected_paths protected changed) = filter (glob_match_any protected) changed"
proof -
  have "map sv_path (enforce_write_scope patterns changed) = filter (\<lambda>p. \<not> in_scope patterns p) changed"
    by (induction changed) (auto simp: Let_def in_scope_def glob_match_any_def list_ex_iff)
  moreover from this have "enforce_write_scope patterns changed = [] \<longleftrightarrow> list_all (in_scope patterns) changed"
    by (metis filter_False filter_empty_conv list_all_iff map_is_Nil_conv)
  moreover have "map sv_path (enforce_protected_paths protected changed) = filter (glob_match_any protected) changed"
    by (auto simp: enforce_protected_paths_def comp_def glob_match_any_def [abs_def])
  ultimately show ?thesis by blast
qed

section \<open>The submission guard\<close>

datatype attribution_kind = AppliedWrite | DeclaredWrite

record attribution_write =
  aw_path :: string
  aw_digest :: string
  aw_kind :: attribution_kind

text \<open>
  What the guard observes: \<open>git rev-parse HEAD\<close> and \<open>git diff --name-only\<close> (each \<open>None\<close> when it
  fails), the dirty paths (\<open>None\<close> when the status call throws) and the readable contents.
\<close>

record submission =
  sb_head :: "string option"
  sb_delta :: "string list option"
  sb_dirty :: "string list option"
  sb_read :: "string \<Rightarrow> string option"
  sb_baseline :: string
  sb_write_targets :: "string list"
  sb_attribution :: "attribution_write list"
  sb_store_exists :: "bool option"
  sb_prior_work :: "bool option"
  sb_protected :: "string list"

datatype guard_code = UnmediatedChanges | GuardVersionSkew

datatype submission_check = Allow | Refuse guard_code "string list"

definition committed_bypass :: "submission \<Rightarrow> submission_check option" where
  "committed_bypass s =
     (case sb_head s of
        None \<Rightarrow> None
      | Some head \<Rightarrow>
          if trim head = sb_baseline s then None
          else if sb_protected s = [] then Some (Refuse UnmediatedChanges [])
          else
            (case sb_delta s of
               None \<Rightarrow> Some (Refuse UnmediatedChanges [])
             | Some delta \<Rightarrow>
                 let changed = filter (\<lambda>p. p \<noteq> []) delta in
                 if changed \<noteq> [] \<and> list_all (glob_match_any (sb_protected s)) changed then None
                 else Some (Refuse UnmediatedChanges
                   (take 5 (filter (\<lambda>p. \<not> glob_match_any (sb_protected s) p) changed)))))"

definition attributed :: "(string \<Rightarrow> string) \<Rightarrow> submission \<Rightarrow> string \<Rightarrow> bool" where
  "attributed sha s p =
     (case List.find (\<lambda>w. aw_path w = p) (sb_attribution s) of
        None \<Rightarrow> False
      | Some record \<Rightarrow>
          (case sb_read s p of None \<Rightarrow> False | Some content \<Rightarrow> file_digest sha content = aw_digest record))"

definition evaluate_submission :: "(string \<Rightarrow> string) \<Rightarrow> submission \<Rightarrow> submission_check" where
  "evaluate_submission sha s =
     (case committed_bypass s of
        Some refusal \<Rightarrow> refusal
      | None \<Rightarrow>
          (case sb_dirty s of
             None \<Rightarrow> Allow
           | Some dirty \<Rightarrow>
               let under = filter (glob_match_any (sb_write_targets s)) dirty;
                   unattributed = filter (\<lambda>p. \<not> attributed sha s p) under
               in if unattributed = [] then Allow
                  else if sb_store_exists s = Some False \<and> sb_prior_work s = Some True
                  then Refuse GuardVersionSkew unattributed
                  else Refuse UnmediatedChanges unattributed))"

text \<open>Dirt of the checkout that no record accounts for.\<close>

definition unmediated :: "(string \<Rightarrow> string) \<Rightarrow> submission \<Rightarrow> string \<Rightarrow> bool" where
  "unmediated sha s p \<longleftrightarrow> glob_match_any (sb_write_targets s) p \<and> \<not> attributed sha s p"

definition author_delta :: "submission \<Rightarrow> bool" where
  "author_delta s \<longleftrightarrow> sb_protected s \<noteq> [] \<and>
     (\<exists>delta. sb_delta s = Some delta \<and> (\<exists>p \<in> set delta. p \<noteq> [])
        \<and> (\<forall>p \<in> set delta. p \<noteq> [] \<longrightarrow> glob_match_any (sb_protected s) p))"

lemma committed_bypass_None:
  "committed_bypass s = None \<longleftrightarrow>
     (case sb_head s of None \<Rightarrow> True | Some head \<Rightarrow> trim head = sb_baseline s \<or> author_delta s)"
  by (auto simp: committed_bypass_def author_delta_def Let_def list_all_iff filter_empty_conv
      split: option.splits)

lemma committed_bypass_not_Allow: "committed_bypass s \<noteq> Some Allow"
  by (auto simp: committed_bypass_def Let_def split: option.splits)

lemma evaluate_submission_alt:
  "evaluate_submission sha s =
     (case committed_bypass s of
        Some refusal \<Rightarrow> refusal
      | None \<Rightarrow>
          (case sb_dirty s of
             None \<Rightarrow> Allow
           | Some dirty \<Rightarrow>
               if filter (unmediated sha s) dirty = [] then Allow
               else Refuse (if sb_store_exists s = Some False \<and> sb_prior_work s = Some True
                            then GuardVersionSkew else UnmediatedChanges) (filter (unmediated sha s) dirty)))"
proof -
  have "filter (\<lambda>p. \<not> attributed sha s p) (filter (glob_match_any (sb_write_targets s)) dirty)
      = filter (unmediated sha s) dirty" for dirty
    unfolding filter_filter by (rule filter_cong) (auto simp: unmediated_def)
  then show ?thesis
    unfolding evaluate_submission_def Let_def by (simp del: filter_filter split: option.split)
qed

text \<open>
  C12: the guard allows a submission exactly when the commit has not moved, or has moved only over
  protected paths, and every dirty path under the write targets still has the content recorded
  for it; a refusal for the working tree names exactly the paths that do not, and the answer's
  own proposal plays no part.
\<close>
theorem guard_exact:
  "(evaluate_submission sha s = Allow \<longleftrightarrow>
      (case sb_head s of None \<Rightarrow> True | Some head \<Rightarrow> trim head = sb_baseline s \<or> author_delta s)
      \<and> (case sb_dirty s of None \<Rightarrow> True | Some dirty \<Rightarrow> \<not> list_ex (unmediated sha s) dirty))
   \<and> (\<forall>code ps. evaluate_submission sha s = Refuse code ps \<longrightarrow> committed_bypass s = None \<longrightarrow>
      (\<exists>dirty. sb_dirty s = Some dirty \<and> ps = filter (unmediated sha s) dirty \<and> ps \<noteq> []))"
proof -
  have "evaluate_submission sha s = Allow \<longleftrightarrow> committed_bypass s = None
      \<and> (case sb_dirty s of None \<Rightarrow> True | Some dirty \<Rightarrow> \<not> list_ex (unmediated sha s) dirty)"
    using committed_bypass_not_Allow [of s]
    by (cases "committed_bypass s"; cases "sb_dirty s")
       (auto simp: evaluate_submission_alt filter_empty_conv list_ex_iff)
  moreover have "\<exists>dirty. sb_dirty s = Some dirty \<and> ps = filter (unmediated sha s) dirty \<and> ps \<noteq> []"
    if "evaluate_submission sha s = Refuse code ps" "committed_bypass s = None" for code ps
    using that by (cases "sb_dirty s") (auto simp: evaluate_submission_alt split: if_splits)
  ultimately show ?thesis unfolding committed_bypass_None by blast
qed

definition sample_submission :: submission where
  "sample_submission = \<lparr>sb_head = Some ''abc'', sb_delta = None, sb_dirty = Some [''src/a.ts''],
     sb_read = (\<lambda>p. Some ''new''), sb_baseline = ''abc'', sb_write_targets = [''src/**''],
     sb_attribution = [], sb_store_exists = Some True, sb_prior_work = Some False, sb_protected = []\<rparr>"

theorem guard_exact_witness:
  "committed_bypass sample_submission = None
   \<and> evaluate_submission (\<lambda>x. x) sample_submission = Refuse UnmediatedChanges [''src/a.ts'']"
proof -
  have r: "evaluate_submission (\<lambda>x. x) sample_submission = Refuse UnmediatedChanges [''src/a.ts'']"
    and none: "committed_bypass sample_submission = None"
    by code_simp+
  have "filter (unmediated (\<lambda>x. x) sample_submission) [''src/a.ts''] = [''src/a.ts'']"
    using guard_exact [of "\<lambda>x. x" sample_submission] r none by (auto simp: sample_submission_def)
  with r none show ?thesis by blast
qed
end
