(* ===== verification/TouchSet.thy ===== *)
theory TouchSet
  imports Enforce
begin

text \<open>
  Declared commands, \<^verbatim>\<open>packages/executor/src/touchset.ts\<close>: each command runs under the policy,
  what it changed must lie in its declared touch-set, and forbidden writes are reverted. The
  checkout is its files, its index and the output of \<^verbatim>\<open>git rev-parse HEAD\<close> (none when it fails); the other
  output of git and the spawned shell are parameters.
\<close>

section \<open>Reverting\<close>

record checkout =
  co_files :: "string \<Rightarrow> string option"
  co_index :: "string \<Rightarrow> string option"
  co_head :: "string option"

text \<open>A tracked path is restored from the index, an untracked one removed.\<close>

definition revert_path :: "string \<Rightarrow> checkout \<Rightarrow> checkout" where
  "revert_path p w =
     (if \<not> is_safe_relative_path p then w
      else case co_index w p of
        Some content \<Rightarrow> w\<lparr>co_files := (co_files w)(p \<mapsto> content)\<rparr>
      | None \<Rightarrow> w\<lparr>co_files := (co_files w)(p := None)\<rparr>)"

definition revert_paths :: "string list \<Rightarrow> checkout \<Rightarrow> checkout" where
  "revert_paths ps w = fold revert_path ps w"

section \<open>Running\<close>

record declared_command =
  dc_command :: string
  dc_touch_set :: "string list option"

datatype command_refusal =
    CommandDenied string string | TouchSetViolation string bool "string list" | CommandFailed string "int option" bool string

record runner =
  rn_sha :: "string \<Rightarrow> string"
  rn_env :: "(string \<times> string) list"
  rn_max_bytes :: nat
  rn_config :: commands_config
  rn_spawn :: "string \<Rightarrow> checkout \<Rightarrow> spawn_result \<times> checkout"
  rn_git_diff :: "checkout \<Rightarrow> string"
  rn_git_status :: "checkout \<Rightarrow> string"

definition run_one :: "runner \<Rightarrow> string \<Rightarrow> checkout \<Rightarrow> command_run \<times> checkout" where
  "run_one r command w =
     run_command (rn_sha r) (rn_env r) (rn_max_bytes r) (rn_config r) (rn_spawn r) command w"

definition snapshot_of :: "runner \<Rightarrow> checkout \<Rightarrow> content_snapshot" where
  "snapshot_of r w =
     content_snapshot (\<lambda>p. map_option (rn_sha r) (co_files w p)) (rn_git_diff r w) (rn_git_status r w)"

definition spc_state_prefixes :: "string list" where
  "spc_state_prefixes = [''.spc/runs/'', ''.spc/plans/'', ''.spc/worktrees/'', ''.spc/cache/'', ''.spc/harness/'']"

definition changed_paths_since :: "runner \<Rightarrow> content_snapshot \<Rightarrow> checkout \<Rightarrow> string list" where
  "changed_paths_since r before w =
     filter (\<lambda>p. \<not> list_ex (\<lambda>pre. prefix pre p) spc_state_prefixes)
       (map fst (content_delta before (snapshot_of r w) (Some (\<lambda>p. co_index w p \<noteq> None))))"

definition touch_list :: "declared_command \<Rightarrow> string list" where
  "touch_list c = (case dc_touch_set c of None \<Rightarrow> [] | Some ps \<Rightarrow> ps)"

definition untouched_patterns :: "declared_command \<Rightarrow> string list \<Rightarrow> string list" where
  "untouched_patterns c changed =
     filter (\<lambda>pattern. \<not> list_ex (\<lambda>p. glob_match_any [pattern] (normalize_rel_path p)) changed) (touch_list c)"

text \<open>One iteration: a refusal, or the run and the patterns it did not touch.\<close>

definition run_declared_one ::
  "runner \<Rightarrow> declared_command \<Rightarrow> checkout \<Rightarrow> (command_refusal, command_run \<times> string list) result \<times> checkout" where
  "run_declared_one r c w =
     (let before = snapshot_of r w in
      case run_one r (dc_command c) w of
        (run, w1) \<Rightarrow>
          if \<not> cr_allowed run
          then (Inl (CommandDenied (dc_command c)
                  (case cr_denied_reason run of Some why \<Rightarrow> why | None \<Rightarrow> ''denied by command policy'')), w1)
          else
            (let changed = changed_paths_since r before w1;
                 offending = filter (\<lambda>p. \<not> glob_match_any (touch_list c) (normalize_rel_path p)) changed
             in if changed \<noteq> [] \<and> (touch_list c = [] \<or> offending \<noteq> [])
                then (Inl (TouchSetViolation (dc_command c) (touch_list c \<noteq> []) offending), revert_paths offending w1)
                else if cr_exit_code run \<noteq> Some 0 \<or> cr_timed_out run
                then (Inl (CommandFailed (dc_command c) (cr_exit_code run) (cr_timed_out run) (cr_stderr run)), w1)
                else (Inr (run, untouched_patterns c changed), w1)))"

fun run_declared_commands ::
  "runner \<Rightarrow> declared_command list \<Rightarrow> checkout \<Rightarrow>
   (command_refusal, command_run list \<times> string list) result \<times> checkout" where
  "run_declared_commands r [] w = (Inr ([], []), w)"
| "run_declared_commands r (c # cs) w =
     (case run_declared_one r c w of
        (Inl refusal, w1) \<Rightarrow> (Inl refusal, w1)
      | (Inr (run, untouched), w1) \<Rightarrow>
          (case run_declared_commands r cs w1 of
             (Inl refusal, w2) \<Rightarrow> (Inl refusal, w2)
           | (Inr (runs, untouched'), w2) \<Rightarrow> (Inr (run # runs, untouched @ untouched'), w2)))"

section \<open>The contract\<close>

text \<open>A command that stayed inside its declaration and succeeded.\<close>

definition clean_run :: "runner \<Rightarrow> declared_command \<Rightarrow> checkout \<Rightarrow> checkout \<Rightarrow> bool" where
  "clean_run r c w w1 \<longleftrightarrow>
     (case run_one r (dc_command c) w of
        (run, w') \<Rightarrow> w' = w1 \<and> cr_allowed run \<and> cr_exit_code run = Some 0 \<and> \<not> cr_timed_out run
          \<and> list_all (glob_match_any (touch_list c)) (changed_paths_since r (snapshot_of r w) w1))"

inductive clean_runs :: "runner \<Rightarrow> declared_command list \<Rightarrow> checkout \<Rightarrow> checkout \<Rightarrow> bool" for r where
  clean_none: "clean_runs r [] w w"
| clean_next: "clean_run r c w w1 \<Longrightarrow> clean_runs r cs w1 w2 \<Longrightarrow> clean_runs r (c # cs) w w2"

inductive_simps clean_runs_simps [simp]: "clean_runs r [] w w'" "clean_runs r (c # cs) w w'"

lemma run_declared_one_ok:
  "(\<exists>x. run_declared_one r c w = (Inr x, w1)) \<longleftrightarrow> clean_run r c w w1"
proof -
  obtain run w' where run: "run_one r (dc_command c) w = (run, w')" by force
  have outside: "ps \<noteq> [] \<and> (ts = [] \<or> filter (\<lambda>p. \<not> glob_match_any ts (normalize_rel_path p)) ps \<noteq> [])
      \<longleftrightarrow> \<not> list_all (glob_match_any ts) ps" for ps ts
    by (cases ps) (auto simp: filter_empty_conv list_all_iff glob_match_any_def)
  show ?thesis
    unfolding run_declared_one_def clean_run_def run Let_def prod.case outside by auto
qed

text \<open>
  C27: the command set is accepted exactly when every command was allowed by the policy, exited
  with zero in time, and changed only paths its touch-set declares, in a chain of checkouts
  from the first to the last; then each command has its result.
\<close>
theorem declared_commands_exact:
  "(\<exists>runs untouched. run_declared_commands r cs w = (Inr (runs, untouched), w') \<and> map cr_command runs = map dc_command cs)
   \<longleftrightarrow> clean_runs r cs w w'"
proof (induction cs arbitrary: w)
  case (Cons c cs)
  have name: "cr_command run = dc_command c" if "run_declared_one r c w = (Inr (run, u), w1)" for run u w1
  proof -
    obtain run' w2 where r: "run_one r (dc_command c) w = (run', w2)" by force
    then have "cr_command run' = dc_command c"
      by (auto simp: run_one_def run_command_def Let_def split: if_splits prod.splits spawn_result.splits)
    with that r show ?thesis by (auto simp: run_declared_one_def Let_def split: if_splits)
  qed
  obtain res w1 where res: "run_declared_one r c w = (res, w1)" by force
  show ?case
  proof (cases res)
    case (Inl e)
    then have "\<not> clean_run r c w w1'" for w1'
      using run_declared_one_ok [of r c w w1'] res by auto
    then show ?thesis using Inl res by simp
  next
    case (Inr x)
    obtain run u where x: "x = (run, u)" by force
    have "clean_run r c w w1' \<longleftrightarrow> w1' = w1" for w1'
      using run_declared_one_ok [of r c w w1'] res Inr by auto
    then show ?thesis
      using Cons.IH [of w1] name [of run u w1] res Inr x
      by (auto split: prod.splits sum.splits)
  qed
qed auto

text \<open>What a revert does to one path of the list.\<close>

lemma revert_path_index [simp]: "co_index (revert_path p w) = co_index w"
  by (simp add: revert_path_def split: option.split)

lemma revert_paths_simps [simp]:
  "revert_paths [] w = w" "revert_paths (p # ps) w = revert_paths ps (revert_path p w)"
  by (simp_all add: revert_paths_def)

lemma revert_paths_index [simp]: "co_index (revert_paths ps w) = co_index w"
  by (induction ps arbitrary: w) simp_all

lemma revert_paths_files:
  "co_files (revert_paths ps w) q =
     (if q \<in> set ps \<and> is_safe_relative_path q then co_index w q else co_files w q)"
  by (induction ps arbitrary: w) (auto simp: revert_path_def split: option.splits)

section \<open>Samples\<close>

text \<open>A repository with one committed file; the shell writes it, and stages it when asked.\<close>

definition sample_checkout :: checkout where
  "sample_checkout = \<lparr>co_files = (\<lambda>p. if p = ''src/a.ts'' then Some ''old'' else None),
     co_index = (\<lambda>p. if p = ''src/a.ts'' then Some ''old'' else None), co_head = Some ''abc''\<rparr>"

definition sample_diff :: "checkout \<Rightarrow> string" where
  "sample_diff w =
     (if co_files w ''src/a.ts'' = Some ''old'' then [] else '':100644 100644 1 2 M'' @ [CHR 0x09] @ ''src/a.ts'')"

definition sample_spawn :: "string \<Rightarrow> checkout \<Rightarrow> spawn_result \<times> checkout" where
  "sample_spawn command w =
     (Exited (Some 0) None [] [] False 5,
      if command = ''make'' then w\<lparr>co_files := (co_files w)(''src/a.ts'' \<mapsto> ''new'')\<rparr>
      else if command = ''git apply --index''
      then w\<lparr>co_files := (co_files w)(''src/a.ts'' \<mapsto> ''new''), co_index := (co_index w)(''src/a.ts'' \<mapsto> ''new'')\<rparr>
      else w)"

definition sample_runner :: runner where
  "sample_runner = \<lparr>rn_sha = (\<lambda>s. s), rn_env = [], rn_max_bytes = 100, rn_config = default_commands,
     rn_spawn = sample_spawn, rn_git_diff = sample_diff, rn_git_status = (\<lambda>_. [])\<rparr>"

definition undeclared :: "string \<Rightarrow> declared_command" where
  "undeclared command = \<lparr>dc_command = command, dc_touch_set = None\<rparr>"

definition refusal_paths :: "(command_refusal, 'a) result \<Rightarrow> string list option" where
  "refusal_paths r = (case r of Inl (TouchSetViolation _ _ ps) \<Rightarrow> Some ps | _ \<Rightarrow> None)"

lemma refusal_paths_Some: "refusal_paths r = Some ps \<Longrightarrow> \<exists>name declared. r = Inl (TouchSetViolation name declared ps)"
  by (auto simp: refusal_paths_def split: sum.splits command_refusal.splits)


theorem declared_commands_exact_witness:
  "clean_runs sample_runner [\<lparr>dc_command = ''make'', dc_touch_set = Some [''src/**'']\<rparr>] sample_checkout
     (snd (run_declared_commands sample_runner [\<lparr>dc_command = ''make'', dc_touch_set = Some [''src/**'']\<rparr>] sample_checkout))"
proof -
  let ?cs = "[\<lparr>dc_command = ''make'', dc_touch_set = Some [''src/**'']\<rparr>]"
  let ?r = "run_declared_commands sample_runner ?cs sample_checkout"
  have "map_option (\<lambda>(runs, u). map cr_command runs) (case fst ?r of Inr x \<Rightarrow> Some x | Inl _ \<Rightarrow> None) = Some [''make'']"
    by code_simp
  then obtain runs u where r: "fst ?r = Inr (runs, u)" "map cr_command runs = map dc_command ?cs"
    by (auto split: sum.splits)
  then have "\<exists>runs untouched. ?r = (Inr (runs, untouched), snd ?r) \<and> map cr_command runs = map dc_command ?cs"
    by (metis prod.collapse)
  then show ?thesis using declared_commands_exact [of sample_runner ?cs sample_checkout "snd ?r"] by blast
qed

text \<open>
  a violation does not stick when the command stages its change: the revert restores the
  forbidden content from the index, and a retry of nothing then completes with it in the tree.
\<close>
theorem staged_violation_survives:
  "refusal_paths (fst (run_declared_one sample_runner (undeclared ''git apply --index'') sample_checkout)) = Some [''src/a.ts'']
   \<and> co_files (snd (run_declared_one sample_runner (undeclared ''git apply --index'') sample_checkout)) ''src/a.ts'' = Some ''new''
   \<and> \<not> isl (fst (run_declared_commands sample_runner [undeclared ''ls'']
        (snd (run_declared_one sample_runner (undeclared ''git apply --index'') sample_checkout))))"
  by code_simp

end
