(* ===== verification/Observation.thy ===== *)
theory Observation
  imports EvidenceLog
begin

text \<open>
  Observations, the facts an executor reports that can trigger replanning: their schema
  \<^verbatim>\<open>packages/schema/src/observation.ts\<close> and the \<^verbatim>\<open>ObservationStore\<close> of
  \<^verbatim>\<open>packages/runtime/src/stores.ts\<close>, whose loader drops the lines the schema rejects.
\<close>

section \<open>Schema\<close>

datatype observation_type = ORepository | OArchitecture | ODependency | OConstraint | OEnvironment | OUnexpected

datatype confidence = Confirmed | Inferred

record invalidates =
  inv_task_ids :: "string list option"
  inv_plan :: "bool option"

record observation_draft =
  ob_type :: observation_type
  ob_statement :: string
  ob_confidence :: confidence
  ob_evidence_ids :: "string list option"
  ob_invalidates :: "invalidates option"

record observation = observation_draft +
  ob_id :: string
  ob_run_id :: string
  ob_task_id :: "string option"

fun observation_type_text :: "observation_type \<Rightarrow> string" where
  "observation_type_text ORepository = ''repository''" | "observation_type_text OArchitecture = ''architecture''"
| "observation_type_text ODependency = ''dependency''" | "observation_type_text OConstraint = ''constraint''"
| "observation_type_text OEnvironment = ''environment''" | "observation_type_text OUnexpected = ''unexpected''"

fun confidence_text :: "confidence \<Rightarrow> string" where
  "confidence_text Confirmed = ''confirmed''" | "confidence_text Inferred = ''inferred''"

definition observation_type_of :: "string \<Rightarrow> observation_type option" where
  "observation_type_of s = List.find (\<lambda>t. observation_type_text t = s)
     [ORepository, OArchitecture, ODependency, OConstraint, OEnvironment, OUnexpected]"

definition confidence_of :: "string \<Rightarrow> confidence option" where
  "confidence_of s = List.find (\<lambda>t. confidence_text t = s) [Confirmed, Inferred]"

definition opt_strings_field :: "(string \<times> json) list \<Rightarrow> string \<Rightarrow> string list option option" where
  "opt_strings_field fs k =
     (case map_of fs k of None \<Rightarrow> Some None | Some j \<Rightarrow> map_option Some (string_array j))"

definition invalidates_json :: "invalidates \<Rightarrow> json" where
  "invalidates_json i = object_of [(''taskIds'', map_option strings_json (inv_task_ids i)), (''plan'', map_option JBool (inv_plan i))]"

definition parse_invalidates :: "json \<Rightarrow> invalidates option" where
  "parse_invalidates j =
     (case j of
        JObject fs \<Rightarrow>
          if \<not> set (map fst fs) \<subseteq> {''taskIds'', ''plan''} then None
          else
            (case (opt_strings_field fs ''taskIds'',
                   case map_of fs ''plan'' of None \<Rightarrow> Some None | Some (JBool b) \<Rightarrow> Some (Some b) | _ \<Rightarrow> None) of
               (Some ids, Some plan) \<Rightarrow> Some \<lparr>inv_task_ids = ids, inv_plan = plan\<rparr>
             | _ \<Rightarrow> None)
      | _ \<Rightarrow> None)"

text \<open>\<open>observationSchema.safeParse\<close> on a parsed value.\<close>

definition observation_of_json :: "json \<Rightarrow> observation option" where
  "observation_of_json j =
     (case j of
        JObject fs \<Rightarrow>
          if \<not> set (map fst fs) \<subseteq> {''id'', ''runId'', ''taskId'', ''type'', ''statement'', ''confidence'', ''evidenceIds'', ''invalidates''}
          then None
          else
            (case (map_of fs ''id'', map_of fs ''runId'', map_of fs ''type'', map_of fs ''statement'', map_of fs ''confidence'') of
               (Some (JString i), Some (JString run), Some (JString t), Some (JString st), Some (JString c)) \<Rightarrow>
                 (case (opt_string_field fs ''taskId'', opt_strings_field fs ''evidenceIds'',
                        case map_of fs ''invalidates'' of None \<Rightarrow> Some None | Some v \<Rightarrow> map_option Some (parse_invalidates v),
                        observation_type_of t, confidence_of c) of
                    (Some tid, Some evs, Some ivs, Some ty, Some conf) \<Rightarrow>
                      if i = [] \<or> st = [] then None
                      else Some \<lparr>ob_type = ty, ob_statement = st, ob_confidence = conf, ob_evidence_ids = evs,
                                 ob_invalidates = ivs, ob_id = i, ob_run_id = run, ob_task_id = tid\<rparr>
                  | _ \<Rightarrow> None)
             | _ \<Rightarrow> None)
      | _ \<Rightarrow> None)"

text \<open>The object \<open>add\<close> writes: the draft's fields, then the identifier and the run.\<close>

definition observation_fields :: "observation \<Rightarrow> (string \<times> json option) list" where
  "observation_fields o' =
     [(''type'', Some (JString (observation_type_text (ob_type o')))), (''statement'', Some (JString (ob_statement o'))),
      (''confidence'', Some (JString (confidence_text (ob_confidence o')))),
      (''evidenceIds'', map_option strings_json (ob_evidence_ids o')),
      (''invalidates'', map_option invalidates_json (ob_invalidates o')),
      (''taskId'', map_option JString (ob_task_id o')),
      (''id'', Some (JString (ob_id o'))), (''runId'', Some (JString (ob_run_id o')))]"

definition observation_json :: "observation \<Rightarrow> json" where
  "observation_json o' = object_of (observation_fields o')"

section \<open>ObservationStore\<close>

record observation_store =
  os_file :: "string option"
  os_records :: "observation list"

text \<open>\<open>readJsonl\<close>: the lines that are not blank, trimmed.\<close>

definition read_jsonl :: "string option \<Rightarrow> string list" where
  "read_jsonl file =
     (case file of None \<Rightarrow> [] | Some raw \<Rightarrow> filter (\<lambda>l. l \<noteq> []) (map trim (split_on CHR 0x0A raw)))"

text \<open>\<open>load\<close>: \<open>JSON.parse\<close> throws, an invalid record is dropped. The error names the line.\<close>

fun load_lines :: "string list \<Rightarrow> observation list \<Rightarrow> (string, observation list) result" where
  "load_lines [] records = Inr records"
| "load_lines (line # rest) records =
     (case json_parse line of
        None \<Rightarrow> Inl line
      | Some value \<Rightarrow>
          load_lines rest (case observation_of_json value of None \<Rightarrow> records | Some o' \<Rightarrow> records @ [o']))"

definition observation_load :: "observation_store \<Rightarrow> (string, observation_store) result" where
  "observation_load st =
     bind_result (load_lines (read_jsonl (os_file st)) (os_records st)) (\<lambda>records. Inr (st\<lparr>os_records := records\<rparr>))"

definition observation_id :: "nat \<Rightarrow> string" where
  "observation_id n = ''OBS-'' @ pad_start 3 CHR ''0'' (show_nat n)"

definition observation_add :: "observation_store \<Rightarrow> observation_draft \<Rightarrow> string option \<Rightarrow> string \<Rightarrow> observation_store \<times> observation" where
  "observation_add st d tid run =
     (let full = \<lparr>ob_type = ob_type d, ob_statement = ob_statement d, ob_confidence = ob_confidence d,
                  ob_evidence_ids = ob_evidence_ids d, ob_invalidates = ob_invalidates d,
                  ob_id = observation_id (length (os_records st) + 1), ob_run_id = run, ob_task_id = tid\<rparr>;
          old = (case os_file st of None \<Rightarrow> [] | Some raw \<Rightarrow> raw)
      in (st\<lparr>os_records := os_records st @ [full],
             os_file := Some (old @ stringify (observation_json full) @ [CHR 0x0A])\<rparr>, full))"


section \<open>What is added is reloaded\<close>

lemma observation_texts [simp]:
  "observation_type_of (observation_type_text t) = Some t" "confidence_of (confidence_text c) = Some c"
proof -
  show "observation_type_of (observation_type_text t) = Some t" by (cases t) (simp_all add: observation_type_of_def)
  show "confidence_of (confidence_text c) = Some c" by (cases c) (simp_all add: confidence_of_def)
qed

lemma parse_invalidates_json [simp]: "parse_invalidates (invalidates_json i) = Some i"
  by (cases i; cases "inv_task_ids i"; cases "inv_plan i")
     (auto simp: parse_invalidates_def invalidates_json_def object_of_def opt_strings_field_def)

lemma observation_fields_distinct: "distinct (map fst (observation_fields r))"
  by (simp add: observation_fields_def)

definition observation_ok :: "observation \<Rightarrow> bool" where
  "observation_ok r \<longleftrightarrow> ob_id r \<noteq> [] \<and> ob_statement r \<noteq> []"

lemma observation_of_observation_json:
  assumes "observation_ok r"
  shows "observation_of_json (observation_json r) = Some r"
proof -
  let ?fs = "present (observation_fields r)"
  note look = map_of_present [OF observation_fields_distinct [of r]]
  have strict: "set (map fst ?fs) \<subseteq> {''id'', ''runId'', ''taskId'', ''type'', ''statement'', ''confidence'', ''evidenceIds'', ''invalidates''}"
    by (rule subset_trans [OF present_keys]) (simp add: observation_fields_def)
  have plain: "map_of ?fs ''id'' = Some (JString (ob_id r))" "map_of ?fs ''runId'' = Some (JString (ob_run_id r))"
    "map_of ?fs ''type'' = Some (JString (observation_type_text (ob_type r)))"
    "map_of ?fs ''statement'' = Some (JString (ob_statement r))"
    "map_of ?fs ''confidence'' = Some (JString (confidence_text (ob_confidence r)))"
    "map_of ?fs ''evidenceIds'' = map_option strings_json (ob_evidence_ids r)"
    "map_of ?fs ''invalidates'' = map_option invalidates_json (ob_invalidates r)"
    by (rule look, simp add: observation_fields_def)+
  have tid: "opt_string_field ?fs ''taskId'' = Some (ob_task_id r)"
    by (rule opt_string_present [OF observation_fields_distinct]) (simp add: observation_fields_def)
  show ?thesis
    using assms strict
    by (cases "ob_evidence_ids r"; cases "ob_invalidates r")
       (auto simp: observation_json_def object_of_def observation_of_json_def plain tid opt_strings_field_def observation_ok_def
         intro!: observation.equality)
qed

lemma observation_json_wf: "wf_json (observation_json r)"
proof -
  have "wf_json (invalidates_json i)" for i
    unfolding invalidates_json_def
    by (rule present_wf) (auto simp: array_index_def option.pred_map option.pred_set)
  then show ?thesis
    unfolding observation_json_def
    by (intro present_wf) (auto simp: observation_fields_def array_index_def option.pred_map option.pred_set)
qed

lemma load_lines_append: "load_lines (ls @ ms) records = bind_result (load_lines ls records) (load_lines ms)"
  by (induction ls arbitrary: records) (auto split: option.split)

lemma load_observation_line:
  assumes "observation_ok r"
  shows "load_lines [stringify (observation_json r)] records = Inr (records @ [r])"
  using json_parse_stringify [OF observation_json_wf [of r]] observation_of_observation_json [OF assms] by simp

lemma read_jsonl_add:
  assumes "file = None \<and> old = [] \<or> file = Some old \<and> (old = [] \<or> ends_line old)"
  shows "read_jsonl (Some (old @ stringify (observation_json r) @ [CHR 0x0A])) = read_jsonl file @ [stringify (observation_json r)]"
proof -
  let ?s = "stringify (observation_json r)"
  have s: "trim ?s = ?s" "?s \<noteq> []"
    unfolding observation_json_def object_of_def by (rule trim_stringify_object) simp
  have tail: "split_on CHR 0x0A (?s @ [CHR 0x0A]) = [?s, []]"
    using split_on_append_sep [OF stringify_no_newline(1), of "observation_json r" "[]"] by simp
  show ?thesis
  proof (cases "old = []")
    case True
    with assms s tail show ?thesis by (auto simp: read_jsonl_def)
  next
    case False
    with assms obtain t where old: "file = Some old" "old = t @ [CHR 0x0A]"
      by (auto simp: ends_line_def dest: append_butlast_last_id [symmetric])
    have "split_on CHR 0x0A (t @ CHR 0x0A # ?s @ [CHR 0x0A]) = split_on CHR 0x0A t @ [?s, []]"
      by (simp add: split_on_append tail split_on_id stringify_no_newline)
    moreover have "split_on CHR 0x0A (t @ [CHR 0x0A]) = split_on CHR 0x0A t @ [[]]"
      using split_on_append [of "CHR 0x0A" t "[]"] by simp
    ultimately show ?thesis using s old by (simp add: read_jsonl_def)
  qed
qed

text \<open>The stores a process can hold: opened on no file, then added to.\<close>

inductive observed :: "observation_store \<Rightarrow> bool" where
  opened: "observed \<lparr>os_file = None, os_records = []\<rparr>"
| added: "observed st \<Longrightarrow> ob_statement d \<noteq> [] \<Longrightarrow> observed (fst (observation_add st d tid run))"

definition in_file :: "observation_store \<Rightarrow> bool" where
  "in_file st \<longleftrightarrow> load_lines (read_jsonl (os_file st)) [] = Inr (os_records st)
     \<and> (case os_file st of None \<Rightarrow> True | Some raw \<Rightarrow> ends_line raw)
     \<and> map ob_id (os_records st) = map observation_id [1..<Suc (length (os_records st))]"

lemma observed_in_file: "observed st \<Longrightarrow> in_file st"
proof (induction rule: observed.induct)
  case opened
  then show ?case by (simp add: in_file_def read_jsonl_def)
next
  case (added st d tid run)
  let ?full = "snd (observation_add st d tid run)"
  let ?old = "case os_file st of None \<Rightarrow> [] | Some raw \<Rightarrow> raw"
  have ok: "observation_ok ?full" using added.hyps by (simp add: observation_add_def Let_def observation_ok_def observation_id_def)
  have "read_jsonl (Some (?old @ stringify (observation_json ?full) @ [CHR 0x0A]))
      = read_jsonl (os_file st) @ [stringify (observation_json ?full)]"
    by (rule read_jsonl_add) (use added.IH in \<open>auto simp: in_file_def split: option.splits\<close>)
  then have "load_lines (read_jsonl (Some (?old @ stringify (observation_json ?full) @ [CHR 0x0A]))) [] = Inr (os_records st @ [?full])"
    using added.IH load_observation_line [OF ok] by (simp add: load_lines_append in_file_def)
  then show ?case
    using added.IH by (simp add: in_file_def observation_add_def Let_def ends_line_def)
qed

lemma observation_id_inject [simp]: "observation_id m = observation_id n \<longleftrightarrow> m = n"
proof
  have "read_nat (drop 4 (observation_id n)) = n" for n
    by (simp add: observation_id_def pad_start_def read_nat_zeros)
  then show "observation_id m = observation_id n \<Longrightarrow> m = n" by metis
qed simp

text \<open>
  Observations survive a restart: whatever was added, in any number of adds, a new process
  that loads the file holds the same records in the same order, and their identifiers are
  distinct.
\<close>
theorem observations_reload:
  assumes "observed st"
  shows "observation_load \<lparr>os_file = os_file st, os_records = []\<rparr> = Inr st \<and> distinct (map ob_id (os_records st))"
proof -
  note i = observed_in_file [OF assms]
  then have "distinct (map ob_id (os_records st))" by (simp add: in_file_def distinct_map inj_on_def)
  with i show ?thesis by (simp add: observation_load_def in_file_def bind_result_def)
qed

definition sample_observation :: observation_draft where
  "sample_observation = \<lparr>ob_type = OUnexpected, ob_statement = ''the port is taken'', ob_confidence = Confirmed,
     ob_evidence_ids = None, ob_invalidates = Some \<lparr>inv_task_ids = Some [''T001''], inv_plan = None\<rparr>\<rparr>"

theorem observations_reload_witness:
  "succeeds (observation_load \<lparr>os_file = os_file (fst (observation_add \<lparr>os_file = None, os_records = []\<rparr> sample_observation (Some ''T001'') ''run-1'')),
     os_records = []\<rparr>) \<noteq> None"
proof -
  have "observed (fst (observation_add \<lparr>os_file = None, os_records = []\<rparr> sample_observation (Some ''T001'') ''run-1''))"
    by (rule added [OF opened]) (simp add: sample_observation_def)
  from observations_reload [OF this] show ?thesis by simp
qed

text \<open>
  A line the schema rejects is dropped, and the identifiers count the records kept: the next
  observation can repeat the identifier of one on the file.
\<close>
theorem observation_id_repeats:
  "case observation_add \<lparr>os_file = None, os_records = []\<rparr> sample_observation None ''run-1'' of
     (first, _) \<Rightarrow>
       (case observation_add first sample_observation None ''run-1'' of
          (_, second) \<Rightarrow>
            (case observation_load \<lparr>os_file = Some (''{}'' @ [CHR 0x0A] @ stringify (observation_json second) @ [CHR 0x0A]), os_records = []\<rparr> of
               Inr st \<Rightarrow> map ob_id (os_records st) = [''OBS-002'']
                 \<and> ob_id (snd (observation_add st sample_observation None ''run-1'')) = ''OBS-002''
             | Inl _ \<Rightarrow> False))"
  by code_simp

end
