(* ===== verification/Executor.thy ===== *)
theory Executor
  imports TouchSet Observation PlanValidate
begin

text \<open>
  One execution of a task, \<^verbatim>\<open>packages/executor/src/execute.ts\<close>: the provider is asked, its answer is
  held to the declared write scope, to physical containment and to the submission guard, staged,
  asked again within a bound when the staging or the guard refuses, written, and its declared
  commands run. The provider, the status of git and the file listing are parameters; a thrown
  error is a value, and \<open>None\<close> is an anchor count that never ends. Texts are bytes of UTF-8.
\<close>

section \<open>Answers, requests and outcomes\<close>

datatype executor_status = XCompleted | XFailed | XBlocked | XNeedsReplan

record executor_result =
  xr_status :: executor_status
  xr_summary :: string
  xr_changes :: "change list"
  xr_commands :: "declared_command list option"
  xr_observations :: "observation_draft list"
  xr_candidates :: "(string \<times> string) list"
  xr_followups :: "followup_draft list"
  xr_failure :: "(string option \<times> string) option"
  xr_replan_reason :: "string option"

record exec_request =
  xq_key :: string
  xq_request_id :: string
  xq_previous_rejection :: "string option"
  xq_note :: "string option"

record exec_env =
  xe_runner :: runner
  xe_provider :: "exec_request \<Rightarrow> checkout \<Rightarrow> (task_failure, executor_result) result \<times> checkout"
  xe_uuid :: "nat \<Rightarrow> string"
  xe_status :: "checkout \<Rightarrow> (task_failure, string list) result"
  xe_list :: "string list \<Rightarrow> nat \<Rightarrow> checkout \<Rightarrow> string list"
  xe_lstat :: "checkout \<Rightarrow> lstat"
  xe_root :: "string list"

record exec_input =
  xi_task :: task
  xi_revision :: string
  xi_attempt :: int
  xi_prior_rejections :: nat
  xi_attribution :: "attribution_write list"
  xi_store_exists :: "bool option"
  xi_prior_work :: "bool option"
  xi_commands_configured :: bool

record task_outcome =
  eo_task_id :: string
  eo_status :: executor_status
  eo_summary :: string
  eo_result :: executor_result
  eo_applied :: "(string \<times> string) list"
  eo_commands :: "(string \<times> int option) list option"
  eo_attribution :: "attribution_write list"
  eo_failure :: "task_failure option"

text \<open>What the dependencies are told, in order: usage, staging rejections, submission refusals.\<close>

datatype notice =
    Used string "string option"
  | StageRejected string string
  | SubmissionRefused string string "string list"

section \<open>Texts\<close>

definition ellipsis :: string where "ellipsis = [CHR 0xE2, CHR 0x80, CHR 0xA6]"

definition truncate_text :: "string \<Rightarrow> string" where
  "truncate_text s = (if length s \<le> 60 then s else take 60 s @ ellipsis)"

fun stage_code :: "stage_error \<Rightarrow> string" where
  "stage_code (PatchBaseMissing _) = ''PATCH_BASE_MISSING''"
| "stage_code (PatchBaseMismatch _ _ _) = ''PATCH_BASE_MISMATCH''"
| "stage_code (PatchAnchorAbsent _ _) = ''PATCH_ANCHOR_ABSENT''"
| "stage_code (PatchAnchorNotUnique _ _ _) = ''PATCH_ANCHOR_NOT_UNIQUE''"

definition compose_hint :: string where
  "compose_hint = ''compose multi-op chains in one invocation with spc patch build --batch <spec.json>, or a single follow-up with spc patch build --after <ops.json>''"

fun stage_message :: "stage_error \<Rightarrow> string" where
  "stage_message (PatchBaseMissing p) =
     ''PATCH_BASE_MISSING: '' @ p @ '' does not exist; a patch op needs an existing base''"
| "stage_message (PatchBaseMismatch p actual declared) =
     ''PATCH_BASE_MISMATCH: '' @ p @ '' content digests to '' @ actual @ '', but the op declared '' @ declared
       @ ''; the file changed since it was read - re-read and restate, nothing was applied - '' @ compose_hint"
| "stage_message (PatchAnchorAbsent p anchor) =
     ''PATCH_ANCHOR_ABSENT: '' @ p @ '' does not contain the anchor \"'' @ truncate_text anchor
       @ ''\" exactly; anchors match raw bytes with no normalization''"
| "stage_message (PatchAnchorNotUnique p anchor n) =
     ''PATCH_ANCHOR_NOT_UNIQUE: anchor \"'' @ truncate_text anchor @ ''\" occurs '' @ show_nat n @ '' times in '' @ p
       @ ''; anchor on a longer unique span instead - '' @ compose_hint"

fun violation_text :: "violation_code \<Rightarrow> string" where
  "violation_text OutOfScopeWrite = ''OUT_OF_SCOPE_WRITE''"
| "violation_text UnsafePath = ''UNSAFE_PATH''"
| "violation_text ProtectedPathWrite = ''PROTECTED_PATH_WRITE''"

definition in_quotes :: "string \<Rightarrow> string" where "in_quotes s = ''\"'' @ s @ ''\"''"

definition violation_reason :: "string list \<Rightarrow> scope_violation \<Rightarrow> string" where
  "violation_reason patterns v =
     (case sv_code v of
        UnsafePath \<Rightarrow> in_quotes (sv_path v) @ '' is not a safe relative path''
      | OutOfScopeWrite \<Rightarrow>
          if patterns = [] then ''task declares no write targets but changed '' @ in_quotes (sv_path v)
          else in_quotes (sv_path v) @ '' does not match any declared write target''
      | ProtectedPathWrite \<Rightarrow>
          in_quotes (sv_path v) @ '' is a protected verification asset (verification.protectedPaths); no task may change it. Change it deliberately outside a run, as a human edit'')"

definition violation_failure :: "string list \<Rightarrow> scope_violation \<Rightarrow> task_failure" where
  "violation_failure patterns v =
     \<lparr>failure_code = violation_text (sv_code v),
      failure_message = violation_text (sv_code v) @ '': '' @ violation_reason patterns v\<rparr>"

fun guard_text :: "guard_code \<Rightarrow> string" where
  "guard_text UnmediatedChanges = ''UNMEDIATED_CHANGES''"
| "guard_text GuardVersionSkew = ''GUARD_VERSION_SKEW''"

definition recovery :: string where
  "recovery = ''revert the unattributed changes and propose them as patch operations (multi-op chains compose in one invocation: spc patch build --batch <spec.json>; a single follow-up chains with spc patch build --after <ops.json>; then spc patch verify, spc agent dry-run, spc agent submit)''"

definition comma :: "string list \<Rightarrow> string" where "comma ps = join_with '', '' ps"

text \<open>The message of a refusal; a moved commit is told by the guard's own test.\<close>

definition guard_message :: "submission \<Rightarrow> guard_code \<Rightarrow> string list \<Rightarrow> string" where
  "guard_message s code ps =
     (if committed_bypass s \<noteq> None then
        ''HEAD '' @ take 12 (trim (case sb_head s of Some h \<Rightarrow> h | None \<Rightarrow> [])) @ '' diverged from the dispatch baseline ''
          @ take 12 (sb_baseline s) @ '' - committed edits are unmediated changes''
          @ (if ps \<noteq> [] then '' (non-protected paths: '' @ comma ps @ '')'' else []) @ ''; '' @ recovery
      else
        (case code of
           GuardVersionSkew \<Rightarrow> ''GUARD_VERSION_SKEW: '' @ comma ps
             @ '' is dirty under the task's write targets while the run recorded prior work but has no attribution store - a run binary that predates attribution recording; the dirt is likely its own unrecorded mediated work - restart the run on the current binary.''
         | UnmediatedChanges \<Rightarrow> ''unmediated changes under the task's write targets: '' @ comma ps @ '' - '' @ recovery))"

section \<open>Before the first request\<close>

definition task_write_targets :: "task \<Rightarrow> string list" where
  "task_write_targets t = (case task_targets t of None \<Rightarrow> [] | Some g \<Rightarrow> opt_list (targets_write g))"

text \<open>HEAD as this execution begins, or the snapshot's revision.\<close>

definition dispatch_baseline :: "exec_input \<Rightarrow> checkout \<Rightarrow> string" where
  "dispatch_baseline i w =
     (case co_head w of
        Some h \<Rightarrow> if trim h \<noteq> [] then trim h else xi_revision i
      | None \<Rightarrow> xi_revision i)"

text \<open>The note is computed once, when no answer has been rejected yet.\<close>

definition work_present :: string where
  "work_present = ''the tree already contains uncommitted work from a prior answer of this task - verify what is present before rebuilding; a no-changes completion is honest when the work is done''"

definition work_present_note :: "exec_env \<Rightarrow> exec_input \<Rightarrow> checkout \<Rightarrow> (task_failure, string option) result" where
  "work_present_note env i w =
     (if 1 < xi_attempt i then
        bind_result (xe_status env w) (\<lambda>dirty. Inr
          (if dirty \<noteq> [] \<and> task_write_targets (xi_task i) \<noteq> [] \<and> list_ex (glob_match_any (task_write_targets (xi_task i))) dirty
           then Some work_present else None))
      else Inr None)"

section \<open>One answer\<close>

definition refused_outcome :: "task \<Rightarrow> executor_result \<Rightarrow> string \<Rightarrow> task_failure \<Rightarrow> task_outcome" where
  "refused_outcome t r summary failure =
     \<lparr>eo_task_id = task_id t, eo_status = XFailed, eo_summary = summary, eo_result = r, eo_applied = [],
      eo_commands = None, eo_attribution = [], eo_failure = Some failure\<rparr>"

definition sha_of :: "exec_env \<Rightarrow> string \<Rightarrow> string" where "sha_of env = rn_sha (xe_runner env)"

text \<open>What the guard is given: no protected pattern is threaded from here.\<close>

definition submission_of :: "exec_env \<Rightarrow> exec_input \<Rightarrow> string \<Rightarrow> checkout \<Rightarrow> submission" where
  "submission_of env i baseline w =
     \<lparr>sb_head = co_head w, sb_delta = None,
      sb_dirty = (case xe_status env w of Inl _ \<Rightarrow> None | Inr dirty \<Rightarrow> Some dirty),
      sb_read = co_files w, sb_baseline = baseline, sb_write_targets = task_write_targets (xi_task i),
      sb_attribution = xi_attribution i, sb_store_exists = xi_store_exists i, sb_prior_work = xi_prior_work i,
      sb_protected = []\<rparr>"

datatype verdict =
    Final string task_failure
  | RefusedSubmission string string "string list"
  | RefusedStage string string
  | Accepted staged

definition eligible_stage_codes :: "string list" where
  "eligible_stage_codes = [''PATCH_BASE_MISSING'', ''PATCH_BASE_MISMATCH'', ''PATCH_ANCHOR_ABSENT'', ''PATCH_ANCHOR_NOT_UNIQUE'']"

definition physically_safe :: "exec_env \<Rightarrow> checkout \<Rightarrow> change \<Rightarrow> bool" where
  "physically_safe env w c \<longleftrightarrow> is_safe_relative_path (change_path c)
     \<and> is_physically_contained (xe_lstat env w) (xe_root env) (change_path c)"

definition judge_answer :: "exec_env \<Rightarrow> exec_input \<Rightarrow> string \<Rightarrow> executor_result \<Rightarrow> checkout \<Rightarrow> verdict option" where
  "judge_answer env i baseline r w =
     (let patterns = task_write_targets (xi_task i) in
      case enforce_write_scope patterns (map change_path (xr_changes r)) of
        v # _ \<Rightarrow> Some (Final ''proposed changes violate the declared write scope'' (violation_failure patterns v))
      | [] \<Rightarrow>
          (case List.find (\<lambda>c. \<not> physically_safe env w c) (xr_changes r) of
             Some c \<Rightarrow> Some (Final ''proposed an unsafe path''
               \<lparr>failure_code = ''UNSAFE_PATH'', failure_message = ''UNSAFE_PATH: '' @ change_path c\<rparr>)
           | None \<Rightarrow>
               (let s = submission_of env i baseline w in
                case evaluate_submission (sha_of env) s of
                  Refuse code ps \<Rightarrow> Some (RefusedSubmission (guard_text code) (guard_message s code ps) ps)
                | Allow \<Rightarrow>
                    map_option (\<lambda>staged. case staged of
                        Inr st \<Rightarrow> Accepted st
                      | Inl e \<Rightarrow>
                          if stage_code e \<notin> set eligible_stage_codes
                          then Final (''change set refused: '' @ stage_code e)
                                 \<lparr>failure_code = stage_code e, failure_message = stage_message e\<rparr>
                          else RefusedStage (stage_code e) (stage_message e))
                      (stage_changes (sha_of env) (co_files w) (xr_changes r)))))"

section \<open>The rounds\<close>

definition stage_round_bound :: nat where "stage_round_bound = 3"

datatype answered =
    Refused task_outcome
  | Staged executor_result staged

definition request_of :: "exec_env \<Rightarrow> exec_input \<Rightarrow> string option \<Rightarrow> nat \<Rightarrow> string option \<Rightarrow> exec_request" where
  "request_of env i note n rejection =
     \<lparr>xq_key = task_id (xi_task i) @ ''@'' @ show_int (xi_attempt i), xq_request_id = xe_uuid env n,
      xq_previous_rejection = rejection, xq_note = note\<rparr>"

definition rounds_exhausted :: "task \<Rightarrow> executor_result \<Rightarrow> string \<Rightarrow> string \<Rightarrow> string \<Rightarrow> string \<Rightarrow> answered" where
  "rounds_exhausted t r what code rounds message =
     Refused (refused_outcome t r (what @ '' refused: '' @ code @ '' ('' @ rounds @ '' exhausted)'')
       \<lparr>failure_code = code, failure_message = message\<rparr>)"

text \<open>
  The loop, with the staging rejections, the submission refusals and the last refusal. The
  result is \<open>None\<close> when an anchor count does not return.
\<close>

function dispatch_rounds ::
  "exec_env \<Rightarrow> exec_input \<Rightarrow> string \<Rightarrow> string option \<Rightarrow> nat \<Rightarrow> nat \<Rightarrow> string option \<Rightarrow> checkout
     \<Rightarrow> ((task_failure, answered) result \<times> notice list \<times> checkout) option" where
  "dispatch_rounds env i baseline note stages refusals rejection w =
     (let request = request_of env i note (stages + refusals) rejection;
          used = (\<lambda>code. Used (xq_request_id request) code)
      in case xe_provider env request w of
           (Inl e, w1) \<Rightarrow> Some (Inl e, [used (Some (failure_code e))], w1)
         | (Inr r, w1) \<Rightarrow>
             (case judge_answer env i baseline r w1 of
                None \<Rightarrow> None
              | Some (Final summary failure) \<Rightarrow>
                  Some (Inr (Refused (refused_outcome (xi_task i) r summary failure)), [used None], w1)
              | Some (RefusedSubmission code message ps) \<Rightarrow>
                  if stage_round_bound < xi_prior_rejections i + stages + (refusals + 1) then
                    Some (Inr (rounds_exhausted (xi_task i) r ''submission'' code ''rounds'' message),
                          [used None, SubmissionRefused code message ps], w1)
                  else map_option (\<lambda>(x, ns, w2). (x, used None # SubmissionRefused code message ps # ns, w2))
                         (dispatch_rounds env i baseline note stages (refusals + 1) (Some message) w1)
              | Some (RefusedStage code message) \<Rightarrow>
                  if stage_round_bound < xi_prior_rejections i + (stages + 1) then
                    Some (Inr (rounds_exhausted (xi_task i) r ''change set'' code ''staging rounds'' message),
                          [used None, StageRejected code message], w1)
                  else map_option (\<lambda>(x, ns, w2). (x, used None # StageRejected code message # ns, w2))
                         (dispatch_rounds env i baseline note (stages + 1) refusals (Some message) w1)
              | Some (Accepted st) \<Rightarrow> Some (Inr (Staged r st), [used None], w1)))"
  by pat_completeness auto

termination
  by (relation "measure (\<lambda>(env, i, baseline, note, stages, refusals, rejection, w). (4 - stages) + (4 - refusals))")
     (auto simp: stage_round_bound_def)

declare dispatch_rounds.simps [simp del]

section \<open>After the answer is accepted\<close>

fun label_text :: "write_label \<Rightarrow> string" where
  "label_text Created = ''created''" | "label_text Modified = ''modified''" | "label_text Patched = ''patched''"

definition write_staged :: "staged \<Rightarrow> checkout \<Rightarrow> checkout" where
  "write_staged st w =
     w\<lparr>co_files := fold (\<lambda>p files. files(p := None)) (staged_deletes st)
         (fold (\<lambda>x files. files(sw_path x \<mapsto> sw_content x)) (staged_writes st) (co_files w))\<rparr>"

definition applied_changes :: "staged \<Rightarrow> (string \<times> string) list" where
  "applied_changes st =
     map (\<lambda>x. (sw_path x, label_text (sw_label x))) (staged_writes st)
     @ map (\<lambda>p. (p, ''deleted'')) (staged_deletes st)"

definition applied_attribution :: "exec_env \<Rightarrow> staged \<Rightarrow> attribution_write list" where
  "applied_attribution env st =
     map (\<lambda>x. \<lparr>aw_path = sw_path x, aw_digest = file_digest (sha_of env) (sw_content x), aw_kind = AppliedWrite\<rparr>)
       (staged_writes st)"

text \<open>The declared outputs: every readable match of a touch-set pattern that was not itself applied.\<close>

definition declared_attribution :: "exec_env \<Rightarrow> attribution_write list \<Rightarrow> declared_command list \<Rightarrow> checkout \<Rightarrow> attribution_write list" where
  "declared_attribution env applied cs w =
     concat (map (\<lambda>c. concat (map (\<lambda>pattern.
         List.map_filter (\<lambda>p.
             if p \<in> set (map aw_path applied) then None
             else map_option (\<lambda>content. \<lparr>aw_path = p, aw_digest = file_digest (sha_of env) content, aw_kind = DeclaredWrite\<rparr>)
                    (co_files w p))
           (xe_list env [pattern] 32 w)) (touch_list c))) cs)"

fun refusal_code :: "command_refusal \<Rightarrow> string" where
  "refusal_code (CommandDenied _ _) = ''COMMAND_DENIED''"
| "refusal_code (TouchSetViolation _ _ _) = ''TOUCH_SET_VIOLATION''"
| "refusal_code (CommandFailed _ _ _ _) = ''COMMAND_FAILED''"

fun refusal_message :: "command_refusal \<Rightarrow> string" where
  "refusal_message (CommandDenied c why) = ''COMMAND_DENIED: '' @ in_quotes c @ '' was not executed - '' @ why"
| "refusal_message (TouchSetViolation c declared ps) =
     (if declared
      then ''TOUCH_SET_VIOLATION: '' @ in_quotes c @ '' wrote outside its declared touch-set: '' @ comma ps @ ''; writes reverted''
      else ''TOUCH_SET_VIOLATION: '' @ in_quotes c @ '' wrote ['' @ comma ps
             @ ''] without declaring a touch-set; writes reverted. Declare the paths this command will touch, or keep it read-only'')"
| "refusal_message (CommandFailed c code timed_out stderr) =
     ''COMMAND_FAILED: '' @ in_quotes c @ '' exited ''
       @ (case code of None \<Rightarrow> ''without an exit code'' | Some n \<Rightarrow> show_int n)
       @ (if timed_out then '' (timed out)'' else []) @ (if stderr \<noteq> [] then '': '' @ take 500 stderr else [])"

definition finish_failed :: "task \<Rightarrow> executor_result \<Rightarrow> staged \<Rightarrow> attribution_write list \<Rightarrow> string \<Rightarrow> task_failure \<Rightarrow> task_outcome" where
  "finish_failed t r st attribution summary failure =
     (refused_outcome t r summary failure)\<lparr>eo_applied := applied_changes st, eo_attribution := attribution\<rparr>"

definition result_failure :: "executor_result \<Rightarrow> task_failure option" where
  "result_failure r =
     map_option (\<lambda>(code, message).
         \<lparr>failure_code = (case code of None \<Rightarrow> ''TASK_FAILED'' | Some c \<Rightarrow> c), failure_message = message\<rparr>) (xr_failure r)"

text \<open>Writing the staged set and running the declared commands.\<close>

definition apply_answer :: "exec_env \<Rightarrow> exec_input \<Rightarrow> executor_result \<Rightarrow> staged \<Rightarrow> checkout \<Rightarrow> task_outcome \<times> checkout" where
  "apply_answer env i r st w =
     (let w1 = write_staged st w;
          applied = applied_attribution env st;
          cs = opt_list (xr_commands r);
          answer = \<lparr>eo_task_id = task_id (xi_task i), eo_status = xr_status r, eo_summary = xr_summary r, eo_result = r,
                    eo_applied = applied_changes st, eo_commands = None, eo_attribution = applied,
                    eo_failure = result_failure r\<rparr>
      in if cs = [] then (answer, w1)
         else if \<not> xi_commands_configured i then
           (finish_failed (xi_task i) r st applied ''commands proposed but no command policy configured for this run''
              \<lparr>failure_code = ''COMMAND_UNCONFIGURED'',
               failure_message = ''result.commands is non-empty but ExecuteTaskInput.commands is absent; the runtime must always pass the configured command policy''\<rparr>, w1)
         else
           (case run_declared_commands (xe_runner env) cs w1 of
              (Inl refusal, w2) \<Rightarrow>
                (finish_failed (xi_task i) r st applied (''command set refused: '' @ refusal_code refusal)
                   \<lparr>failure_code = refusal_code refusal, failure_message = refusal_message refusal\<rparr>, w2)
            | (Inr (runs, untouched), w2) \<Rightarrow>
                (answer\<lparr>eo_commands := Some (map (\<lambda>run. (cr_command run, cr_exit_code run)) runs),
                        eo_attribution := applied @ declared_attribution env applied cs w2,
                        eo_summary := xr_summary r @ (if untouched \<noteq> [] then '' (declared but unchanged: '' @ comma untouched @ '')'' else [])\<rparr>,
                 w2)))"

text \<open>\<open>executeTask\<close>: an outcome or a thrown error, what was notified, and the checkout left behind.\<close>

definition execute_task ::
  "exec_env \<Rightarrow> exec_input \<Rightarrow> checkout \<Rightarrow> ((task_failure, task_outcome) result \<times> notice list \<times> checkout) option" where
  "execute_task env i w =
     (case work_present_note env i w of
        Inl e \<Rightarrow> Some (Inl e, [], w)
      | Inr note \<Rightarrow>
          map_option (\<lambda>(answer, notices, w1).
              case answer of
                Inl e \<Rightarrow> (Inl e, notices, w1)
              | Inr (Refused out) \<Rightarrow> (Inr out, notices, w1)
              | Inr (Staged r st) \<Rightarrow> (case apply_answer env i r st w1 of (out, w2) \<Rightarrow> (Inr out, notices, w2)))
            (dispatch_rounds env i (dispatch_baseline i w) note 0 0 None w))"

text \<open>The staging rejections an event log records for a task attempt.\<close>

definition payload_names :: "event \<Rightarrow> string \<Rightarrow> bool" where
  "payload_names e tid \<longleftrightarrow> map_of (e_payload e) ''taskId'' = Some (JString tid)"

definition staging_rounds_from :: "event list \<Rightarrow> string \<Rightarrow> int \<Rightarrow> nat" where
  "staging_rounds_from es tid attempt =
     length (filter (\<lambda>e. e_type e = TASK_STAGE_REJECTED \<and> payload_names e tid
         \<and> map_of (e_payload e) ''attempt'' = Some (JNum attempt)) es)"


section \<open>Dispatches\<close>

text \<open>A dispatch is recorded by its usage, and only a recorded refusal is followed by another.\<close>

fun is_used :: "notice \<Rightarrow> bool" where
  "is_used (Used _ _) = True" | "is_used _ = False"

definition dispatches :: "notice list \<Rightarrow> nat" where
  "dispatches ns = length (filter is_used ns)"

fun refusals_recorded :: "notice list \<Rightarrow> bool" where
  "refusals_recorded [] = True"
| "refusals_recorded [n] = is_used n"
| "refusals_recorded (n # m # ns) = (is_used n \<and> \<not> is_used m \<and> refusals_recorded ns)"

lemma dispatches_simps [simp]:
  "dispatches [] = 0" "dispatches (Used a b # ns) = Suc (dispatches ns)"
  "dispatches (StageRejected c m # ns) = dispatches ns" "dispatches (SubmissionRefused c m ps # ns) = dispatches ns"
  by (simp_all add: dispatches_def)

text \<open>
  The rounds as a relation: how a loop that returned came to its answer. The rules are the ends
  of the loop and its two continuations, each under the bound it is guarded by.
\<close>

inductive rounds ::
  "exec_env \<Rightarrow> exec_input \<Rightarrow> string \<Rightarrow> nat \<Rightarrow> nat \<Rightarrow> checkout \<Rightarrow> (task_failure, answered) result \<Rightarrow> notice list \<Rightarrow> checkout \<Rightarrow> bool"
  for env i baseline where
  thrown: "xe_provider env q w = (Inl e, w1) \<Longrightarrow> rounds env i baseline s r w (Inl e) [Used u c] w1"
| refused: "xe_provider env q w = (Inr x, w1) \<Longrightarrow> ns = [Used u c] \<or> (\<exists>n. ns = [Used u c, n] \<and> \<not> is_used n) \<Longrightarrow>
    rounds env i baseline s r w (Inr (Refused (refused_outcome (xi_task i) x summary failure))) ns w1"
| accepted: "xe_provider env q w = (Inr x, w1) \<Longrightarrow> judge_answer env i baseline x w1 = Some (Accepted st) \<Longrightarrow>
    rounds env i baseline s r w (Inr (Staged x st)) [Used u c] w1"
| submission_again: "xe_provider env q w = (Inr x, w1) \<Longrightarrow> xi_prior_rejections i + s + (r + 1) \<le> stage_round_bound \<Longrightarrow>
    rounds env i baseline s (r + 1) w1 y ns w2 \<Longrightarrow>
    rounds env i baseline s r w y (Used u c # SubmissionRefused code message ps # ns) w2"
| stage_again: "xe_provider env q w = (Inr x, w1) \<Longrightarrow> xi_prior_rejections i + (s + 1) \<le> stage_round_bound \<Longrightarrow>
    rounds env i baseline (s + 1) r w1 y ns w2 \<Longrightarrow>
    rounds env i baseline s r w y (Used u c # StageRejected code message # ns) w2"

lemma dispatch_rounds_related:
  "dispatch_rounds env i baseline hint s r rejection w = Some (y, ns, w') \<Longrightarrow> rounds env i baseline s r w y ns w'"
proof (induction env i baseline hint s r rejection w arbitrary: ns rule: dispatch_rounds.induct)
  case (1 env i baseline hint s r rejection w)
  obtain x w1 where x: "xe_provider env (request_of env i hint (s + r) rejection) w = (x, w1)" by force
  note prem = "1.prems" [unfolded dispatch_rounds.simps [of env i baseline hint s r rejection w] Let_def x prod.case]
  show ?case
  proof (cases x)
    case (Inl e)
    with prem x show ?thesis by (auto intro: rounds.thrown)
  next
    case (Inr a)
    note x' = x [unfolded Inr]
    obtain v where v: "judge_answer env i baseline a w1 = Some v"
      using prem [unfolded Inr sum.case] by (cases "judge_answer env i baseline a w1") auto
    note prem' = prem [unfolded Inr sum.case v option.case]
    show ?thesis
    proof (cases v)
      case (RefusedSubmission code message ps)
      show ?thesis
      proof (cases "stage_round_bound < xi_prior_rejections i + s + (r + 1)")
        case True
        with prem' RefusedSubmission have stop: "y = Inr (rounds_exhausted (xi_task i) a ''submission'' code ''rounds'' message)" "w' = w1"
          "ns = [Used (xq_request_id (request_of env i hint (s + r) rejection)) None, SubmissionRefused code message ps]"
          by simp_all
        show ?thesis unfolding stop rounds_exhausted_def by (rule rounds.refused [OF x']) simp
      next
        case False
        with prem' RefusedSubmission obtain ms where
          again: "dispatch_rounds env i baseline hint s (r + 1) (Some message) w1 = Some (y, ms, w')"
          and ns: "ns = Used (xq_request_id (request_of env i hint (s + r) rejection)) None # SubmissionRefused code message ps # ms"
          by auto
        from "1.IH"(1) [OF refl refl x [symmetric] Inr v RefusedSubmission False again]
        show ?thesis using False unfolding ns by (intro rounds.submission_again [OF x']) auto
      qed
    next
      case (RefusedStage code message)
      show ?thesis
      proof (cases "stage_round_bound < xi_prior_rejections i + (s + 1)")
        case True
        with prem' RefusedStage have stop: "y = Inr (rounds_exhausted (xi_task i) a ''change set'' code ''staging rounds'' message)" "w' = w1"
          "ns = [Used (xq_request_id (request_of env i hint (s + r) rejection)) None, StageRejected code message]"
          by simp_all
        show ?thesis unfolding stop rounds_exhausted_def by (rule rounds.refused [OF x']) simp
      next
        case False
        with prem' RefusedStage obtain ms where
          again: "dispatch_rounds env i baseline hint (s + 1) r (Some message) w1 = Some (y, ms, w')"
          and ns: "ns = Used (xq_request_id (request_of env i hint (s + r) rejection)) None # StageRejected code message # ms"
          by auto
        from "1.IH"(2) [OF refl refl x [symmetric] Inr v RefusedStage False again]
        show ?thesis using False unfolding ns by (intro rounds.stage_again [OF x']) auto
      qed
    next
      case (Final summary failure)
      with prem' have stop: "y = Inr (Refused (refused_outcome (xi_task i) a summary failure))" "w' = w1"
        "ns = [Used (xq_request_id (request_of env i hint (s + r) rejection)) None]" by simp_all
      show ?thesis unfolding stop by (rule rounds.refused [OF x']) simp
    next
      case (Accepted st)
      with prem' have stop: "y = Inr (Staged a st)" "w' = w1"
        "ns = [Used (xq_request_id (request_of env i hint (s + r) rejection)) None]" by simp_all
      show ?thesis unfolding stop by (rule rounds.accepted [OF x' v [unfolded Accepted]])
    qed
  qed
qed

lemma rounds_bound:
  "rounds env i baseline s r w y ns w' \<Longrightarrow>
     refusals_recorded ns
     \<and> dispatches ns \<le> 1 + (3 - (xi_prior_rejections i + s)) + (3 - (xi_prior_rejections i + s + r))"
proof (induction rule: rounds.induct)
  case (refused q w x w1 ns u c s r summary failure)
  then show ?case by (auto simp: dispatches_def)
qed (auto simp: stage_round_bound_def)

lemma execute_task_Some:
  assumes "execute_task env i w = Some (x, ns, w')"
  shows "(\<exists>e. x = Inl e \<and> ns = [] \<and> w' = w)
    \<or> (\<exists>hint y w1. dispatch_rounds env i (dispatch_baseline i w) hint 0 0 None w = Some (y, ns, w1)
         \<and> (case y of
              Inl e \<Rightarrow> x = Inl e \<and> w' = w1
            | Inr (Refused out) \<Rightarrow> x = Inr out \<and> w' = w1
            | Inr (Staged r st) \<Rightarrow> \<exists>out. apply_answer env i r st w1 = (out, w') \<and> x = Inr out))"
proof (cases "work_present_note env i w")
  case (Inl e)
  with assms show ?thesis by (auto simp: execute_task_def)
next
  case (Inr hint)
  let ?rounds = "dispatch_rounds env i (dispatch_baseline i w) hint 0 0 None w"
  note e = assms [unfolded execute_task_def Inr sum.case]
  obtain y ms w1 where rounds: "?rounds = Some (y, ms, w1)" using e by (cases ?rounds) auto
  note e' = e [unfolded rounds option.map prod.case]
  show ?thesis
  proof (cases y)
    case (Inl f)
    with e' rounds show ?thesis by fastforce
  next
    case y: (Inr answer)
    obtain out w2 where "(case answer of Refused o' \<Rightarrow> (o', w1) | Staged r st \<Rightarrow> apply_answer env i r st w1) = (out, w2)"
      by (rule prod.exhaust)
    with e' y have "x = Inr out" "ms = ns" "w' = w2"
      and "case answer of Refused o' \<Rightarrow> out = o' \<and> w2 = w1 | Staged r st \<Rightarrow> apply_answer env i r st w1 = (out, w2)"
      by (cases answer; simp)+
    with rounds y show ?thesis
      by (intro disjI2 exI [of _ hint] exI [of _ y] exI [of _ w1]) (cases answer; simp)
  qed
qed

lemma execute_dispatches:
  assumes "execute_task env i w = Some (x, ns, w')"
  shows "dispatches ns \<le> 7 - 2 * min 3 (xi_prior_rejections i) \<and> refusals_recorded ns"
  using execute_task_Some [OF assms]
proof (elim disjE exE conjE)
  fix hint y w1
  assume "dispatch_rounds env i (dispatch_baseline i w) hint 0 0 None w = Some (y, ns, w1)"
  from rounds_bound [OF dispatch_rounds_related [OF this]] show ?thesis by auto
qed simp

text \<open>
  C14: an execution asks the provider at most seven times, once when the rounds recorded for the
  attempt are used up, and each further request follows the record of the refusal that caused
  it.
\<close>
theorem dispatch_bound:
  assumes "execute_task env i w = Some (x, ns, w')"
  shows "dispatches ns \<le> 7 - 2 * min 3 (xi_prior_rejections i) \<and> refusals_recorded ns"
  using assms by (rule execute_dispatches)

section \<open>What an accepted answer was held to\<close>

text \<open>The checkouts a sequence of provider requests can leave.\<close>

inductive asked :: "exec_env \<Rightarrow> checkout \<Rightarrow> checkout \<Rightarrow> bool" for env where
  not_asked: "asked env w w"
| asked_again: "asked env (snd (xe_provider env q w)) w' \<Longrightarrow> asked env w w'"

lemma stage_change_paths:
  assumes "stage_change sha wt st c = Some (Inr st')"
  shows "fst ` set (overlay st') \<union> set (deletes st') \<subseteq> insert (change_path c) (fst ` set (overlay st) \<union> set (deletes st))"
proof -
  have keys: "fst ` set (map_set p v m) = insert p (fst ` set m)" for p :: string and v :: string and m
    using arg_cong [OF map_set_keys [of p v m], where f = set] by auto
  have less: "fst ` set (map_delete p m) \<subseteq> fst ` set m" for p :: string and m :: "(string \<times> string) list"
    by (auto simp: map_delete_def)
  have "(\<exists>content. overlay st' = map_set (change_path c) content (overlay st) \<and> deletes st' = set_delete (change_path c) (deletes st))
      \<or> overlay st' = map_delete (change_path c) (overlay st) \<and> deletes st' = set_add (change_path c) (deletes st)"
  proof (cases c)
    case (PatchFile p d a r)
    show ?thesis using assms unfolding stage_change_def PatchFile change.case Let_def
      by (auto split: option.split_asm if_split_asm)
  qed (use assms in \<open>auto simp: stage_change_def\<close>)
  then show ?thesis
  proof (elim disjE exE conjE)
    fix content
    assume o: "overlay st' = map_set (change_path c) content (overlay st)" and d: "deletes st' = set_delete (change_path c) (deletes st)"
    show ?thesis unfolding o keys d by (auto simp: image_iff)
  next
    assume o: "overlay st' = map_delete (change_path c) (overlay st)" and d: "deletes st' = set_add (change_path c) (deletes st)"
    show ?thesis unfolding o d using less [of "change_path c" "overlay st"] by auto
  qed
qed

lemma stage_all_paths:
  "stage_all sha wt st cs = Some (Inr st') \<Longrightarrow>
     fst ` set (overlay st') \<union> set (deletes st') \<subseteq> change_path ` set cs \<union> (fst ` set (overlay st) \<union> set (deletes st))"
proof (induction cs arbitrary: st)
  case (Cons c cs)
  then obtain st1 where one: "stage_change sha wt st c = Some (Inr st1)" and rest: "stage_all sha wt st1 cs = Some (Inr st')"
    by (auto split: option.splits sum.splits)
  have "A \<subseteq> B \<union> C \<Longrightarrow> C \<subseteq> insert d E \<Longrightarrow> A \<subseteq> insert d B \<union> E" for A B C E :: "string set" and d by blast
  from this [OF Cons.IH [OF rest] stage_change_paths [OF one]] show ?case by simp
qed simp

lemma applied_paths: "fst ` set (applied_changes st) = sw_path ` set (staged_writes st) \<union> set (staged_deletes st)"
  by (simp add: applied_changes_def image_Un image_image)

lemma staged_paths:
  assumes "stage_changes sha wt cs = Some (Inr st)"
  shows "fst ` set (applied_changes st) \<subseteq> change_path ` set cs"
proof -
  from assms obtain s where s: "stage_all sha wt empty_stage cs = Some (Inr s)"
    and st: "staged_writes st = map (\<lambda>(p, content).
          \<lparr>sw_path = p, sw_content = content,
           sw_label = (case map_of (labels s) p of Some l \<Rightarrow> l | None \<Rightarrow> Modified)\<rparr>) (overlay s)" "staged_deletes st = deletes s"
    by (auto simp: stage_changes_def result_iff)
  have "fst ` set (applied_changes st) = fst ` set (overlay s) \<union> set (deletes s)"
    by (simp add: applied_paths st image_image case_prod_unfold)
  with stage_all_paths [OF s] show ?thesis by (simp add: empty_stage_def)
qed

lemma write_staged_frame:
  assumes "p \<notin> fst ` set (applied_changes st)"
  shows "co_files (write_staged st w) p = co_files w p"
proof -
  have d: "p \<notin> set ds \<Longrightarrow> fold (\<lambda>p files. files(p := None)) ds files p = files p" for ds and files :: "string \<Rightarrow> string option"
    by (induction ds arbitrary: files) auto
  have u: "p \<notin> sw_path ` set xs \<Longrightarrow> fold (\<lambda>x files. files(sw_path x \<mapsto> sw_content x)) xs files p = files p"
    for xs and files :: "string \<Rightarrow> string option"
    by (induction xs arbitrary: files) auto
  have "p \<notin> set (staged_deletes st)" "p \<notin> sw_path ` set (staged_writes st)"
    using assms unfolding applied_paths by blast+
  then show ?thesis by (simp add: write_staged_def d u)
qed

lemma write_staged_written:
  assumes "distinct (map sw_path (staged_writes st) @ staged_deletes st)"
  shows "co_files (write_staged st w) = written (co_files w) st"
proof -
  have d: "fold (\<lambda>p files. files(p := None)) ds files = (\<lambda>p. if p \<in> set ds then None else files p)"
    for ds and files :: "string \<Rightarrow> string option"
    by (induction ds arbitrary: files) (auto simp: fun_eq_iff)
  have u: "distinct (map sw_path xs) \<Longrightarrow> fold (\<lambda>x files. files(sw_path x \<mapsto> sw_content x)) xs files
      = (\<lambda>p. case map_of (map (\<lambda>w. (sw_path w, sw_content w)) xs) p of Some content \<Rightarrow> Some content | None \<Rightarrow> files p)"
    for xs and files :: "string \<Rightarrow> string option"
  proof (induction xs arbitrary: files)
    case (Cons x xs)
    then have "map_of (map (\<lambda>w. (sw_path w, sw_content w)) xs) (sw_path x) = None"
      by (force simp: map_of_eq_None_iff)
    with Cons show ?case by (auto simp: fun_eq_iff split: option.split)
  qed (simp add: fun_eq_iff)
  from assms show ?thesis by (simp add: write_staged_def written_def d u fun_eq_iff)
qed

lemma judge_accepted:
  assumes "judge_answer env i baseline r w = Some (Accepted st)"
  shows "list_all (\<lambda>c. in_scope (task_write_targets (xi_task i)) (change_path c) \<and> physically_safe env w c) (xr_changes r)
    \<and> evaluate_submission (sha_of env) (submission_of env i baseline w) = Allow
    \<and> stage_changes (sha_of env) (co_files w) (xr_changes r) = Some (Inr st)"
proof -
  note judged = assms [unfolded judge_answer_def Let_def]
  have scope: "enforce_write_scope (task_write_targets (xi_task i)) (map change_path (xr_changes r)) = []"
    using judged by (auto split: list.splits)
  have safe: "List.find (\<lambda>c. \<not> physically_safe env w c) (xr_changes r) = None"
    using judged [unfolded scope list.case] by (auto split: option.splits)
  have allow: "evaluate_submission (sha_of env) (submission_of env i baseline w) = Allow"
    using judged [unfolded scope list.case safe option.case] by (auto split: submission_check.splits)
  have "stage_changes (sha_of env) (co_files w) (xr_changes r) = Some (Inr st)"
  proof -
    let ?staged = "stage_changes (sha_of env) (co_files w) (xr_changes r)"
    note j = judged [unfolded scope list.case safe option.case allow submission_check.case]
    obtain res where res: "?staged = Some res" using j by (cases ?staged) simp_all
    show ?thesis
    proof (cases res)
      case (Inl e)
      with j res show ?thesis by (simp split: if_split_asm)
    next
      case (Inr st')
      with j res show ?thesis by simp
    qed
  qed
  moreover have "list_all (in_scope (task_write_targets (xi_task i))) (map change_path (xr_changes r))"
    using scope write_scope_exact by blast
  ultimately show ?thesis using safe allow by (auto simp: list_all_iff find_None_iff)
qed


lemma refused_outcome_simps [simp]:
  "eo_applied (refused_outcome t r s f) = []" "eo_status (refused_outcome t r s f) = XFailed"
  "eo_commands (refused_outcome t r s f) = None" "eo_result (refused_outcome t r s f) = r"
  "eo_failure (refused_outcome t r s f) = Some f" "eo_attribution (refused_outcome t r s f) = []"
  by (simp_all add: refused_outcome_def)

lemma rounds_answer:
  "rounds env i baseline s r w y ns w' \<Longrightarrow>
     asked env w w' \<and>
     (case y of
        Inl e \<Rightarrow> True
      | Inr (Refused out) \<Rightarrow> eo_applied out = [] \<and> eo_status out = XFailed \<and> eo_attribution out = []
      | Inr (Staged x st) \<Rightarrow> judge_answer env i baseline x w' = Some (Accepted st))"
proof (induction rule: rounds.induct)
  case (thrown q w e w1 s r u c)
  then show ?case using asked_again [of env q w w1] not_asked by simp
next
  case (refused q w x w1 ns u c s r summary failure)
  then show ?case using asked_again [of env q w w1] not_asked by simp
next
  case (accepted q w x w1 st s r u c)
  then show ?case using asked_again [of env q w w1] not_asked by simp
next
  case (submission_again q w x w1 s r y ns w2 u c code message ps)
  then show ?case using asked_again [of env q w w2] by simp
next
  case (stage_again q w x w1 s r y ns w2 u c code message)
  then show ?case using asked_again [of env q w w2] by simp
qed

text \<open>
  The abstract account of an execution on the checkout the accepted answer came with: the answer
  was inside the scope and physically contained, the guard allowed it, only its paths changed, to
  what the changes applied one by one give, and the declared commands ran after that.
\<close>

definition mediated :: "exec_env \<Rightarrow> exec_input \<Rightarrow> string \<Rightarrow> checkout \<Rightarrow> task_outcome \<Rightarrow> checkout \<Rightarrow> bool" where
  "mediated env i baseline w1 out w' \<longleftrightarrow>
     (let cs = xr_changes (eo_result out) in
      list_all (\<lambda>c. in_scope (task_write_targets (xi_task i)) (change_path c) \<and> physically_safe env w1 c) cs
      \<and> fst ` set (eo_applied out) \<subseteq> change_path ` set cs
      \<and> evaluate_submission (sha_of env) (submission_of env i baseline w1) = Allow
      \<and> (\<exists>w2. (\<forall>p. p \<notin> fst ` set (eo_applied out) \<longrightarrow> co_files w2 p = co_files w1 p)
           \<and> co_index w2 = co_index w1 \<and> co_head w2 = co_head w1
           \<and> (list_all plain_change cs \<and> \<not> patches_deleted [] cs \<longrightarrow>
                change_trees (sha_of env) (co_files w1) cs = Inr (co_files w2))
           \<and> (w' = w2 \<or> w' = snd (run_declared_commands (xe_runner env) (opt_list (xr_commands (eo_result out))) w2))))"

lemma apply_answer_fields:
  assumes "apply_answer env i r st w = (out, w')"
  shows "eo_result out = r \<and> eo_applied out = applied_changes st
    \<and> (w' = write_staged st w \<or> w' = snd (run_declared_commands (xe_runner env) (opt_list (xr_commands r)) (write_staged st w)))"
  using assms
  by (auto simp: apply_answer_def Let_def finish_failed_def split: if_splits prod.splits sum.splits)

text \<open>
  C31: nothing reaches the checkout but through the gates: an execution either leaves the checkout
  as the provider left it, with nothing applied and the task failed, or its answer was inside the
  write scope, free of symbolic links, allowed by the submission guard, and only the paths of
  its changes were written, with the contents the changes give, before its commands ran.
\<close>
theorem execution_mediated:
  assumes "execute_task env i w = Some (Inr out, ns, w')"
  shows "\<exists>w1. asked env w w1 \<and>
    (w' = w1 \<and> eo_applied out = [] \<and> eo_status out = XFailed
     \<or> mediated env i (dispatch_baseline i w) w1 out w')"
proof -
  from execute_task_Some [OF assms] obtain hint answer w1 where
    rounds: "dispatch_rounds env i (dispatch_baseline i w) hint 0 0 None w = Some (Inr answer, ns, w1)"
    and result: "case answer of Refused o' \<Rightarrow> out = o' \<and> w' = w1 | Staged r st \<Rightarrow> apply_answer env i r st w1 = (out, w')"
  proof (elim disjE exE conjE)
    fix hint y w1
    assume r: "dispatch_rounds env i (dispatch_baseline i w) hint 0 0 None w = Some (y, ns, w1)"
      and c: "case y of Inl e \<Rightarrow> Inr out = Inl e \<and> w' = w1
        | Inr (Refused out') \<Rightarrow> Inr out = (Inr out' :: (task_failure, task_outcome) result) \<and> w' = w1
        | Inr (Staged r st) \<Rightarrow> \<exists>out'. apply_answer env i r st w1 = (out', w') \<and> Inr out = (Inr out' :: (task_failure, task_outcome) result)"
    from c obtain answer where y: "y = Inr answer" by (cases y) simp_all
    from c [unfolded y] have "case answer of Refused o' \<Rightarrow> out = o' \<and> w' = w1 | Staged r st \<Rightarrow> apply_answer env i r st w1 = (out, w')"
      by (cases answer) auto
    with that r y show thesis by blast
  qed simp
  note a = rounds_answer [OF dispatch_rounds_related [OF rounds]]
  show ?thesis
  proof (cases answer)
    case (Refused o')
    with a result show ?thesis by auto
  next
    case (Staged r st)
    with a have judged: "judge_answer env i (dispatch_baseline i w) r w1 = Some (Accepted st)" and "asked env w w1" by auto
    note j = judge_accepted [OF judged]
    from result Staged have f: "eo_result out = r" "eo_applied out = applied_changes st"
      "w' = write_staged st w1 \<or> w' = snd (run_declared_commands (xe_runner env) (opt_list (xr_commands r)) (write_staged st w1))"
      using apply_answer_fields [of env i r st w1 out w'] by auto
    have direct: "change_trees (sha_of env) (co_files w1) (xr_changes r) = Inr (co_files (write_staged st w1))"
      if "list_all plain_change (xr_changes r)" "\<not> patches_deleted [] (xr_changes r)"
      using staging_direct [OF that, of "sha_of env" "co_files w1"] j write_staged_written [of st w1] by simp
    have "mediated env i (dispatch_baseline i w) w1 out w'"
      unfolding mediated_def Let_def f(1,2)
      using j f(3) direct staged_paths [of "sha_of env" "co_files w1" "xr_changes r" st] write_staged_frame
      by (intro conjI exI [of _ "write_staged st w1"]) (auto simp: write_staged_def)
    with \<open>asked env w w1\<close> show ?thesis by blast
  qed
qed


section \<open>An execution returns\<close>

text \<open>What the answer schema requires of a patch: an anchor that is not empty.\<close>

fun anchored :: "change \<Rightarrow> bool" where
  "anchored (PatchFile p d a r) \<longleftrightarrow> a \<noteq> []"
| "anchored _ \<longleftrightarrow> True"

lemma stage_all_returns: "list_all anchored cs \<Longrightarrow> stage_all sha wt st cs \<noteq> None"
proof (induction cs arbitrary: st)
  case (Cons c cs)
  have "stage_change sha wt st c \<noteq> None"
    using Cons.prems by (cases c) (auto simp: stage_change_def Let_def anchor_count_alt split: option.splits)
  with Cons show ?case by (auto split: option.split sum.split)
qed simp

lemma judge_answer_returns: "list_all anchored (xr_changes r) \<Longrightarrow> judge_answer env i baseline r w \<noteq> None"
  using stage_all_returns [of "xr_changes r" "sha_of env" "co_files w" empty_stage]
  by (auto simp: judge_answer_def Let_def stage_changes_def split: list.splits option.splits submission_check.splits)

definition schema_answers :: "exec_env \<Rightarrow> bool" where
  "schema_answers env \<longleftrightarrow> (\<forall>q w r. fst (xe_provider env q w) = Inr r \<longrightarrow> list_all anchored (xr_changes r))"

lemma dispatch_rounds_returns:
  "schema_answers env \<Longrightarrow> dispatch_rounds env i baseline hint s r rejection w \<noteq> None"
proof (induction env i baseline hint s r rejection w rule: dispatch_rounds.induct)
  case (1 env i baseline hint s r rejection w)
  obtain x w1 where x: "xe_provider env (request_of env i hint (s + r) rejection) w = (x, w1)" by force
  note step = dispatch_rounds.simps [of env i baseline hint s r rejection w, unfolded Let_def x prod.case]
  show ?case
  proof (cases x)
    case (Inl e)
    then show ?thesis unfolding step by simp
  next
    case (Inr a)
    have "list_all anchored (xr_changes a)"
      using "1.prems" [unfolded schema_answers_def] x Inr by (metis fst_conv)
    then obtain v where v: "judge_answer env i baseline a w1 = Some v" using judge_answer_returns by blast
    show ?thesis
    proof (cases v)
      case (RefusedSubmission code message ps)
      with "1.IH"(1) [OF refl refl x [symmetric] Inr v this _ "1.prems"] show ?thesis
        unfolding step Inr sum.case v option.case by auto
    next
      case (RefusedStage code message)
      with "1.IH"(2) [OF refl refl x [symmetric] Inr v this _ "1.prems"] show ?thesis
        unfolding step Inr sum.case v option.case by auto
    qed (simp_all add: step Inr v)
  qed
qed

lemma execute_task_returns:
  assumes "schema_answers env"
  shows "\<exists>x ns w'. execute_task env i w = Some (x, ns, w')"
proof (cases "work_present_note env i w")
  case (Inl e)
  then show ?thesis by (simp add: execute_task_def)
next
  case (Inr hint)
  obtain answer ns w1 where "dispatch_rounds env i (dispatch_baseline i w) hint 0 0 None w = Some (answer, ns, w1)"
    using dispatch_rounds_returns [OF assms] by (metis option.exhaust prod.exhaust)
  with Inr have "execute_task env i w \<noteq> None" by (simp add: execute_task_def)
  then show ?thesis by (metis option.exhaust prod.exhaust)
qed

text \<open>
  C32: an execution returns: with answers that meet the schema, every execution ends with an
  outcome or a thrown error, whatever the provider answers and does to the checkout.
\<close>
theorem execution_returns:
  assumes "schema_answers env"
  shows "\<exists>x ns w'. execute_task env i w = Some (x, ns, w')"
  using assms by (rule execute_task_returns)

section \<open>Samples\<close>

definition plain_answer :: "change list \<Rightarrow> executor_result" where
  "plain_answer cs = \<lparr>xr_status = XCompleted, xr_summary = ''done'', xr_changes = cs, xr_commands = None,
     xr_observations = [], xr_candidates = [], xr_followups = [], xr_failure = None, xr_replan_reason = None\<rparr>"

definition sample_lstat :: lstat where "sample_lstat path = (if path = [''repo''] then Some False else None)"

definition sample_exec :: "(exec_request \<Rightarrow> checkout \<Rightarrow> (task_failure, executor_result) result \<times> checkout) \<Rightarrow> exec_env" where
  "sample_exec provider = \<lparr>xe_runner = sample_runner, xe_provider = provider, xe_uuid = show_nat,
     xe_status = (\<lambda>w. Inr (if co_files w ''src/a.ts'' = Some ''old'' then [] else [''src/a.ts''])),
     xe_list = (\<lambda>_ _ _. []), xe_lstat = (\<lambda>_. sample_lstat), xe_root = [''repo'']\<rparr>"

definition sample_input :: "int \<Rightarrow> nat \<Rightarrow> exec_input" where
  "sample_input attempt prior = \<lparr>xi_task = sample_task ''T001'' [] [''src/**''], xi_revision = ''abc'', xi_attempt = attempt,
     xi_prior_rejections = prior, xi_attribution = [], xi_store_exists = None, xi_prior_work = None,
     xi_commands_configured = True\<rparr>"

text \<open>One honest answer; and a provider that edits the checkout by hand three times, then patches a missing file.\<close>

definition honest :: "exec_request \<Rightarrow> checkout \<Rightarrow> (task_failure, executor_result) result \<times> checkout" where
  "honest q w = (Inr (plain_answer [CreateFile ''src/b.ts'' ''new'']), w)"

definition stubborn :: "exec_request \<Rightarrow> checkout \<Rightarrow> (task_failure, executor_result) result \<times> checkout" where
  "stubborn q w =
     (if xq_request_id q \<in> {''0'', ''1'', ''2''}
      then (Inr (plain_answer []), w\<lparr>co_files := (co_files w)(''src/a.ts'' \<mapsto> ''by hand'')\<rparr>)
      else (Inr (plain_answer [PatchFile ''src/c.ts'' ''sha256:x'' ''x'' ''y'']), sample_checkout))"

definition notices_of :: "('a \<times> notice list \<times> checkout) option \<Rightarrow> notice list" where
  "notices_of x = (case x of None \<Rightarrow> [] | Some (_, ns, _) \<Rightarrow> ns)"

definition checkout_after :: "('a \<times> notice list \<times> checkout) option \<Rightarrow> string \<Rightarrow> string option" where
  "checkout_after x = (case x of None \<Rightarrow> (\<lambda>_. None) | Some (_, _, w) \<Rightarrow> co_files w)"

text \<open>The bound is reached: three refusals by the guard and four by the staging.\<close>

lemma stubborn_dispatches: "dispatches (notices_of (execute_task (sample_exec stubborn) (sample_input 1 0) sample_checkout)) = 7"
  by code_simp

lemma stubborn_returns: "\<exists>x ns w'. execute_task (sample_exec stubborn) (sample_input 1 0) sample_checkout = Some (x, ns, w')"
proof (cases "execute_task (sample_exec stubborn) (sample_input 1 0) sample_checkout")
  case None
  then show ?thesis using stubborn_dispatches by (simp add: notices_of_def)
qed (metis prod.exhaust)

theorem dispatch_bound_witness:
  "\<exists>x ns w'. execute_task (sample_exec stubborn) (sample_input 1 0) sample_checkout = Some (x, ns, w')
     \<and> dispatches ns = 7 \<and> refusals_recorded ns"
proof -
  obtain x ns w' where e: "execute_task (sample_exec stubborn) (sample_input 1 0) sample_checkout = Some (x, ns, w')"
    using stubborn_returns by blast
  with dispatch_bound [OF e] stubborn_dispatches show ?thesis by (simp add: notices_of_def)
qed

text \<open>
  the staging bound does not count the refusals of the guard: a task can cost seven requests,
  where the comment beside the bound says at most four dispatches.
\<close>
theorem seven_dispatches:
  "dispatches (notices_of (execute_task (sample_exec stubborn) (sample_input 1 0) sample_checkout)) = 7"
  by (rule stubborn_dispatches)

theorem execution_returns_witness:
  "schema_answers (sample_exec honest) \<and> (\<exists>x ns w'. execute_task (sample_exec honest) (sample_input 1 0) sample_checkout = Some (x, ns, w'))"
proof -
  have a: "schema_answers (sample_exec honest)"
    by (simp add: schema_answers_def sample_exec_def honest_def plain_answer_def)
  with execution_returns [OF a, of "sample_input 1 0" sample_checkout] show ?thesis by simp
qed

theorem execution_mediated_witness:
  "\<exists>out ns w' w1. execute_task (sample_exec honest) (sample_input 1 0) sample_checkout = Some (Inr out, ns, w')
     \<and> asked (sample_exec honest) sample_checkout w1 \<and> co_files w' ''src/b.ts'' = Some ''new''
     \<and> mediated (sample_exec honest) (sample_input 1 0) ''abc'' w1 out w'"
proof -
  let ?e = "execute_task (sample_exec honest) (sample_input 1 0) sample_checkout"
  have n: "case ?e of None \<Rightarrow> False | Some (x, ns, w') \<Rightarrow>
      (case x of Inl _ \<Rightarrow> False | Inr out \<Rightarrow> eo_status out = XCompleted \<and> co_files w' ''src/b.ts'' = Some ''new'')"
    by code_simp
  then obtain x ns w' where e: "?e = Some (x, ns, w')"
    and x: "case x of Inl _ \<Rightarrow> False | Inr out \<Rightarrow> eo_status out = XCompleted \<and> co_files w' ''src/b.ts'' = Some ''new''"
    by (cases ?e) auto
  then obtain out where out: "x = Inr out" by (cases x) simp_all
  have s: "eo_status out = XCompleted" "co_files w' ''src/b.ts'' = Some ''new''" using x out by simp_all
  note e = e [unfolded out]
  have "dispatch_baseline (sample_input 1 0) sample_checkout = ''abc''" by code_simp
  with execution_mediated [OF e] e s show ?thesis by fastforce
qed

text \<open>
  A commit over protected paths only, which the guard is able to let through, is refused here:
  the patterns are never threaded to it, so the run refuses what the submit door accepts.
\<close>
theorem author_commit_refused:
  "evaluate_submission (\<lambda>s. s) ((submission_of (sample_exec honest) (sample_input 1 0) ''abc'' (sample_checkout\<lparr>co_head := Some ''def''\<rparr>))
       \<lparr>sb_delta := Some [''oracles/o.test.ts''], sb_protected := [''oracles/**'']\<rparr>) = Allow
   \<and> evaluate_submission (\<lambda>s. s) ((submission_of (sample_exec honest) (sample_input 1 0) ''abc'' (sample_checkout\<lparr>co_head := Some ''def''\<rparr>))
       \<lparr>sb_delta := Some [''oracles/o.test.ts'']\<rparr>) = Refuse UnmediatedChanges []"
  by code_simp

end
