(* ===== verification/Scheduler.thy ===== *)
theory Scheduler
  imports Schema
begin

text \<open>
  The sequential scheduler, \<^verbatim>\<open>packages/executor/src/scheduler.ts\<close>. The runtime behind it is the
  record \<open>scheduler_io\<close>, over a state of its own; a round is one pass of the endless loop. What
  the scheduler relies on is the locale \<open>scheduler_runtime\<close>, under which it is proved to return.
\<close>

section \<open>Interface\<close>

datatype outcome_status = OutCompleted | OutFailed | OutBlocked | OutNeedsReplan

record execution_outcome =
  oc_status :: outcome_status
  oc_summary :: string
  oc_applied :: "(string \<times> string) list"
  oc_failure :: "task_failure option"

record 's scheduler_io =
  io_cancelled :: "'s \<Rightarrow> bool"
  io_plan :: "'s \<Rightarrow> plan"
  io_task_state :: "'s \<Rightarrow> string \<Rightarrow> task_state option"
  io_transition :: "string \<Rightarrow> task_state \<Rightarrow> string option \<Rightarrow> 's \<Rightarrow> 's"
  io_execute :: "task \<Rightarrow> int \<Rightarrow> json option \<Rightarrow> 's \<Rightarrow> ((task_failure, execution_outcome) result \<times> 's) option"
  io_replan :: "string \<Rightarrow> 's \<Rightarrow> (task_failure, bool) result \<times> 's"
  io_max_retries :: int
  io_clock :: "'s \<Rightarrow> string"

text \<open>The results of the scheduler, and its end by an error that an execution or a replan throws.\<close>

datatype scheduler_outcome = Done | Deadlocked | ReplanFailed | RunnableWorkRemains | Threw task_failure

definition blocking_statuses :: "task_status list" where
  "blocking_statuses = [TaskFailed, TaskBlocked, TaskCancelled, NeedsReplan]"

definition pending_state :: "string \<Rightarrow> task_state" where
  "pending_state tid = \<lparr>ts_task_id = tid, ts_status = Pending, ts_attempt = 0, ts_started_at = None,
     ts_completed_at = None, ts_revision = None, ts_empty_delta = None, ts_failure = None\<rparr>"

definition state_of :: "'s scheduler_io \<Rightarrow> 's \<Rightarrow> string \<Rightarrow> task_state" where
  "state_of io s tid = (case io_task_state io s tid of Some t \<Rightarrow> t | None \<Rightarrow> pending_state tid)"

section \<open>A round\<close>

definition task_dependencies :: "task \<Rightarrow> string list" where
  "task_dependencies t = (case task_depends_on t of None \<Rightarrow> [] | Some ds \<Rightarrow> ds)"

text \<open>
  The map \<open>states\<close> of the round is taken once; the passes below keep it up to date with the
  transitions they make.
\<close>

type_synonym states = "string \<Rightarrow> task_state option"

definition round_states :: "'s scheduler_io \<Rightarrow> 's \<Rightarrow> states" where
  "round_states io s tid =
     (if tid \<in> set (map task_id (plan_tasks (io_plan io s))) then Some (state_of io s tid) else None)"

definition status_in :: "states \<Rightarrow> string \<Rightarrow> task_status option" where
  "status_in states tid = map_option ts_status (states tid)"

fun recover_running :: "'s scheduler_io \<Rightarrow> task list \<Rightarrow> states \<times> 's \<Rightarrow> states \<times> 's" where
  "recover_running io [] (states, s) = (states, s)"
| "recover_running io (t # ts) (states, s) =
     (if status_in states (task_id t) = Some TaskRunning then
        (let s' = io_transition io (task_id t) ((state_of io s (task_id t))\<lparr>ts_status := Pending\<rparr>) None s
         in recover_running io ts
              (states(task_id t \<mapsto> (state_of io s' (task_id t))\<lparr>ts_status := Pending\<rparr>), s'))
      else recover_running io ts (states, s))"

definition blocked_deps :: "states \<Rightarrow> task \<Rightarrow> string list" where
  "blocked_deps states t =
     filter (\<lambda>d. case status_in states d of None \<Rightarrow> False | Some st \<Rightarrow> st \<in> set blocking_statuses)
       (task_dependencies t)"

fun block_pending :: "'s scheduler_io \<Rightarrow> task list \<Rightarrow> states \<times> 's \<Rightarrow> states \<times> 's" where
  "block_pending io [] (states, s) = (states, s)"
| "block_pending io (t # ts) (states, s) =
     (if status_in states (task_id t) = Some Pending \<and> blocked_deps states t \<noteq> [] then
        (let blocked = (state_of io s (task_id t))\<lparr>ts_status := TaskBlocked\<rparr>
         in block_pending io ts
              (states(task_id t \<mapsto> blocked), io_transition io (task_id t) blocked None s))
      else block_pending io ts (states, s))"

definition pending_tasks :: "states \<Rightarrow> task list \<Rightarrow> task list" where
  "pending_tasks states ts = filter (\<lambda>t. status_in states (task_id t) = Some Pending) ts"

definition ready_task :: "states \<Rightarrow> task \<Rightarrow> bool" where
  "ready_task states t =
     list_all (\<lambda>d. status_in states d = Some Completed \<or> status_in states d = Some Skipped) (task_dependencies t)"

definition outcome_failure :: "string \<Rightarrow> execution_outcome \<Rightarrow> json" where
  "outcome_failure default_code outcome =
     (case oc_failure outcome of
        Some f \<Rightarrow> failure_json f
      | None \<Rightarrow> failure_json \<lparr>failure_code = default_code, failure_message = oc_summary outcome\<rparr>)"

definition attempt_state :: "string \<Rightarrow> task_status \<Rightarrow> int \<Rightarrow> json option \<Rightarrow> task_state" where
  "attempt_state tid status attempt failure =
     \<lparr>ts_task_id = tid, ts_status = status, ts_attempt = attempt, ts_started_at = None,
      ts_completed_at = None, ts_revision = None, ts_empty_delta = None, ts_failure = failure\<rparr>"

text \<open>What follows an execution: how the scheduler ends, if it does, and the failed tasks.\<close>

definition settle_outcome ::
  "'s scheduler_io \<Rightarrow> task \<Rightarrow> task_state \<Rightarrow> int \<Rightarrow> execution_outcome \<Rightarrow> string list \<times> 's
     \<Rightarrow> scheduler_outcome option \<times> string list \<times> 's" where
  "settle_outcome io t prior attempt outcome fs =
     (case fs of (failed, s) \<Rightarrow>
      (case oc_status outcome of
         OutCompleted \<Rightarrow>
           (None, failed, io_transition io (task_id t)
              ((attempt_state (task_id t) Completed attempt None)
                \<lparr>ts_started_at := Some (io_clock io s), ts_completed_at := Some (io_clock io s),
                 ts_empty_delta := (if ts_failure prior \<noteq> None \<and> oc_applied outcome = [] then Some True else None)\<rparr>)
              (Some (oc_summary outcome)) s)
       | OutFailed \<Rightarrow>
           (let failure = Some (outcome_failure ''TASK_FAILED'' outcome) in
            if attempt - 1 < io_max_retries io
            then (None, failed, io_transition io (task_id t) (attempt_state (task_id t) Pending attempt failure) None s)
            else (None, failed @ [task_id t],
                  io_transition io (task_id t) (attempt_state (task_id t) TaskFailed attempt failure) None s))
       | OutBlocked \<Rightarrow>
           (None, failed, io_transition io (task_id t)
              (attempt_state (task_id t) TaskBlocked attempt (Some (outcome_failure ''TASK_BLOCKED'' outcome))) None s)
       | OutNeedsReplan \<Rightarrow>
           (let s1 = io_transition io (task_id t)
                  (attempt_state (task_id t) NeedsReplan attempt (map_option failure_json (oc_failure outcome))) None s
            in case io_replan io (task_id t) s1 of
                (Inl e, s2) \<Rightarrow> (Some (Threw e), failed, s2)
              | (Inr amended, s2) \<Rightarrow> (if amended then None else Some ReplanFailed, failed, s2))))"

definition launch ::
  "'s scheduler_io \<Rightarrow> task \<Rightarrow> string list \<times> 's \<Rightarrow> (scheduler_outcome option \<times> string list \<times> 's) option" where
  "launch io t fs =
     (case fs of (failed, s) \<Rightarrow>
      (let prior = state_of io s (task_id t);
           attempt = ts_attempt prior + 1;
           s1 = io_transition io (task_id t)
             ((attempt_state (task_id t) TaskRunning attempt (ts_failure prior))\<lparr>ts_started_at := Some (io_clock io s)\<rparr>)
             None s
       in map_option (\<lambda>(result, s2).
              case result of
                Inl e \<Rightarrow> (Some (Threw e), failed, s2)
              | Inr outcome \<Rightarrow> settle_outcome io t prior attempt outcome (failed, s2))
            (io_execute io t attempt (if 1 < attempt then ts_failure prior else None) s1)))"

text \<open>The check after the loop.\<close>

definition conclude :: "'s scheduler_io \<Rightarrow> 's \<Rightarrow> scheduler_outcome" where
  "conclude io s =
     (if list_ex (\<lambda>t. map_option ts_status (io_task_state io s (task_id t)) = Some NeedsReplan)
           (plan_tasks (io_plan io s))
      then RunnableWorkRemains else Done)"

text \<open>\<open>Inl\<close> is the return of the scheduler, \<open>Inr\<close> the state of the next round, none an execution that hangs.\<close>

definition next_round ::
  "scheduler_outcome option \<times> string list \<times> 's \<Rightarrow> (scheduler_outcome \<times> string list \<times> 's, string list \<times> 's) result" where
  "next_round x = (case x of (None, fs) \<Rightarrow> Inr fs | (Some finish, fs) \<Rightarrow> Inl (finish, fs))"

definition scheduler_round ::
  "'s scheduler_io \<Rightarrow> string list \<times> 's \<Rightarrow> (scheduler_outcome \<times> string list \<times> 's, string list \<times> 's) result option" where
  "scheduler_round io fs =
     (case fs of (failed, s) \<Rightarrow>
      (let tasks = plan_tasks (io_plan io s) in
       case block_pending io tasks (recover_running io tasks (round_states io s, s)) of
         (states, s2) \<Rightarrow>
           (let pending = pending_tasks states tasks in
            if pending = [] then Some (Inl (conclude io s2, failed, s2))
            else
              (case filter (ready_task states) pending of
                 [] \<Rightarrow> Some (Inl (Deadlocked, failed, s2))
               | t # _ \<Rightarrow>
                   if io_cancelled io s2 then Some (Inl (Done, failed, s2))
                   else map_option next_round (launch io t (failed, s2))))))"

partial_function (option) run_scheduler ::
  "'s scheduler_io \<Rightarrow> string list \<times> 's \<Rightarrow> (scheduler_outcome \<times> string list \<times> 's) option" where
  "run_scheduler io fs =
     (case scheduler_round io fs of
        None \<Rightarrow> None
      | Some (Inl r) \<Rightarrow> Some r
      | Some (Inr fs') \<Rightarrow> run_scheduler io fs')"

declare run_scheduler.simps [code]

section \<open>Rounds and launches\<close>

text \<open>A scheduler that returned went through finitely many rounds to its last.\<close>

lemma run_scheduler_rounds:
  assumes "run_scheduler io fs = Some r"
  shows "\<exists>fs'. (\<lambda>a b. scheduler_round io a = Some (Inr b))\<^sup>*\<^sup>* fs fs' \<and> scheduler_round io fs' = Some (Inl r)"
  by (rule run_scheduler.raw_induct [where P = "\<lambda>io fs r. \<exists>fs'. (\<lambda>a b. scheduler_round io a = Some (Inr b))\<^sup>*\<^sup>* fs fs' \<and> scheduler_round io fs' = Some (Inl r)", OF _ assms])
    (auto split: option.splits sum.splits intro: converse_rtranclp_into_rtranclp; (metis (mono_tags, lifting) converse_rtranclp_into_rtranclp)?)

lemma run_scheduler_last_round:
  "run_scheduler io fs = Some r \<Longrightarrow> \<exists>fs'. scheduler_round io fs' = Some (Inl r)"
  using run_scheduler_rounds by blast

lemma settle_ends:
  "settle_outcome io t prior n outcome fs = (Some finish, fs') \<Longrightarrow> finish = ReplanFailed \<or> (\<exists>e. finish = Threw e)"
  by (cases fs; cases "oc_status outcome")
    (auto simp: settle_outcome_def Let_def split: if_splits prod.splits sum.splits)

text \<open>The state a task is launched in, and the execution.\<close>

definition launched :: "'s scheduler_io \<Rightarrow> task \<Rightarrow> 's \<Rightarrow> 's" where
  "launched io t s =
     io_transition io (task_id t)
       ((attempt_state (task_id t) TaskRunning (ts_attempt (state_of io s (task_id t)) + 1) (ts_failure (state_of io s (task_id t))))
         \<lparr>ts_started_at := Some (io_clock io s)\<rparr>) None s"

definition executed ::
  "'s scheduler_io \<Rightarrow> task \<Rightarrow> 's \<Rightarrow> ((task_failure, execution_outcome) result \<times> 's) option" where
  "executed io t s =
     (let prior = state_of io s (task_id t); n = ts_attempt prior + 1
      in io_execute io t n (if 1 < n then ts_failure prior else None) (launched io t s))"

lemma launch_cases:
  assumes "launch io t (failed, s) = Some (r, failed', s')"
  obtains (threw) e where "executed io t s = Some (Inl e, s')" "r = Some (Threw e)" "failed' = failed"
    | (outcome) out s2 where "executed io t s = Some (Inr out, s2)"
      "settle_outcome io t (state_of io s (task_id t)) (ts_attempt (state_of io s (task_id t)) + 1) out (failed, s2) = (r, failed', s')"
proof -
  obtain x s2 where ex: "executed io t s = Some (x, s2)"
    and res: "(case x of Inl e \<Rightarrow> (Some (Threw e), failed, s2)
        | Inr out \<Rightarrow> settle_outcome io t (state_of io s (task_id t)) (ts_attempt (state_of io s (task_id t)) + 1) out (failed, s2))
      = (r, failed', s')"
    using assms by (auto simp: launch_def executed_def launched_def Let_def)
  then show ?thesis using that by (cases x) auto
qed

lemma next_round_simps [simp]:
  "next_round x = Inr fs \<longleftrightarrow> x = (None, fs)" "next_round x = Inl (finish, fs) \<longleftrightarrow> x = (Some finish, fs)"
  by (cases x; cases "fst x"; auto simp: next_round_def)+

section \<open>The runtime's contract, and termination\<close>

definition mark :: "task_state \<Rightarrow> task_status \<times> int" where
  "mark t = (ts_status t, ts_attempt t)"

definition view :: "'s scheduler_io \<Rightarrow> 's \<Rightarrow> string \<Rightarrow> task_status \<times> int" where
  "view io s tid = mark (state_of io s tid)"

definition plan_ids :: "'s scheduler_io \<Rightarrow> 's \<Rightarrow> string set" where
  "plan_ids io s = task_id ` set (plan_tasks (io_plan io s))"

text \<open>The attempts a task has left, one more while it can be launched at all.\<close>

definition load :: "int \<Rightarrow> task_status \<times> int \<Rightarrow> nat" where
  "load retries v = (if fst v \<in> {Pending, TaskRunning} then 1 + nat (retries + 1 - snd v) else 0)"

definition work :: "'s scheduler_io \<Rightarrow> 's \<Rightarrow> nat" where
  "work io s = (\<Sum>tid \<in> plan_ids io s. load (io_max_retries io) (view io s tid))"

definition coherent :: "'s scheduler_io \<Rightarrow> states \<times> 's \<Rightarrow> bool" where
  "coherent io x = (case x of (states, s) \<Rightarrow>
     \<forall>tid. (tid \<in> plan_ids io s \<longrightarrow> map_option mark (states tid) = Some (view io s tid))
         \<and> (tid \<notin> plan_ids io s \<longrightarrow> states tid = None))"

lemma coherent_init: "coherent io (round_states io s, s)"
  by (simp add: coherent_def round_states_def plan_ids_def view_def)

lemma coherent_status:
  "coherent io (states, s) \<Longrightarrow> status_in states tid = Some st \<longleftrightarrow> tid \<in> plan_ids io s \<and> fst (view io s tid) = st"
  by (cases "tid \<in> plan_ids io s"; cases "states tid") (auto simp: coherent_def status_in_def mark_def prod_eq_iff dest!: spec [of _ tid])

lemma conclude_iff:
  "conclude io s = (if \<exists>tid \<in> plan_ids io s. fst (view io s tid) = NeedsReplan then RunnableWorkRemains else Done)"
proof -
  have "map_option ts_status (io_task_state io s tid) = Some NeedsReplan \<longleftrightarrow> fst (view io s tid) = NeedsReplan" for tid
    by (cases "io_task_state io s tid") (simp_all add: view_def mark_def state_of_def pending_state_def)
  then show ?thesis by (simp add: conclude_def list_ex_iff plan_ids_def)
qed

locale scheduler_runtime =
  fixes io :: "'s scheduler_io" and budget :: "'s \<Rightarrow> nat"
  assumes plan_transition: "io_plan io (io_transition io tid ts summary s) = io_plan io s"
    and budget_transition: "budget (io_transition io tid ts summary s) = budget s"
    and view_transition: "view io (io_transition io tid ts summary s) x = (if x = tid then mark ts else view io s x)"
    and execute_returns: "io_execute io t n f s \<noteq> None"
    and execute_frame: "io_execute io t n f s = Some (outcome, s') \<Longrightarrow> view io s (task_id t) = (TaskRunning, n) \<Longrightarrow>
      io_plan io s' = io_plan io s \<and> budget s' = budget s \<and> view io s' = view io s"
    and replan_budget: "io_replan io tid s = (Inr True, s') \<Longrightarrow> budget s' < budget s"
begin

definition settles :: "states \<times> 's \<Rightarrow> states \<times> 's \<Rightarrow> bool" where
  "settles x y \<longleftrightarrow> (case (x, y) of ((_, s), (states', s')) \<Rightarrow>
     coherent io (states', s') \<and> io_plan io s' = io_plan io s \<and> budget s' = budget s
     \<and> (\<forall>tid. load (io_max_retries io) (view io s' tid) \<le> load (io_max_retries io) (view io s tid)))"

lemma plan_ids_transition [simp]: "plan_ids io (io_transition io tid ts sm s) = plan_ids io s"
  by (simp add: plan_ids_def plan_transition)

lemma coherent_transition:
  assumes "coherent io (states, s)" "tid \<in> plan_ids io s" "mark ts' = mark ts"
  shows "coherent io (states(tid \<mapsto> ts'), io_transition io tid ts sm s)"
  using assms by (auto simp: coherent_def view_transition)

lemma settles_refl: "coherent io x \<Longrightarrow> settles x x"
  by (auto simp: settles_def split: prod.splits)

lemma settles_trans: "settles x y \<Longrightarrow> settles y z \<Longrightarrow> settles x z"
  by (cases x; cases y; cases z) (simp add: settles_def, meson le_trans)

lemma settles_step:
  assumes "coherent io (states, s)" "tid \<in> plan_ids io s" "mark ts' = mark ts"
    and "load (io_max_retries io) (mark ts) \<le> load (io_max_retries io) (view io s tid)"
  shows "settles (states, s) (states(tid \<mapsto> ts'), io_transition io tid ts sm s)"
  using assms coherent_transition [OF assms(1-3)]
  by (auto simp: settles_def plan_transition budget_transition view_transition)

lemma mark_state_of: "mark (state_of io s tid) = view io s tid"
  by (simp add: view_def)

lemma recover_settles: "coherent io (states, s) \<Longrightarrow> settles (states, s) (recover_running io ts (states, s))"
proof (induction ts arbitrary: states s)
  case (Cons t ts)
  show ?case
  proof (cases "status_in states (task_id t) = Some TaskRunning")
    case True
    let ?p = "(state_of io s (task_id t))\<lparr>ts_status := Pending\<rparr>"
    let ?s = "io_transition io (task_id t) ?p None s"
    let ?q = "(state_of io ?s (task_id t))\<lparr>ts_status := Pending\<rparr>"
    have run: "task_id t \<in> plan_ids io s" "fst (view io s (task_id t)) = TaskRunning"
      using True coherent_status [OF Cons.prems] by simp_all
    have q: "mark ?q = mark ?p"
      using mark_state_of [of ?s "task_id t"] by (simp add: view_transition mark_def)
    have step: "settles (states, s) (states(task_id t \<mapsto> ?q), ?s)"
      by (rule settles_step [OF Cons.prems run(1) q])
         (use run(2) in \<open>simp add: load_def mark_def view_def\<close>)
    then have coh: "coherent io (states(task_id t \<mapsto> ?q), ?s)" by (simp add: settles_def)
    have eq: "recover_running io (t # ts) (states, s) = recover_running io ts (states(task_id t \<mapsto> ?q), ?s)"
      by (simp only: recover_running.simps Let_def True simp_thms if_True)
    show ?thesis unfolding eq by (rule settles_trans [OF step Cons.IH [OF coh]])
  next
    case False
    with Cons show ?thesis by simp
  qed
qed (simp add: settles_refl)

lemma block_settles: "coherent io (states, s) \<Longrightarrow> settles (states, s) (block_pending io ts (states, s))"
proof (induction ts arbitrary: states s)
  case (Cons t ts)
  show ?case
  proof (cases "status_in states (task_id t) = Some Pending \<and> blocked_deps states t \<noteq> []")
    case True
    let ?b = "(state_of io s (task_id t))\<lparr>ts_status := TaskBlocked\<rparr>"
    have "task_id t \<in> plan_ids io s" using True coherent_status [OF Cons.prems] by simp
    then have step: "settles (states, s) (states(task_id t \<mapsto> ?b), io_transition io (task_id t) ?b None s)"
      by (rule settles_step [OF Cons.prems]) (simp_all add: load_def mark_def)
    then have coh: "coherent io (states(task_id t \<mapsto> ?b), io_transition io (task_id t) ?b None s)"
      by (simp add: settles_def)
    have eq: "block_pending io (t # ts) (states, s)
        = block_pending io ts (states(task_id t \<mapsto> ?b), io_transition io (task_id t) ?b None s)"
      by (simp only: block_pending.simps Let_def True simp_thms if_True)
    show ?thesis unfolding eq by (rule settles_trans [OF step Cons.IH [OF coh]])
  next
    case False
    show ?thesis unfolding block_pending.simps if_not_P [OF False] by (rule Cons.IH [OF Cons.prems])
  qed
qed (simp add: settles_refl)

definition settled :: "'s \<Rightarrow> states \<times> 's" where
  "settled s = (let tasks = plan_tasks (io_plan io s)
                in block_pending io tasks (recover_running io tasks (round_states io s, s)))"

lemma settled_settles: "settles (round_states io s, s) (settled s)"
proof -
  obtain states s1 where r: "recover_running io (plan_tasks (io_plan io s)) (round_states io s, s) = (states, s1)" by force
  have step: "settles (round_states io s, s) (states, s1)" using recover_settles [OF coherent_init [of io s], of "plan_tasks (io_plan io s)"] by (simp only: r)
  then have "coherent io (states, s1)" by (simp add: settles_def)
  from settles_trans [OF step block_settles [OF this]] show ?thesis by (simp add: settled_def r)
qed

text \<open>A launch: the dependencies are done, and it uses up work or the replan budget.\<close>

definition launches :: "'s \<Rightarrow> 's \<Rightarrow> task \<Rightarrow> bool" where
  "launches s s2 t \<longleftrightarrow> t \<in> set (plan_tasks (io_plan io s2)) \<and> io_plan io s2 = io_plan io s
     \<and> fst (view io s2 (task_id t)) = Pending
     \<and> (\<forall>d \<in> set (task_dependencies t). d \<in> plan_ids io s2 \<and> fst (view io s2 d) \<in> {Completed, Skipped})"

lemma round_cases:
  assumes "settled s = (states, s2)"
  obtains (finish) "\<forall>tid \<in> plan_ids io s2. fst (view io s2 tid) \<noteq> Pending"
      "scheduler_round io (failed, s) = Some (Inl (conclude io s2, failed, s2))"
    | (stuck) "scheduler_round io (failed, s) = Some (Inl (Deadlocked, failed, s2))"
      "\<exists>tid \<in> plan_ids io s2. fst (view io s2 tid) = Pending"
    | (cancelled) "io_cancelled io s2" "scheduler_round io (failed, s) = Some (Inl (Done, failed, s2))"
    | (launched) t where "launches s s2 t"
      "scheduler_round io (failed, s) = map_option next_round (launch io t (failed, s2))"
proof -
  let ?tasks = "plan_tasks (io_plan io s)"
  have coh: "coherent io (states, s2)" and plan: "io_plan io s2 = io_plan io s"
    using settled_settles [of s] by (simp_all add: settles_def assms)
  note st = coherent_status [OF coh]
  have round: "scheduler_round io (failed, s) =
      (if pending_tasks states ?tasks = [] then Some (Inl (conclude io s2, failed, s2))
       else case filter (ready_task states) (pending_tasks states ?tasks) of
          [] \<Rightarrow> Some (Inl (Deadlocked, failed, s2))
        | t # _ \<Rightarrow> if io_cancelled io s2 then Some (Inl (Done, failed, s2))
            else map_option next_round (launch io t (failed, s2)))"
    using assms by (simp add: scheduler_round_def settled_def Let_def)
  have pending: "t \<in> set (pending_tasks states ?tasks) \<longleftrightarrow> t \<in> set ?tasks \<and> fst (view io s2 (task_id t)) = Pending" for t
    by (auto simp: pending_tasks_def st plan_ids_def plan)
  show ?thesis
  proof (cases "pending_tasks states ?tasks")
    case Nil
    have "\<forall>tid \<in> plan_ids io s2. fst (view io s2 tid) \<noteq> Pending"
      using pending by (auto simp: plan_ids_def plan Nil)
    then show ?thesis using round finish by (simp add: Nil)
  next
    case (Cons p ps)
    then have p: "p \<in> set ?tasks" "fst (view io s2 (task_id p)) = Pending" using pending [of p] by simp_all
    show ?thesis
    proof (cases "filter (ready_task states) (pending_tasks states ?tasks)")
      case Nil
      have "\<exists>tid \<in> plan_ids io s2. fst (view io s2 tid) = Pending" using p by (auto simp: plan_ids_def plan)
      then show ?thesis using round stuck Cons Nil by simp
    next
      case (Cons t ts)
      then have "t \<in> set (filter (ready_task states) (pending_tasks states ?tasks))" by simp
      then have t: "launches s s2 t"
        using pending [of t] by (auto simp: launches_def plan ready_task_def list_all_iff st)
      show ?thesis
      proof (cases "io_cancelled io s2")
        case True
        then show ?thesis using round Cons cancelled \<open>pending_tasks states ?tasks = p # ps\<close> by simp
      next
        case False
        have "scheduler_round io (failed, s) = map_option next_round (launch io t (failed, s2))"
          using round Cons False \<open>pending_tasks states ?tasks = p # ps\<close> by simp
        then show ?thesis using launched t by blast
      qed
    qed
  qed
qed

lemma settle_progress:
  assumes "settle_outcome io t prior (a + 1) outcome (failed, s) = (None, failed', s')"
    and "task_id t \<in> plan_ids io s" "io_plan io s = io_plan io s0" "budget s = budget s0"
    and "load (io_max_retries io) (view io s0 (task_id t)) = 1 + nat (io_max_retries io + 1 - a)"
    and "\<And>x. x \<noteq> task_id t \<Longrightarrow> view io s x = view io s0 x"
  shows "budget s' < budget s0 \<or> (budget s' = budget s0 \<and> work io s' < work io s0)"
proof -
  let ?l = "\<lambda>v. load (io_max_retries io) v"
  have one: "work io (io_transition io (task_id t) ts sm s) < work io s0"
    if "?l (mark ts) < 1 + nat (io_max_retries io + 1 - a)" for ts sm
  proof -
    have "(\<Sum>x \<in> plan_ids io s. ?l (view io (io_transition io (task_id t) ts sm s) x)) < (\<Sum>x \<in> plan_ids io s. ?l (view io s0 x))"
      by (rule sum_strict_mono_ex1)
         (use that assms(2,5,6) in \<open>auto simp: view_transition plan_ids_def\<close>)
    then show ?thesis by (simp add: work_def plan_ids_def plan_transition assms(3))
  qed
  have uses: "?thesis" if "s' = io_transition io (task_id t) ts sm s" "?l (mark ts) < 1 + nat (io_max_retries io + 1 - a)" for ts sm
    using one [OF that(2), of sm] that(1) by (simp add: budget_transition assms(4))
  show ?thesis
  proof (cases "oc_status outcome")
    case OutCompleted
    with assms(1) uses show ?thesis by (fastforce simp: settle_outcome_def mark_def load_def attempt_state_def)
  next
    case OutFailed
    have "?l (Pending, a + 1) < 1 + nat (io_max_retries io + 1 - a)" if "a < io_max_retries io"
      using that by (simp add: load_def)
    moreover have "?l (TaskFailed, a + 1) < 1 + nat (io_max_retries io + 1 - a)" by (simp add: load_def)
    ultimately show ?thesis using OutFailed assms(1) uses
      by (fastforce simp: settle_outcome_def mark_def attempt_state_def Let_def split: if_splits)
  next
    case OutBlocked
    with assms(1) uses show ?thesis by (fastforce simp: settle_outcome_def mark_def load_def attempt_state_def)
  next
    case OutNeedsReplan
    then obtain s1 where "io_replan io (task_id t) s1 = (Inr True, s')" "budget s1 = budget s"
      using assms(1) by (auto simp: settle_outcome_def Let_def budget_transition split: prod.splits sum.splits if_splits)
    with replan_budget show ?thesis by (force simp: assms(4))
  qed
qed

lemma round_progress:
  assumes "scheduler_round io (failed, s) = Some (Inr (failed', s'))"
  shows "budget s' < budget s \<or> (budget s' = budget s \<and> work io s' < work io s)"
proof -
  obtain states s2 where st: "settled s = (states, s2)" by force
  have settles: "io_plan io s2 = io_plan io s" "budget s2 = budget s"
    "\<And>x. load (io_max_retries io) (view io s2 x) \<le> load (io_max_retries io) (view io s x)"
    using settled_settles [of s] by (simp_all add: settles_def st)
  have less: "work io s2 \<le> work io s"
    unfolding work_def plan_ids_def settles(1) by (rule sum_mono) (rule settles(3))
  obtain t where t: "launches s s2 t" "launch io t (failed, s2) = Some (None, failed', s')"
    using st
  proof (cases rule: round_cases [where failed = failed])
    case (launched t)
    then have "map_option next_round (launch io t (failed, s2)) = Some (Inr (failed', s'))" using assms by simp
    then show ?thesis using that [OF launched(1)] by auto
  qed (use assms in auto)
  let ?prior = "state_of io s2 (task_id t)"
  obtain outcome s3 where ex: "executed io t s2 = Some (Inr outcome, s3)"
    and settle: "settle_outcome io t ?prior (ts_attempt ?prior + 1) outcome (failed, s3) = (None, failed', s')"
    using t(2) by (cases rule: launch_cases) auto
  have frame: "io_plan io s3 = io_plan io (launched io t s2) \<and> budget s3 = budget (launched io t s2) \<and> view io s3 = view io (launched io t s2)"
    using ex unfolding executed_def Let_def
    by (rule execute_frame) (simp add: launched_def view_transition mark_def attempt_state_def)
  have "budget s' < budget s2 \<or> (budget s' = budget s2 \<and> work io s' < work io s2)"
    using settle
  proof (rule settle_progress)
    show "task_id t \<in> plan_ids io s3" using t(1) frame
      by (auto simp: launches_def plan_ids_def plan_transition launched_def)
    show "io_plan io s3 = io_plan io s2" "budget s3 = budget s2"
      using frame by (simp_all add: plan_transition budget_transition launched_def)
    show "load (io_max_retries io) (view io s2 (task_id t)) = 1 + nat (io_max_retries io + 1 - ts_attempt ?prior)"
      using t(1) by (simp add: launches_def load_def view_def mark_def)
    show "view io s3 x = view io s2 x" if "x \<noteq> task_id t" for x
      using frame that by (simp add: view_transition launched_def)
  qed
  with settles(2) less show ?thesis by linarith
qed

lemma round_returns: "scheduler_round io (failed, s) \<noteq> None"
proof -
  obtain states s2 where st: "settled s = (states, s2)" by force
  show ?thesis
    using st
  proof (cases rule: round_cases [where failed = failed])
    case (launched t)
    then show ?thesis using execute_returns by (simp add: launch_def Let_def)
  qed auto
qed

lemma scheduler_returns: "\<exists>r. run_scheduler io (failed, s) = Some r"
proof (induction "(budget s, work io s)" arbitrary: failed s rule: wf_induct_rule [OF wf_lex_prod [OF wf_less_than wf_less_than]])
  case 1
  obtain r where r: "scheduler_round io (failed, s) = Some r" using round_returns by blast
  show ?case
  proof (cases r)
    case (Inl x)
    with r have "run_scheduler io (failed, s) = Some x" by (subst run_scheduler.simps) simp
    then show ?thesis by blast
  next
    case (Inr fs)
    obtain failed' s' where fs: "fs = (failed', s')" by force
    with r Inr round_progress [of failed s failed' s'] 1 [of s' failed'] show ?thesis
      by (subst run_scheduler.simps) auto
  qed
qed

text \<open>
  An invariant of the runtime's operations, as the scheduler calls them, holds from a state of
  the scheduler to its last: a task is executed while it runs, and replanned while it waits for it.
\<close>

definition keeps :: "('s \<Rightarrow> bool) \<Rightarrow> bool" where
  "keeps P \<longleftrightarrow>
     (\<forall>tid ts sm s. P s \<longrightarrow> P (io_transition io tid ts sm s))
   \<and> (\<forall>t n f s r s'. P s \<longrightarrow> t \<in> set (plan_tasks (io_plan io s)) \<longrightarrow> view io s (task_id t) = (TaskRunning, n) \<longrightarrow>
        io_execute io t n f s = Some (r, s') \<longrightarrow> P s')
   \<and> (\<forall>tid s b s'. P s \<longrightarrow> fst (view io s tid) = NeedsReplan \<longrightarrow> io_replan io tid s = (b, s') \<longrightarrow> P s')"

lemma keepsD:
  assumes "keeps P" "P s"
  shows "P (io_transition io tid ts sm s)"
    "t \<in> set (plan_tasks (io_plan io s)) \<Longrightarrow> view io s (task_id t) = (TaskRunning, n) \<Longrightarrow> io_execute io t n f s = Some (r, s') \<Longrightarrow> P s'"
    "fst (view io s tid) = NeedsReplan \<Longrightarrow> io_replan io tid s = (b, s') \<Longrightarrow> P s'"
  using assms unfolding keeps_def by blast+

lemma recover_keeps: "keeps P \<Longrightarrow> P s \<Longrightarrow> recover_running io ts (states, s) = (states', s') \<Longrightarrow> P s'"
proof (induction ts arbitrary: states s)
  case (Cons t ts)
  from Cons.IH [OF Cons.prems(1) keepsD(1) [OF Cons.prems(1,2)]] Cons.IH [OF Cons.prems(1,2)] Cons.prems(3)
  show ?case by (simp add: Let_def split: if_splits)
qed simp

lemma block_keeps: "keeps P \<Longrightarrow> P s \<Longrightarrow> block_pending io ts (states, s) = (states', s') \<Longrightarrow> P s'"
proof (induction ts arbitrary: states s)
  case (Cons t ts)
  from Cons.IH [OF Cons.prems(1) keepsD(1) [OF Cons.prems(1,2)]] Cons.IH [OF Cons.prems(1,2)] Cons.prems(3)
  show ?case by (simp add: Let_def split: if_splits)
qed simp

lemma settle_keeps:
  assumes "keeps P" "P s" "settle_outcome io t prior n outcome (failed, s) = (r, failed', s')"
  shows "P s'"
proof -
  note tr = keepsD(1) [OF assms(1,2)]
  show ?thesis
  proof (cases "oc_status outcome")
    case OutNeedsReplan
    let ?s1 = "io_transition io (task_id t) (attempt_state (task_id t) NeedsReplan n (map_option failure_json (oc_failure outcome))) None s"
    obtain b s2 where b: "io_replan io (task_id t) ?s1 = (b, s2)" by force
    have "fst (view io ?s1 (task_id t)) = NeedsReplan" by (simp add: view_transition mark_def attempt_state_def)
    from keepsD(3) [OF assms(1) tr this b] b assms(3) OutNeedsReplan show ?thesis
      by (auto simp: settle_outcome_def Let_def split: sum.splits)
  qed (use assms(3) tr in \<open>auto simp: settle_outcome_def Let_def split: if_splits\<close>)
qed

lemma executed_keeps:
  assumes "keeps P" "P s" "t \<in> set (plan_tasks (io_plan io s))" "executed io t s = Some (r, s')"
  shows "P s'"
proof -
  have "P (launched io t s)" unfolding launched_def by (rule keepsD(1) [OF assms(1,2)])
  moreover have "t \<in> set (plan_tasks (io_plan io (launched io t s)))" using assms(3) by (simp add: launched_def plan_transition)
  moreover have "view io (launched io t s) (task_id t) = (TaskRunning, ts_attempt (state_of io s (task_id t)) + 1)"
    by (simp add: launched_def view_transition mark_def attempt_state_def)
  ultimately show ?thesis using keepsD(2) [OF assms(1)] assms(4) unfolding executed_def Let_def by blast
qed

lemma launch_keeps:
  assumes "keeps P" "P s" "t \<in> set (plan_tasks (io_plan io s))" "launch io t (failed, s) = Some (r, failed', s')"
  shows "P s'"
  using assms(4)
proof (cases rule: launch_cases)
  case (threw e)
  then show ?thesis using executed_keeps [OF assms(1-3)] by blast
next
  case (outcome out s2)
  then show ?thesis using settle_keeps [OF assms(1) executed_keeps [OF assms(1-3)]] by blast
qed

lemma round_keeps:
  assumes "keeps P" "P s" "scheduler_round io (failed, s) = Some r"
  shows "case r of Inl (_, _, s') \<Rightarrow> P s' | Inr (_, s') \<Rightarrow> P s'"
proof -
  obtain st1 s1 where a: "recover_running io (plan_tasks (io_plan io s)) (round_states io s, s) = (st1, s1)" by force
  obtain states s2 where b: "block_pending io (plan_tasks (io_plan io s)) (st1, s1) = (states, s2)" by force
  have st: "settled s = (states, s2)" by (simp add: settled_def a b)
  have P: "P s2" using recover_keeps [OF assms(1,2) a] block_keeps [OF assms(1) _ b] by blast
  show ?thesis
    using st
  proof (cases rule: round_cases [where failed = failed])
    case (launched t)
    then have t: "t \<in> set (plan_tasks (io_plan io s2))" unfolding launches_def by blast
    have "map_option next_round (launch io t (failed, s2)) = Some r" using launched(2) assms(3) by simp
    then obtain x where "launch io t (failed, s2) = Some x" "r = next_round x" by blast
    with launch_keeps [OF assms(1) P t] show ?thesis
      by (cases x; cases "fst x") (auto simp: next_round_def split: prod.splits)
  qed (use P assms(3) in auto)
qed

lemma scheduler_keeps:
  assumes "keeps P" "run_scheduler io (failed, s) = Some (out, failed', s')" "P s"
  shows "P s'"
proof -
  obtain fs where fs: "(\<lambda>a b. scheduler_round io a = Some (Inr b))\<^sup>*\<^sup>* (failed, s) fs"
    "scheduler_round io fs = Some (Inl (out, failed', s'))"
    using run_scheduler_rounds [OF assms(2)] by blast
  from fs(1) have "P (snd fs)"
  proof (induction rule: rtranclp_induct)
    case base
    show ?case by (simp add: assms(3))
  next
    case (step y z)
    then show ?case using round_keeps [OF assms(1), of "snd y" "fst y" "Inr z"] by (simp add: case_prod_beta)
  qed
  with round_keeps [OF assms(1), of "snd fs" "fst fs"] fs(2) show ?thesis by fastforce
qed

lemma scheduler_result:
  assumes "run_scheduler io (failed, s) = Some (outcome, failed', s')"
  shows "case outcome of
      Done \<Rightarrow> io_cancelled io s' \<or> (\<forall>tid \<in> plan_ids io s'. fst (view io s' tid) \<notin> {Pending, NeedsReplan})
    | RunnableWorkRemains \<Rightarrow> \<exists>tid \<in> plan_ids io s'. fst (view io s' tid) = NeedsReplan
    | Deadlocked \<Rightarrow> \<exists>tid \<in> plan_ids io s'. fst (view io s' tid) = Pending
    | _ \<Rightarrow> True"
proof -
  obtain f0 s0 where r: "scheduler_round io (f0, s0) = Some (Inl (outcome, failed', s'))"
    using run_scheduler_last_round [OF assms] by force
  obtain states s2 where st: "settled s0 = (states, s2)" by force
  show ?thesis
    using st
  proof (cases rule: round_cases [where failed = f0])
    case finish
    with r show ?thesis by (auto simp: conclude_iff split: if_splits)
  next
    case stuck
    with r show ?thesis by auto
  next
    case cancelled
    with r show ?thesis by auto
  next
    case (launched t)
    then have "map_option next_round (launch io t (f0, s2)) = Some (Inl (outcome, failed', s'))" using r by simp
    then have "launch io t (f0, s2) = Some (Some outcome, failed', s')" by auto
    then have "outcome = ReplanFailed \<or> (\<exists>e. outcome = Threw e)" by (cases rule: launch_cases) (auto dest: settle_ends)
    then show ?thesis by auto
  qed
qed

end

section \<open>Order of the plan\<close>

text \<open>A runtime over a map of task states that executes nothing.\<close>

definition map_io :: "plan \<Rightarrow> (string \<Rightarrow> task_state option) scheduler_io" where
  "map_io p =
     \<lparr>io_cancelled = (\<lambda>s. False), io_plan = (\<lambda>s. p), io_task_state = (\<lambda>s. s),
      io_transition = (\<lambda>tid ts summary s. s(tid \<mapsto> ts)),
      io_execute = (\<lambda>t n f s. Some (Inr \<lparr>oc_status = OutFailed, oc_summary = [], oc_applied = [], oc_failure = None\<rparr>, s)),
      io_replan = (\<lambda>tid s. (Inr False, s)), io_max_retries = 0, io_clock = (\<lambda>s. [])\<rparr>"

definition chain_order :: "string list \<Rightarrow> plan" where
  "chain_order ids = sample_plan (map (\<lambda>i. sample_task i
     (if i = ''T002'' then [''T001''] else if i = ''T003'' then [''T002''] else []) []) ids)"

definition first_failed :: "string \<Rightarrow> task_state option" where
  "first_failed = Map.empty(''T001'' \<mapsto> attempt_state ''T001'' TaskFailed 1 None)"

text \<open>
  blocking is propagated in one pass in plan order, so the same tasks give two results. After
  T001 failed, the chain T001, T002, T003 is blocked throughout and the run concludes as done;
  with T003 listed before T002 it is reported as deadlocked, and T003 stays pending.
\<close>
theorem blocking_depends_on_order:
  "map_option fst (run_scheduler (map_io (chain_order [''T001'', ''T002'', ''T003''])) ([], first_failed)) = Some Done
   \<and> (case run_scheduler (map_io (chain_order [''T001'', ''T003'', ''T002''])) ([], first_failed) of
        Some (outcome, failed, s) \<Rightarrow> outcome = Deadlocked \<and> s ''T003'' = None
          \<and> map_option ts_status (s ''T002'') = Some TaskBlocked
      | None \<Rightarrow> False)"
  by code_simp

end
