(* ===== verification/Git.thy ===== *)
theory Git
  imports RepoContent RunState
begin

text \<open>
  The git adapter, \<^verbatim>\<open>packages/repo/src/git.ts\<close> and \<^verbatim>\<open>worktree.ts\<close>. Git itself is the parameter
  \<open>git\<close>: the answer to an argument list in a directory whose state is \<open>'w\<close>, and the state after
  it. What the adapter asks and how it reads the answers is defined here; an error is a value.
\<close>

section \<open>Asking git\<close>

record git_answer =
  ga_ok :: bool
  ga_timed_out :: bool
  ga_stdout :: string
  ga_stderr :: string

type_synonym 'w git = "string list \<Rightarrow> 'w \<Rightarrow> git_answer \<times> 'w"

definition coded :: "string \<Rightarrow> string \<Rightarrow> task_failure" where
  "coded code message = \<lparr>failure_code = code, failure_message = message\<rparr>"

definition git_ok :: "'w git \<Rightarrow> string \<Rightarrow> string list \<Rightarrow> 'w \<Rightarrow> (task_failure, string) result \<times> 'w" where
  "git_ok git cwd args w =
     (case git args w of
        (r, w1) \<Rightarrow>
          (if ga_timed_out r then Inl (coded ''SPC_GIT_DEADLINE'' (trim (ga_stderr r)))
           else if \<not> ga_ok r
           then Inl (coded ''SPC_GIT_ERROR'' (''git '' @ join_with '' '' args @ '' failed in '' @ cwd @ '': ''
                  @ (if trim (ga_stderr r) \<noteq> [] then trim (ga_stderr r) else trim (ga_stdout r))))
           else Inr (ga_stdout r), w1))"

text \<open>Commits are made under the configured identity, or the tool's where git has none; the source asks once per directory.\<close>

definition with_identity :: "'w git \<Rightarrow> 'w git" where
  "with_identity git args w =
     (case git [''var'', ''GIT_AUTHOR_IDENT''] w of
        (r, w1) \<Rightarrow> git ((if ga_ok r then [] else [''-c'', ''user.name=spc'', ''-c'', ''user.email=spc@local'']) @ args) w1)"

definition current_revision :: "'w git \<Rightarrow> string \<Rightarrow> 'w \<Rightarrow> (task_failure, string) result \<times> 'w" where
  "current_revision git cwd w = (case git_ok git cwd [''rev-parse'', ''HEAD''] w of (r, w1) \<Rightarrow> (map_sum id trim r, w1))"

definition current_branch :: "'w git \<Rightarrow> string \<Rightarrow> 'w \<Rightarrow> (task_failure, string) result \<times> 'w" where
  "current_branch git cwd w =
     (case git_ok git cwd [''rev-parse'', ''--abbrev-ref'', ''HEAD''] w of (r, w1) \<Rightarrow> (map_sum id trim r, w1))"

definition worktree_status :: "'w git \<Rightarrow> string \<Rightarrow> 'w \<Rightarrow> (task_failure, (string \<times> string) list) result \<times> 'w" where
  "worktree_status git cwd w =
     (case git_ok git cwd [''status'', ''--porcelain'', ''-uall''] w of (r, w1) \<Rightarrow> (map_sum id status_porcelain r, w1))"

definition range_text :: "string \<Rightarrow> string \<Rightarrow> string" where "range_text a b = a @ ''..'' @ b"

definition diff_stat :: "'w git \<Rightarrow> string \<Rightarrow> string \<Rightarrow> 'w \<Rightarrow> string \<times> 'w" where
  "diff_stat git a b w = (case git [''diff'', ''--stat'', range_text a b] w of (r, w1) \<Rightarrow> (trim (ga_stdout r), w1))"

section \<open>Commits\<close>

definition spc_state_paths :: "string list" where
  "spc_state_paths =
     [''.spc/runs'', ''.spc/plans'', ''.spc/worktrees'', ''.spc/cache'', ''.spc/harness'', ''.spc/apply.lease'',
      ''.spc/patch-log.jsonl'', ''.spc/apply.lock'', ''.spc/execution-intent.json'', ''.spc/execution-intent.lock'']"

definition newline :: string where "newline = [CHR 0x0A]"

definition commit_message :: "string \<Rightarrow> (string \<times> string) list \<Rightarrow> string" where
  "commit_message message trailers =
     (if trailers = [] then message
      else message @ newline @ newline @ join_with newline (map (\<lambda>(k, v). k @ '': '' @ v) trailers) @ newline)"

definition commit_empty :: "'w git \<Rightarrow> string \<Rightarrow> string \<Rightarrow> (string \<times> string) list \<Rightarrow> 'w \<Rightarrow> (task_failure, string) result \<times> 'w" where
  "commit_empty git cwd message trailers w =
     (case git_ok (with_identity git) cwd [''commit'', ''--allow-empty'', ''-m'', commit_message message trailers] w of
        (Inl e, w1) \<Rightarrow> (Inl e, w1)
      | (Inr _, w1) \<Rightarrow> current_revision git cwd w1)"

text \<open>The end of both ways to stage: nothing staged is no commit.\<close>

definition commit_staged :: "'w git \<Rightarrow> string \<Rightarrow> string \<Rightarrow> (string \<times> string) list \<Rightarrow> 'w \<Rightarrow> (task_failure, string option) result \<times> 'w" where
  "commit_staged git cwd message trailers w =
     (case git [''diff'', ''--cached'', ''--quiet''] w of
        (r, w1) \<Rightarrow>
          if ga_ok r then (Inr None, w1)
          else
            (case git_ok (with_identity git) cwd [''commit'', ''-m'', commit_message message trailers] w1 of
               (Inl e, w2) \<Rightarrow> (Inl e, w2)
             | (Inr _, w2) \<Rightarrow> (case current_revision git cwd w2 of (h, w3) \<Rightarrow> (map_sum id Some h, w3))))"

definition committable :: "string list \<Rightarrow> string \<Rightarrow> bool" where
  "committable exclude p \<longleftrightarrow> p \<notin> set exclude \<and> \<not> prefix ''.spc/'' p"

definition commit_all ::
  "'w git \<Rightarrow> string \<Rightarrow> string \<Rightarrow> (string \<times> string) list \<Rightarrow> string list option \<Rightarrow> 'w \<Rightarrow> (task_failure, string option) result \<times> 'w" where
  "commit_all git cwd message trailers exclude w =
     (case worktree_status git cwd w of
        (Inl e, w1) \<Rightarrow> (Inl e, w1)
      | (Inr entries, w1) \<Rightarrow>
          if entries = [] then (Inr None, w1)
          else if opt_list exclude \<noteq> [] then
            (let ps = filter (committable (opt_list exclude)) (map fst entries)
             in if ps = [] then (Inr None, w1)
                else (case git_ok git cwd ([''add'', ''--''] @ ps) w1 of
                        (Inl e, w2) \<Rightarrow> (Inl e, w2)
                      | (Inr _, w2) \<Rightarrow> commit_staged git cwd message trailers w2))
          else
            (case git_ok git cwd [''add'', ''-A''] w1 of
               (Inl e, w2) \<Rightarrow> (Inl e, w2)
             | (Inr _, w2) \<Rightarrow>
                 (case git_ok git cwd ([''reset'', ''-q'', ''--''] @ spc_state_paths) w2 of
                    (Inl e, w3) \<Rightarrow> (Inl e, w3)
                  | (Inr _, w3) \<Rightarrow> commit_staged git cwd message trailers w3)))"

section \<open>Sizes of a diff\<close>

text \<open>\<open>Number(s) || 0\<close> on what \<^verbatim>\<open>git diff --numstat\<close> writes: digits, or a dash for a binary file.\<close>

definition count_text :: "string \<Rightarrow> nat" where
  "count_text s = (if s \<noteq> [] \<and> list_all is_digit s then read_nat s else 0)"

definition numstat_lines :: "string \<Rightarrow> nat" where
  "numstat_lines line =
     (case split_on (CHR 0x09) line of
        add # del # _ \<Rightarrow> count_text add + count_text del
      | [add] \<Rightarrow> count_text add
      | [] \<Rightarrow> 0)"

definition count_diff_lines :: "'w git \<Rightarrow> string \<Rightarrow> string \<Rightarrow> 'w \<Rightarrow> nat \<times> 'w" where
  "count_diff_lines git a b w =
     (case git [''diff'', ''--numstat'', range_text a b] w of
        (r, w1) \<Rightarrow> (sum_list (map numstat_lines (split_on (CHR 0x0A) (ga_stdout r))), w1))"

definition count_changed :: "'w git \<Rightarrow> string \<Rightarrow> string \<Rightarrow> 'w \<Rightarrow> nat \<times> 'w" where
  "count_changed git a b w =
     (case git [''diff'', ''--name-only'', range_text a b] w of
        (r, w1) \<Rightarrow> (length (filter (\<lambda>l. trim l \<noteq> []) (split_on (CHR 0x0A) (ga_stdout r))), w1))"

section \<open>Worktrees and branches\<close>

definition run_branch :: "string \<Rightarrow> string \<Rightarrow> string" where "run_branch spec run = ''spc/'' @ spec @ ''/'' @ run"

text \<open>\<open>occupied\<close> says whether the path exists; \<open>dir\<close> is the path of the new worktree.\<close>

definition create_worktree ::
  "'w git \<Rightarrow> bool \<Rightarrow> string \<Rightarrow> string \<Rightarrow> string option \<Rightarrow> 'w \<Rightarrow> (task_failure, string \<times> string) result \<times> 'w" where
  "create_worktree git occupied branch dir start w =
     (if occupied then (Inl (coded ''SPC_WORKTREE_ERROR'' (''worktree path already exists: '' @ dir)), w)
      else
        (let point = (case when_truthy start of Some s \<Rightarrow> [s] | None \<Rightarrow> [])
         in case git ([''worktree'', ''add'', ''-b'', branch, dir] @ point) w of
              (r, w1) \<Rightarrow>
                if ga_ok r then (Inr (dir, branch), w1)
                else
                  (case git ([''worktree'', ''add'', ''-B'', branch, dir] @ point) w1 of
                     (r2, w2) \<Rightarrow>
                       if ga_ok r2 then (Inr (dir, branch), w2)
                       else (Inl (coded ''SPC_WORKTREE_ERROR'' (''failed to create worktree: ''
                               @ trim (if ga_stderr r2 \<noteq> [] then ga_stderr r2 else ga_stderr r))), w2))))"

definition checkout_run_branch :: "'w git \<Rightarrow> string \<Rightarrow> string \<Rightarrow> 'w \<Rightarrow> (task_failure, string \<times> string) result \<times> 'w" where
  "checkout_run_branch git cwd branch w =
     (case current_branch git cwd w of
        (Inl e, w1) \<Rightarrow> (Inl e, w1)
      | (Inr previous, w1) \<Rightarrow>
          (case git [''checkout'', ''-B'', branch] w1 of
             (r, w2) \<Rightarrow>
               if ga_ok r then (Inr (branch, previous), w2)
               else (Inl (coded ''SPC_WORKTREE_ERROR'' (''failed to check out run branch '' @ branch @ '': '' @ trim (ga_stderr r))), w2)))"

definition checkout_branch :: "'w git \<Rightarrow> string \<Rightarrow> 'w \<Rightarrow> (task_failure, unit) result \<times> 'w" where
  "checkout_branch git branch w =
     (case git [''checkout'', branch] w of
        (r, w1) \<Rightarrow>
          if ga_ok r then (Inr (), w1)
          else (Inl (coded ''SPC_WORKTREE_ERROR'' (''failed to check out '' @ branch @ '': '' @ trim (ga_stderr r))), w1))"

text \<open>A task patch is picked onto the integration branch, or undone.\<close>

definition merge_task_patch :: "'w git \<Rightarrow> string \<Rightarrow> 'w \<Rightarrow> bool \<times> 'w" where
  "merge_task_patch git sha w =
     (case with_identity git [''cherry-pick'', sha] w of
        (r, w1) \<Rightarrow>
          if ga_ok r then (True, w1)
          else (False, snd (git [''reset'', ''--hard'', ''HEAD''] (snd (git [''cherry-pick'', ''--abort''] w1)))))"

section \<open>What a commit stages\<close>

text \<open>
  An argument list that stages nothing, or names paths only, none of them excluded or under the
  tool's directory.
\<close>

definition stages_only :: "string list \<Rightarrow> string list \<Rightarrow> bool" where
  "stages_only exclude args \<longleftrightarrow>
     (case args of
        a # rest \<Rightarrow> a = ''add'' \<longrightarrow> take 1 rest = [''--''] \<and> list_all (committable exclude) (drop 1 rest)
      | [] \<Rightarrow> True)"

definition kept_by :: "('w \<Rightarrow> bool) \<Rightarrow> string list \<Rightarrow> 'w git \<Rightarrow> bool" where
  "kept_by P exclude git \<longleftrightarrow> (\<forall>args w. stages_only exclude args \<longrightarrow> P w \<longrightarrow> P (snd (git args w)))"

lemma keptD: "kept_by P x git \<Longrightarrow> git args w = (r, w') \<Longrightarrow> stages_only x args \<Longrightarrow> P w \<Longrightarrow> P w'"
  unfolding kept_by_def by (metis snd_conv)

lemma stages_only_simps [simp]:
  "a \<noteq> ''add'' \<Longrightarrow> stages_only x (a # rest)" "stages_only x (''add'' # ''--'' # ps) = list_all (committable x) ps"
  by (simp_all add: stages_only_def)

lemma kept_identity:
  assumes k: "kept_by P x git"
  shows "kept_by P x (with_identity git)"
  unfolding kept_by_def [of P x "with_identity git"]
proof (intro allI impI)
  fix args w assume a: "stages_only x args" "P w"
  obtain r w1 where g: "git [''var'', ''GIT_AUTHOR_IDENT''] w = (r, w1)" by force
  have "P w1" by (rule keptD [OF k g]) (simp_all add: a)
  with k a(1) show "P (snd (with_identity git args w))"
    by (cases "ga_ok r") (simp_all add: with_identity_def g kept_by_def)
qed

lemma kept_ok: "kept_by P x git \<Longrightarrow> git_ok git cwd args w = (r, w') \<Longrightarrow> stages_only x args \<Longrightarrow> P w \<Longrightarrow> P w'"
  by (auto simp: git_ok_def split: prod.splits elim!: keptD)

lemma kept_revision: "kept_by P x git \<Longrightarrow> current_revision git cwd w = (r, w') \<Longrightarrow> P w \<Longrightarrow> P w'"
  by (auto simp: current_revision_def split: prod.splits elim!: kept_ok)

lemma kept_entries: "kept_by P x git \<Longrightarrow> worktree_status git cwd w = (r, w') \<Longrightarrow> P w \<Longrightarrow> P w'"
  by (auto simp: worktree_status_def split: prod.splits elim!: kept_ok)

lemma kept_commit: "kept_by P x git \<Longrightarrow> commit_staged git cwd m ts w = (r, w') \<Longrightarrow> P w \<Longrightarrow> P w'"
proof -
  assume k: "kept_by P x git" and c: "commit_staged git cwd m ts w = (r, w')" and p: "P w"
  obtain a w1 where a: "git [''diff'', ''--cached'', ''--quiet''] w = (a, w1)" by force
  have p1: "P w1" by (rule keptD [OF k a]) (simp_all add: p)
  obtain b w2 where b: "git_ok (with_identity git) cwd [''commit'', ''-m'', commit_message m ts] w1 = (b, w2)" by force
  have p2: "P w2" by (rule kept_ok [OF kept_identity [OF k] b]) (simp_all add: p1)
  from c a b p1 p2 kept_revision [OF k _ p2] show ?thesis
    by (auto simp: commit_staged_def split: if_splits sum.splits prod.splits)
qed


text \<open>A git that records what it is asked; the status names a dirty lock file and a source.\<close>

definition recording_git :: "string list list git" where
  "recording_git args calls =
     (\<lparr>ga_ok = args \<noteq> [''diff'', ''--cached'', ''--quiet''], ga_timed_out = False,
       ga_stdout = (if take 1 args = [''status''] then '' M a.lock'' @ newline @ ''?? b.ts'' @ newline else ''abc''), ga_stderr = []\<rparr>,
      calls @ [args])"


text \<open>The exclusions are compared literally here, as globs where a run is admitted.\<close>

lemma glob_exclusion_committed:
  "committable [''*.lock''] ''a.lock''" by (simp add: committable_def prefix_def)

end
