(* ===== verification/Driver.thy ===== *)
theory Driver
  imports Sweep Executor Planning Scheduler Git
begin

text \<open>
  The sequential driver of an apply run, \<^verbatim>\<open>packages/runtime/src/apply.ts\<close>: the transitions of the live
  state and the events they append, replanning, and one execution of a task with its budget,
  persistence, write-scope check, attribution and commit. It is the runtime the scheduler is
  given. The provider, git and the shell are parameters; a thrown error is a value.
\<close>

section \<open>State\<close>

record driver_env =
  de_sweep :: "checkout sweep_env"
  de_exec :: exec_env
  de_provider :: "string option"
  de_model :: "string \<Rightarrow> string option"
  de_ask :: "nat \<Rightarrow> string option \<Rightarrow> checkout \<Rightarrow> (string, replan_answer) result \<times> checkout"
  de_git :: "checkout git"
  de_is_dir :: "(string \<Rightarrow> bool) option"
  de_ir :: spec_ir
  de_meta :: run_meta
  de_revision :: string
  de_suites :: suite_registry
  de_max_model_calls :: nat
  de_max_replans :: nat
  de_max_retries :: int
  de_commit_per_task :: bool
  de_proceed :: bool
  de_tiered :: bool
  de_high_risk :: "string list"
  de_protected :: "string list"

text \<open>
  The context of a run. \<open>dr_ids\<close> are the keys of the task map in the order they were added;
  the attribution file is absent or an object; the other fields are what the run wrote to disk.
\<close>

record driver =
  dr_stores :: "checkout run_stores"
  dr_observations :: observation_store
  dr_state :: run_state
  dr_ids :: "string list"
  dr_plan :: plan
  dr_model_calls :: nat
  dr_attribution :: "(string \<times> attribution_write list) list option"
  dr_cancelled :: bool
  dr_saved :: "run_state option"
  dr_versions :: "plan list"
  dr_amendments :: "(string \<times> plan_amendment) list"

definition run_of :: "driver_env \<Rightarrow> string" where "run_of env = meta_run_id (de_meta env)"

definition record_event :: "driver_env \<Rightarrow> event_type \<Rightarrow> (string \<times> json) list \<Rightarrow> driver \<Rightarrow> driver" where
  "record_event env ty payload d = d\<lparr>dr_stores := emit (de_sweep env) ty payload (dr_stores d)\<rparr>"

definition raise_draft :: "driver_env \<Rightarrow> followup_draft \<Rightarrow> driver \<Rightarrow> followup \<times> driver" where
  "raise_draft env draft d =
     (case create_followup (de_sweep env) draft (dr_stores d) of (f, s) \<Rightarrow> (f, d\<lparr>dr_stores := s\<rparr>))"

definition set_live :: "string \<Rightarrow> task_state \<Rightarrow> driver \<Rightarrow> driver" where
  "set_live tid t d = d\<lparr>dr_state := set_task (dr_state d) tid t, dr_ids := set_add tid (dr_ids d)\<rparr>"

definition persist :: "driver \<Rightarrow> driver" where "persist d = d\<lparr>dr_saved := Some (dr_state d)\<rparr>"

definition live :: "driver \<Rightarrow> string \<Rightarrow> task_state option" where "live d = run_tasks (dr_state d)"

definition world :: "driver \<Rightarrow> checkout" where "world d = st_world (dr_stores d)"

definition set_world :: "checkout \<Rightarrow> driver \<Rightarrow> driver" where
  "set_world w d = d\<lparr>dr_stores := (dr_stores d)\<lparr>st_world := w\<rparr>\<rparr>"

section \<open>Transitions\<close>

text \<open>A recorded failure survives the transitions that carry none, a revision a completion.\<close>

definition kept_failure :: "task_state option \<Rightarrow> task_state \<Rightarrow> task_state" where
  "kept_failure previous next =
     (case Option.bind previous ts_failure of
        Some f \<Rightarrow> if ts_failure next = None then next\<lparr>ts_failure := Some f\<rparr> else next
      | None \<Rightarrow> next)"

definition kept_revision :: "task_state option \<Rightarrow> task_state \<Rightarrow> task_state" where
  "kept_revision previous next =
     (case when_truthy (Option.bind previous ts_revision) of Some r \<Rightarrow> next\<lparr>ts_revision := Some r\<rparr> | None \<Rightarrow> next)"

definition task_payload :: "string \<Rightarrow> task_state \<Rightarrow> (string \<times> json) list" where
  "task_payload tid t = [(''taskId'', JString tid), (''attempt'', JNum (ts_attempt t))]"

definition failure_or :: "string \<Rightarrow> string \<Rightarrow> task_state \<Rightarrow> json" where
  "failure_or code message t =
     (case ts_failure t of Some f \<Rightarrow> f | None \<Rightarrow> failure_json \<lparr>failure_code = code, failure_message = message\<rparr>)"

definition transition :: "driver_env \<Rightarrow> string \<Rightarrow> task_state \<Rightarrow> string option \<Rightarrow> driver \<Rightarrow> driver" where
  "transition env tid given summary d =
     (let previous = live d tid;
          next = kept_failure previous given;
          p = task_payload tid next;
          d1 = set_live tid next d
      in persist
        (case ts_status next of
           Ready \<Rightarrow> record_event env TASK_READY p d1
         | TaskRunning \<Rightarrow> record_event env TASK_STARTED p (record_event env TASK_READY p d1)
         | Completed \<Rightarrow> record_event env TASK_COMPLETED
             (p @ [(''summary'', JString (case summary of Some s \<Rightarrow> s | None \<Rightarrow> ''task completed''))]
                @ (if ts_empty_delta next = Some True then [(''emptyDeltaAfterPriorFailure'', JBool True)] else []))
             (set_live tid (kept_revision previous next) d1)
         | TaskFailed \<Rightarrow> record_event env TASK_FAILED (p @ [(''error'', failure_or ''TASK_FAILED'' ''failed'' next)]) d1
         | TaskBlocked \<Rightarrow> record_event env TASK_BLOCKED (p @ [(''error'', failure_or ''TASK_BLOCKED'' ''blocked'' next)]) d1
         | NeedsReplan \<Rightarrow> record_event env TASK_NEEDS_REPLAN p d1
         | _ \<Rightarrow> d1))"

section \<open>Usage\<close>

definition record_usage :: "driver_env \<Rightarrow> string \<Rightarrow> string \<Rightarrow> string option \<Rightarrow> driver \<Rightarrow> driver" where
  "record_usage env role request model d =
     (let s = dr_stores d in
      record_event env USAGE_RECORDED
        (present [(''role'', Some (JString role)), (''requestId'', Some (JString request)), (''model'', map_option JString model)])
        (d\<lparr>dr_state := (dr_state d)\<lparr>run_model_calls := dr_model_calls d\<rparr>,
           dr_stores := s\<lparr>st_usage := st_usage s @ [\<lparr>us_role = role, us_request_id = request, us_model = model\<rparr>]\<rparr>\<rparr>))"

section \<open>Replanning\<close>

definition blocking_followup :: "driver_env \<Rightarrow> followup_type \<Rightarrow> string \<Rightarrow> string \<Rightarrow> (string \<times> json) list \<Rightarrow> driver \<Rightarrow> driver" where
  "blocking_followup env ty title description extra d =
     (case raise_draft env
         \<lparr>fu_type = ty, fu_blocking = True, fu_title = title, fu_description = description, fu_property_id = None,
          fu_task_id = None, fu_options = None, fu_recommended_default = None, fu_criterion_id = None, fu_command = None\<rparr> d of
        (f, d1) \<Rightarrow> record_event env FOLLOWUP_CREATED
          ([(''followupId'', JString (fu_id f)), (''blocking'', JBool True), (''type'', JString (followup_type_text ty))] @ extra) d1)"

definition fail_replan :: "driver_env \<Rightarrow> string \<Rightarrow> driver \<Rightarrow> driver" where
  "fail_replan env reason = blocking_followup env ReplanFollowup ''Replanning failed during task execution'' reason []"

fun operation_text :: "amendment_operation \<Rightarrow> string" where
  "operation_text (AddTask _) = ''addTask''" | "operation_text (RemoveTask _) = ''removeTask''"
| "operation_text (ReplaceTask _ _) = ''replaceTask''" | "operation_text (AddDependency _ _) = ''addDependency''"
| "operation_text (ChangeTarget _ _) = ''changeTarget''"

text \<open>\<open>maybeGateAmendment\<close>: the follow-up, when the amendment is gated behind one.\<close>

definition gate_amendment :: "driver_env \<Rightarrow> plan_amendment \<Rightarrow> driver \<Rightarrow> driver option" where
  "gate_amendment env am d =
     (case classify_amendment_risk am (de_high_risk env) of
        (risk, reasons) \<Rightarrow>
          if \<not> de_tiered env \<or> risk \<noteq> HighRiskAmendment then None
          else Some (blocking_followup env Approval (''Approve high-risk plan amendment ('' @ am_reason am @ '')'')
            (''Risk: high. Reasons: '' @ join_with ''; '' reasons @ ''. Operations: ''
              @ join_with '', '' (map operation_text (am_operations am))
              @ ''. Resolve with --option approve, then edit .spc/config.yaml or use --force to proceed if needed.'')
            [(''amendmentRisk'', JString ''high'')] d))"

definition concerns :: "string \<Rightarrow> observation \<Rightarrow> bool" where
  "concerns tid o' \<longleftrightarrow> ob_task_id o' = Some tid
     \<or> tid \<in> set (case ob_invalidates o' of None \<Rightarrow> [] | Some i \<Rightarrow> opt_list (inv_task_ids i))"

definition executed_ids :: "driver \<Rightarrow> string list" where
  "executed_ids d = filter (\<lambda>tid. case live d tid of
       None \<Rightarrow> False | Some t \<Rightarrow> ts_status t = Completed \<or> ts_status t = TaskRunning) (dr_ids d)"

definition amendment_id :: "driver \<Rightarrow> string" where
  "amendment_id d = ''AM-'' @ pad_start 3 CHR ''0'' (show_nat (run_replans (dr_state d) + 1))"

text \<open>The language model, asked with the driver as its world; an answer is accounted for.\<close>

definition ask_replanner :: "driver_env \<Rightarrow> nat \<Rightarrow> string option \<Rightarrow> driver \<Rightarrow> (string, replan_answer) result \<times> driver" where
  "ask_replanner env n repair d =
     (case de_ask env n repair (world d) of
        (Inl e, w) \<Rightarrow> (Inl e, set_world w d)
      | (Inr answer, w) \<Rightarrow>
          (let request = sv_uuid (de_sweep env) (st_tick (dr_stores d))
           in (Inr answer, record_usage env ''replanner'' request (de_model env request) (set_world w d))))"

definition redispatch :: "driver_env \<Rightarrow> string \<Rightarrow> driver \<Rightarrow> driver" where
  "redispatch env tid d =
     (case live d tid of
        None \<Rightarrow> d
      | Some t \<Rightarrow>
          if ts_status t = NeedsReplan
          then record_event env TASK_READY (task_payload tid t @ [(''redispatch'', JString ''amended'')])
                 (set_live tid (t\<lparr>ts_status := Pending\<rparr>) d)
          else d)"

definition plan_amended_payload :: "driver_env \<Rightarrow> plan_amendment \<Rightarrow> plan \<Rightarrow> string list \<Rightarrow> string list \<Rightarrow> (string \<times> json) list" where
  "plan_amended_payload env am p removed added =
     [(''amendmentId'', JString (am_id am)), (''planDigest'', JString (plan_digest (sv_sha (de_sweep env)) p)),
      (''removedTaskIds'', strings_json removed), (''addedTaskIds'', strings_json added),
      (''operations'', strings_json (map operation_text (am_operations am)))]"

definition task_ids :: "plan \<Rightarrow> string list" where "task_ids p = dedup (map task_id (plan_tasks p))"

definition adopt_amendment :: "driver_env \<Rightarrow> plan_amendment \<Rightarrow> plan \<Rightarrow> driver \<Rightarrow> driver" where
  "adopt_amendment env am p d =
     (let old = task_ids (dr_plan d);
          added = filter (\<lambda>tid. tid \<notin> set old) (task_ids p);
          removed = filter (\<lambda>tid. tid \<notin> set (task_ids p)) old;
          d1 = d\<lparr>dr_versions := dr_versions d @ [dr_plan d], dr_amendments := dr_amendments d @ [(am_id am @ ''.json'', am)]\<rparr>;
          d2 = fold (\<lambda>tid. set_live tid (bare_task tid Pending 0)) added d1;
          d3 = fold (\<lambda>t. redispatch env (task_id t)) (plan_tasks p) d2;
          d4 = record_event env PLAN_AMENDED (plan_amended_payload env am p removed added) (d3\<lparr>dr_plan := p\<rparr>)
      in persist (d4\<lparr>dr_state := (dr_state d4)\<lparr>run_replans := run_replans (dr_state d4) + 1\<rparr>\<rparr>))"

definition replan_request :: "driver_env \<Rightarrow> string list \<Rightarrow> driver \<Rightarrow> replan_input" where
  "replan_request env refs d =
     \<lparr>ri_ir = de_ir env, ri_repo = de_is_dir env, ri_plan = dr_plan d, ri_executed = executed_ids d,
      ri_observations = (if refs = [] then [''OBS-implicit''] else refs), ri_amendment_id = amendment_id d\<rparr>"

text \<open>An error without a code has the empty one.\<close>

definition uncoded :: "string \<Rightarrow> task_failure" where
  "uncoded message = \<lparr>failure_code = [], failure_message = message\<rparr>"

definition on_needs_replan :: "driver_env \<Rightarrow> string \<Rightarrow> driver \<Rightarrow> (task_failure, bool) result \<times> driver" where
  "on_needs_replan env tid d =
     (let refs = map ob_id (filter (concerns tid) (os_records (dr_observations d)));
          d1 = record_event env REPLAN_REQUESTED [(''taskId'', JString tid), (''observationIds'', strings_json refs)] d
      in if de_provider env = None then (Inr False, fail_replan env ''no provider configured for replanning'' d1)
         else if de_max_replans env \<le> run_replans (dr_state d1)
         then (Inr False, fail_replan env (''replan budget exhausted ('' @ show_nat (de_max_replans env) @ '')'') d1)
         else
           (case generate_amendment (replan_request env refs d1)
                   (\<lambda>n. sv_clock (de_sweep env) (st_tick (dr_stores d1) + n)) (ask_replanner env) d1 of
              (Inl e, d2) \<Rightarrow> (Inl (uncoded e), d2)
            | (Inr g, d2) \<Rightarrow>
                (case gen_result g of
                   None \<Rightarrow> (Inr False, fail_replan env
                     (''amendment generation failed: '' @ format_diagnostics (gen_diagnostics g) None) d2)
                 | Some (am, p) \<Rightarrow>
                     (case gate_amendment env am d2 of
                        Some d3 \<Rightarrow> (Inr False, d3\<lparr>dr_amendments := dr_amendments d3 @ [(am_id am @ ''.gated.json'', am)]\<rparr>)
                      | None \<Rightarrow> (Inr True, adopt_amendment env am p d2)))))"

section \<open>One execution\<close>

definition empty_result :: "executor_status \<Rightarrow> string \<Rightarrow> executor_result" where
  "empty_result status summary = \<lparr>xr_status = status, xr_summary = summary, xr_changes = [], xr_commands = Some [],
     xr_observations = [], xr_candidates = [], xr_followups = [], xr_failure = None, xr_replan_reason = None\<rparr>"

definition plain_outcome :: "executor_status \<Rightarrow> task \<Rightarrow> string \<Rightarrow> task_failure option \<Rightarrow> task_outcome" where
  "plain_outcome status t summary failure =
     \<lparr>eo_task_id = task_id t, eo_status = status, eo_summary = summary, eo_result = empty_result status summary,
      eo_applied = [], eo_commands = None, eo_attribution = [], eo_failure = failure\<rparr>"

definition failed_outcome :: "task \<Rightarrow> string \<Rightarrow> string \<Rightarrow> task_outcome" where
  "failed_outcome t code message = plain_outcome XFailed t message (Some \<lparr>failure_code = code, failure_message = message\<rparr>)"

definition budget_outcome :: "driver_env \<Rightarrow> task \<Rightarrow> task_outcome" where
  "budget_outcome env t = plain_outcome XFailed t ''model call budget exhausted''
     (Some \<lparr>failure_code = ''MODEL_BUDGET_EXCEEDED'', failure_message = ''maxModelCalls='' @ show_nat (de_max_model_calls env)\<rparr>)"

text \<open>\<open>taskScopeDelta\<close>: what changed since a snapshot, the tool's own state left out.\<close>

definition task_scope_delta :: "runner \<Rightarrow> content_snapshot \<Rightarrow> checkout \<Rightarrow> (string \<times> content_change) list" where
  "task_scope_delta r before w =
     filter (\<lambda>(p, _). \<not> list_ex (\<lambda>pre. prefix pre p) spc_state_prefixes)
       (content_delta before (snapshot_of r w) (Some (\<lambda>p. co_index w p \<noteq> None)))"

definition scope_violations :: "driver_env \<Rightarrow> task \<Rightarrow> string list \<Rightarrow> scope_violation list" where
  "scope_violations env t paths =
     enforce_protected_paths (de_protected env) paths @ enforce_write_scope (task_write_targets t) paths"

definition violating_outcome :: "task \<Rightarrow> scope_violation \<Rightarrow> task_outcome" where
  "violating_outcome t v =
     (let f = violation_failure (task_write_targets t) v in failed_outcome t (failure_code f) (failure_message f))"

definition revert_violations :: "scope_violation list \<Rightarrow> driver \<Rightarrow> driver" where
  "revert_violations vs d = (if vs = [] then d else set_world (revert_paths (map sv_path vs) (world d)) d)"

subsection \<open>A verify task\<close>

fun sweep_failure :: "sweep_error \<Rightarrow> task_failure" where
  "sweep_failure (SuiteUnknown ref cid) = \<lparr>failure_code = ''SPC_SUITE_UNKNOWN'',
     failure_message = ''criterion '' @ cid @ '' references suite '' @ in_quotes ref @ '' which is not defined under suites/''\<rparr>"
| "sweep_failure (SuiteUnresolved message) = \<lparr>failure_code = ''SPC_SUITE_UNRESOLVED'', failure_message = message\<rparr>"
| "sweep_failure (Thrown message) = uncoded message"

definition run_revision :: "driver_env \<Rightarrow> driver \<Rightarrow> (task_failure, string) result \<times> driver" where
  "run_revision env d =
     (case current_revision (de_git env) (sv_cwd (de_sweep env)) (world d) of (r, w) \<Rightarrow> (r, set_world w d))"

definition commit_changes ::
  "driver_env \<Rightarrow> string \<Rightarrow> (string \<times> string) list \<Rightarrow> string list option \<Rightarrow> checkout \<Rightarrow> (task_failure, string option) result \<times> checkout" where
  "commit_changes env message trailers exclude w =
     commit_all (de_git env) (sv_cwd (de_sweep env)) message trailers exclude w"

definition sweep_request_of :: "driver_env \<Rightarrow> desired_property list \<Rightarrow> string option \<Rightarrow> string \<Rightarrow> (string \<times> string) list \<Rightarrow> sweep_request" where
  "sweep_request_of env ps tid revision flips =
     \<lparr>sq_properties = ps, sq_task_id = tid, sq_red = False, sq_enforce_red = True, sq_environment_ready = True,
      sq_inherited = flips, sq_suites = Some (de_suites env), sq_revision = revision, sq_shared = False, sq_report_usage = True\<rparr>"

text \<open>A sweep over the stores; the usage it reports brings the live count up to date.\<close>

definition sweep :: "driver_env \<Rightarrow> sweep_request \<Rightarrow> driver \<Rightarrow> (sweep_error, requirement_state list) result \<times> driver" where
  "sweep env q d =
     (case verify_properties (de_sweep env) q (dr_stores d) of
        (r, s) \<Rightarrow>
          (r, d\<lparr>dr_stores := s,
                dr_state := (if st_usage s = st_usage (dr_stores d) then dr_state d
                             else (dr_state d)\<lparr>run_model_calls := dr_model_calls d\<rparr>)\<rparr>))"

definition merge_requirements :: "requirement_state list \<Rightarrow> driver \<Rightarrow> driver" where
  "merge_requirements sts d =
     d\<lparr>dr_state := (dr_state d)\<lparr>run_requirements := foldl (\<lambda>m st. m(rs_property_id st \<mapsto> st)) (run_requirements (dr_state d)) sts\<rparr>\<rparr>"

definition sweep_summary :: "requirement_state list \<Rightarrow> string" where
  "sweep_summary sts = ''verification: ''
     @ join_with '', '' (map (\<lambda>st. rs_property_id st @ ''='' @ requirement_status_text (rs_status st)) sts)"

definition verify_task :: "driver_env \<Rightarrow> task \<Rightarrow> content_snapshot \<Rightarrow> driver \<Rightarrow> (task_failure, task_outcome) result \<times> driver" where
  "verify_task env t before d =
     (case run_revision env d of
        (Inl e, d0) \<Rightarrow> (Inl e, d0)
      | (Inr revision, d0) \<Rightarrow>
          (case sweep env (sweep_request_of env
                  (filter (\<lambda>p. dp_id p \<in> set (opt_list (task_verifies t))) (ir_properties (de_ir env)))
                  (Some (task_id t)) revision []) d0 of
             (Inl e, d1) \<Rightarrow> (Inl (sweep_failure e), d1)
           | (Inr sts, d1) \<Rightarrow>
               (let d2 = merge_requirements sts d1;
                    vs = scope_violations env t (map fst (task_scope_delta (xe_runner (de_exec env)) before (world d2)))
                in case vs of
                     v # _ \<Rightarrow> (Inr (violating_outcome t v), revert_violations vs d2)
                   | [] \<Rightarrow> (Inr (plain_outcome XCompleted t (sweep_summary sts) None), d2))))"

subsection \<open>The executor\<close>

text \<open>An answer that does not meet the schema of the request is refused by the provider.\<close>

definition checked_exec :: "driver_env \<Rightarrow> exec_env" where
  "checked_exec env = (de_exec env)\<lparr>xe_provider := \<lambda>q w.
     (case xe_provider (de_exec env) q w of
        (Inr r, w1) \<Rightarrow>
          if list_all anchored (xr_changes r) then (Inr r, w1)
          else (Inl \<lparr>failure_code = ''LLM_INVALID_STRUCTURED_OUTPUT'', failure_message = ''model output failed schema validation''\<rparr>, w1)
      | (Inl e, w1) \<Rightarrow> (Inl e, w1))\<rparr>"

definition attribution_of :: "driver \<Rightarrow> string \<Rightarrow> attribution_write list" where
  "attribution_of d tid =
     (case Option.bind (dr_attribution d) (\<lambda>m. map_of m tid) of Some ws \<Rightarrow> ws | None \<Rightarrow> [])"

definition changed_file :: "string \<Rightarrow> event \<Rightarrow> bool" where
  "changed_file tid e \<longleftrightarrow> e_type e = FILE_CHANGED \<and> payload_names e tid"

definition input_of :: "driver_env \<Rightarrow> task \<Rightarrow> int \<Rightarrow> driver \<Rightarrow> exec_input" where
  "input_of env t attempt d =
     \<lparr>xi_task = t, xi_revision = de_revision env, xi_attempt = attempt,
      xi_prior_rejections = staging_rounds_from (log_of (dr_stores d)) (task_id t) attempt,
      xi_attribution = attribution_of d (task_id t), xi_store_exists = Some (dr_attribution d \<noteq> None),
      xi_prior_work = Some (list_ex (changed_file (task_id t)) (log_of (dr_stores d))), xi_commands_configured = True\<rparr>"

fun record_notice :: "driver_env \<Rightarrow> task \<Rightarrow> int \<Rightarrow> notice \<Rightarrow> driver \<Rightarrow> driver" where
  "record_notice env t attempt (Used request code) d =
     record_usage env ''executor'' request (if code = None then de_model env request else Some ''unknown'') d"
| "record_notice env t attempt (StageRejected code message) d =
     record_event env TASK_STAGE_REJECTED [(''taskId'', JString (task_id t)), (''attempt'', JNum attempt),
       (''code'', JString code), (''message'', JString message)] d"
| "record_notice env t attempt (SubmissionRefused code message ps) d =
     record_event env TASK_SUBMISSION_REFUSED [(''taskId'', JString (task_id t)), (''attempt'', JNum attempt),
       (''code'', JString code), (''message'', JString message), (''paths'', strings_json ps)] d"

definition record_observation :: "driver_env \<Rightarrow> task \<Rightarrow> observation_draft \<Rightarrow> driver \<Rightarrow> driver" where
  "record_observation env t draft d =
     (case observation_add (dr_observations d) draft (Some (task_id t)) (run_of env) of
        (store, o') \<Rightarrow>
          record_event env OBSERVATION_RECORDED
            [(''observationId'', JString (ob_id o')), (''taskId'', JString (task_id t)),
             (''type'', JString (observation_type_text (ob_type o'))), (''statement'', JString (ob_statement o')),
             (''invalidates'', case ob_invalidates o' of None \<Rightarrow> JObject [] | Some i \<Rightarrow> invalidates_json i)]
            (d\<lparr>dr_observations := store\<rparr>))"

definition record_candidate :: "driver_env \<Rightarrow> task \<Rightarrow> string \<times> string \<Rightarrow> driver \<Rightarrow> driver" where
  "record_candidate env t c d =
     (case add_evidence (de_sweep env)
         \<lparr>ev_id = [], ev_run_id = run_of env, ev_task_id = Some (task_id t), ev_criterion_id = None, ev_property_refs = [fst c],
          ev_kind = EvAgent, ev_outcome = Supports, ev_producer = (ByAgent, de_provider env),
          ev_timestamp = now_of (de_sweep env) (dr_stores d), ev_revision = de_revision env, ev_red = False, ev_chain = None,
          ev_payload = JObject [(''informationalClaim'', JString (snd c))], ev_digest = []\<rparr> (tick (dr_stores d)) of
        (e, s) \<Rightarrow>
          record_event env EVIDENCE_RECORDED
            [(''evidenceId'', JString (ev_id e)), (''propertyRefs'', strings_json (ev_property_refs e)),
             (''kind'', JString ''agent''), (''outcome'', JString ''supports'')]
            (d\<lparr>dr_stores := s\<rparr>))"

definition record_draft :: "driver_env \<Rightarrow> (string \<times> json) list \<Rightarrow> followup_draft \<Rightarrow> driver \<Rightarrow> driver" where
  "record_draft env extra draft d =
     (case raise_draft env draft d of
        (f, d1) \<Rightarrow> record_event env FOLLOWUP_CREATED
          ([(''followupId'', JString (fu_id f)), (''blocking'', JBool (fu_blocking f)),
            (''type'', JString (followup_type_text (fu_type f)))] @ extra) d1)"

text \<open>A task blocked on clarifications only, under the policy that proceeds on them, is failed for a retry.\<close>

definition proceeds :: "driver_env \<Rightarrow> task_outcome \<Rightarrow> bool" where
  "proceeds env out \<longleftrightarrow> eo_status out = XBlocked \<and> de_proceed env \<and> xr_followups (eo_result out) \<noteq> []
     \<and> list_all (\<lambda>f. fu_type f = SpecClarification) (xr_followups (eo_result out))"

definition demote :: "driver_env \<Rightarrow> task \<Rightarrow> task_outcome \<Rightarrow> driver \<Rightarrow> task_outcome \<times> driver" where
  "demote env t out d =
     (failed_outcome t ''CLARIFICATION_PROCEED''
        ''open clarification follow-ups are non-blocking in this run: proceed using their recommendedDefault (or the smallest defensible choice) and record the decision as an observation'',
      fold (record_observation env t) (xr_observations (eo_result out))
        (fold (\<lambda>f. record_draft env [(''demoted'', JBool True), (''retryGuidance'', JString ''CLARIFICATION_PROCEED'')] (f\<lparr>fu_blocking := False\<rparr>))
           (xr_followups (eo_result out)) d))"

definition persist_result :: "driver_env \<Rightarrow> task \<Rightarrow> executor_result \<Rightarrow> driver \<Rightarrow> driver" where
  "persist_result env t r d =
     fold (record_draft env []) (xr_followups r)
       (fold (record_candidate env t) (xr_candidates r)
          (fold (record_observation env t) (xr_observations r) d))"

subsection \<open>After the execution\<close>

fun change_text :: "content_change \<Rightarrow> string" where
  "change_text ContentCreated = ''created''" | "change_text ContentModified = ''modified''" | "change_text ContentDeleted = ''deleted''"

definition record_change :: "driver_env \<Rightarrow> task \<Rightarrow> string \<times> content_change \<Rightarrow> driver \<Rightarrow> driver" where
  "record_change env t c d = record_event env FILE_CHANGED
     [(''taskId'', JString (task_id t)), (''path'', JString (fst c)), (''change'', JString (change_text (snd c)))] d"

text \<open>The attribution file is read, extended by the writes not yet in it, and written.\<close>

definition extend_attribution :: "task \<Rightarrow> attribution_write list \<Rightarrow> driver \<Rightarrow> driver" where
  "extend_attribution t ws d =
     (if ws = [] then d
      else
        (let prior = attribution_of d (task_id t);
             seen = map (\<lambda>w. (aw_path w, aw_digest w)) prior;
             new = filter (\<lambda>w. (aw_path w, aw_digest w) \<notin> set seen) ws
         in d\<lparr>dr_attribution := Some (map_set (task_id t) (prior @ new)
                (case dr_attribution d of Some m \<Rightarrow> m | None \<Rightarrow> []))\<rparr>))"

definition diff_evidence :: "driver_env \<Rightarrow> task \<Rightarrow> evidence_outcome \<Rightarrow> json \<Rightarrow> driver \<Rightarrow> driver" where
  "diff_evidence env t outcome payload d =
     (case add_evidence (de_sweep env)
         \<lparr>ev_id = [], ev_run_id = run_of env, ev_task_id = Some (task_id t), ev_criterion_id = None,
          ev_property_refs = opt_list (task_satisfies t), ev_kind = EvDiff, ev_outcome = outcome, ev_producer = (ByRuntime, None),
          ev_timestamp = now_of (de_sweep env) (dr_stores d), ev_revision = de_revision env, ev_red = False, ev_chain = None,
          ev_payload = payload, ev_digest = []\<rparr> (tick (dr_stores d)) of
        (_, s) \<Rightarrow> d\<lparr>dr_stores := s\<rparr>)"

definition violations_json :: "task \<Rightarrow> scope_violation list \<Rightarrow> json" where
  "violations_json t vs = JObject [(''violations'', JArray (map (\<lambda>v. JObject
     [(''path'', JString (sv_path v)), (''code'', JString (violation_text (sv_code v))),
      (''reason'', JString (violation_reason (task_write_targets t) v))]) vs))]"

definition changes_json :: "(string \<times> content_change) list \<Rightarrow> json" where
  "changes_json delta = JObject [(''changedPaths'', JObject (map (\<lambda>(p, c). (p, JString (change_text c))) delta))]"

definition task_trailers :: "driver_env \<Rightarrow> task \<Rightarrow> (string \<times> string) list" where
  "task_trailers env t =
     [(''SPC-Run-Id'', run_of env), (''SPC-Task-Id'', task_id t), (''SPC-Spec-Digest'', ir_digest (de_ir env))]"

definition commit_task :: "driver_env \<Rightarrow> task \<Rightarrow> int \<Rightarrow> driver \<Rightarrow> (task_failure, unit) result \<times> driver" where
  "commit_task env t attempt d =
     (case commit_changes env (''spc: task '' @ task_id t @ '' (run '' @ run_of env @ '')'') (task_trailers env t) None (world d) of
        (Inl e, w) \<Rightarrow> (Inl e, set_world w d)
      | (Inr None, w) \<Rightarrow> (Inr (), set_world w d)
      | (Inr (Some revision), w) \<Rightarrow>
          (let d1 = set_world w d;
               prior = (case live d1 (task_id t) of Some x \<Rightarrow> x | None \<Rightarrow> bare_task (task_id t) TaskRunning attempt)
           in (Inr (), record_event env TASK_COMMITTED
                 [(''taskId'', JString (task_id t)), (''revision'', JString revision), (''attempt'', JNum attempt)]
                 (set_live (task_id t) (prior\<lparr>ts_revision := Some revision\<rparr>) d1))))"

definition settle_execution ::
  "driver_env \<Rightarrow> task \<Rightarrow> int \<Rightarrow> content_snapshot \<Rightarrow> task_outcome \<Rightarrow> driver \<Rightarrow> (task_failure, task_outcome) result \<times> driver" where
  "settle_execution env t attempt before out d =
     (let delta = task_scope_delta (xe_runner (de_exec env)) before (world d);
          vs = scope_violations env t (map fst delta);
          d1 = extend_attribution t (eo_attribution out) (fold (record_change env t) delta d);
          d2 = revert_violations vs d1
      in if vs \<noteq> [] \<and> eo_status out = XCompleted
         then (Inr (violating_outcome t (hd vs)), diff_evidence env t Contradicts (violations_json t vs) d2)
         else if delta = [] then (Inr out, d2)
         else
           (let d3 = diff_evidence env t Supports (changes_json delta) d2
            in if de_commit_per_task env \<and> eo_status out = XCompleted
               then (case commit_task env t attempt d3 of (Inl e, d4) \<Rightarrow> (Inl e, d4) | (Inr _, d4) \<Rightarrow> (Inr out, d4))
               else (Inr out, d3)))"

text \<open>What a thrown error of the executor becomes: a retired request blocks, the rest fails the task.\<close>

definition thrown_outcome :: "driver_env \<Rightarrow> task \<Rightarrow> int \<Rightarrow> task_failure \<Rightarrow> driver \<Rightarrow> task_outcome \<times> driver" where
  "thrown_outcome env t attempt e d =
     (if failure_code e = ''REQUEST_RETIRED''
      then (plain_outcome XBlocked t (failure_message e) (Some e),
            record_event env TASK_BLOCKED
              [(''taskId'', JString (task_id t)), (''attempt'', JNum attempt), (''error'', failure_json e)] d)
      else (failed_outcome t (if failure_code e = [] then ''EXECUTOR_ERROR'' else failure_code e) (failure_message e), d))"

definition run_executor ::
  "driver_env \<Rightarrow> task \<Rightarrow> int \<Rightarrow> content_snapshot \<Rightarrow> driver \<Rightarrow> ((task_failure, task_outcome) result \<times> driver) option" where
  "run_executor env t attempt before d =
     map_option (\<lambda>(answer, notices, w).
         let d1 = fold (record_notice env t attempt) notices (set_world w d)
         in case answer of
              Inl e \<Rightarrow> (case thrown_outcome env t attempt e d1 of (out, d2) \<Rightarrow> (Inr out, d2))
            | Inr out \<Rightarrow>
                if proceeds env out then (case demote env t out d1 of (out', d2) \<Rightarrow> (Inr out', d2))
                else settle_execution env t attempt before out (persist_result env t (eo_result out) d1))
       (execute_task (checked_exec env) (input_of env t attempt d) (world d))"

definition reserve :: "task \<Rightarrow> driver \<Rightarrow> driver" where
  "reserve t d = (if task_kind t = Verify then d else d\<lparr>dr_model_calls := dr_model_calls d + 1\<rparr>)"

definition execute_in_run ::
  "driver_env \<Rightarrow> task \<Rightarrow> int \<Rightarrow> driver \<Rightarrow> ((task_failure, task_outcome) result \<times> driver) option" where
  "execute_in_run env t attempt d =
     (if de_max_model_calls env \<le> dr_model_calls d then Some (Inr (budget_outcome env t), d)
      else
        (let d1 = reserve t d; before = snapshot_of (xe_runner (de_exec env)) (world d1)
         in if task_kind t = Verify then Some (verify_task env t before d1)
            else if de_provider env = None
            then Some (Inr (failed_outcome t ''NO_PROVIDER'' ''no LLM provider configured for execution''), d1)
            else run_executor env t attempt before d1))"

section \<open>The runtime of the scheduler\<close>

fun outcome_status_of :: "executor_status \<Rightarrow> outcome_status" where
  "outcome_status_of XCompleted = OutCompleted" | "outcome_status_of XFailed = OutFailed"
| "outcome_status_of XBlocked = OutBlocked" | "outcome_status_of XNeedsReplan = OutNeedsReplan"

definition outcome_for :: "task_outcome \<Rightarrow> execution_outcome" where
  "outcome_for out = \<lparr>oc_status = outcome_status_of (eo_status out), oc_summary = eo_summary out,
     oc_applied = eo_applied out, oc_failure = eo_failure out\<rparr>"

text \<open>A retired request is the cancellation signal: nothing is launched after it.\<close>

definition retired :: "task_outcome \<Rightarrow> bool" where
  "retired out \<longleftrightarrow> map_option failure_code (eo_failure out) = Some ''REQUEST_RETIRED''"

definition driver_execute ::
  "driver_env \<Rightarrow> task \<Rightarrow> int \<Rightarrow> json option \<Rightarrow> driver \<Rightarrow> ((task_failure, execution_outcome) result \<times> driver) option" where
  "driver_execute env t attempt context d =
     map_option (\<lambda>(result, d1).
         case result of
           Inl e \<Rightarrow> (Inl e, d1)
         | Inr out \<Rightarrow> (Inr (outcome_for out), if retired out then d1\<lparr>dr_cancelled := True\<rparr> else d1))
       (execute_in_run env t attempt d)"

definition driver_io :: "driver_env \<Rightarrow> driver scheduler_io" where
  "driver_io env =
     \<lparr>io_cancelled = dr_cancelled, io_plan = dr_plan, io_task_state = live, io_transition = transition env,
      io_execute = driver_execute env, io_replan = on_needs_replan env, io_max_retries = de_max_retries env,
      io_clock = (\<lambda>d. now_of (de_sweep env) (dr_stores d))\<rparr>"

text \<open>\<open>driveRun\<close> up to the shared tail: the outcome of the scheduler and the failed tasks.\<close>

definition drive_run :: "driver_env \<Rightarrow> driver \<Rightarrow> (scheduler_outcome \<times> string list \<times> driver) option" where
  "drive_run env d = run_scheduler (driver_io env) ([], d)"

section \<open>What the operations leave alone\<close>

text \<open>The events that move a task in the projection of the log.\<close>

definition moved :: "event_type \<Rightarrow> (string \<times> json) list \<Rightarrow> string \<Rightarrow> bool" where
  "moved ty p tid \<longleftrightarrow>
     ty \<in> set task_event_types \<and> ty \<noteq> TASK_COMMITTED \<and> p_name p ''taskId'' = Some tid
     \<or> ty = PLAN_AMENDED \<and> tid \<in> set (p_strings p ''removedTaskIds'') \<union> set (p_strings p ''addedTaskIds'')"

definition new_events :: "string set \<Rightarrow> event list \<Rightarrow> event list \<Rightarrow> bool" where
  "new_events T es es' \<longleftrightarrow> (\<exists>new. es' = es @ new \<and> (\<forall>e \<in> set new. \<forall>tid. moved (e_type e) (e_payload e) tid \<longrightarrow> tid \<in> T))"

lemma new_events_refl [simp]: "new_events T es es" by (simp add: new_events_def)

lemma new_events_trans: "new_events T a b \<Longrightarrow> new_events T b c \<Longrightarrow> new_events T a c"
  unfolding new_events_def by (metis (no_types, lifting) Un_iff append.assoc set_append)

lemma new_events_mono: "new_events T a b \<Longrightarrow> T \<subseteq> U \<Longrightarrow> new_events U a b"
  unfolding new_events_def by blast

lemma fold_add_tasks: "run_tasks (foldl add_task s xs) tid = (if tid \<in> set xs then Some (bare_task tid Pending 0) else run_tasks s tid)"
  by (induction xs arbitrary: s) (auto simp: add_task_def)

lemma fold_skip_tasks: "tid \<notin> set xs \<Longrightarrow> run_tasks (foldl skip_task s xs) tid = run_tasks s tid"
  by (induction xs arbitrary: s) (auto simp: skip_task_def split: option.splits)

lemma unmoved_event:
  assumes "\<not> moved (e_type e) (e_payload e) tid"
  shows "map_option mark (run_tasks (apply_event s e) tid) = map_option mark (run_tasks s tid)"
proof (cases "e_type e \<in> set task_event_types")
  case True
  then have a: "e_type e \<noteq> RUN_ATTESTED" by (auto simp: task_event_types_def)
  show ?thesis
  proof (cases "e_type e = TASK_COMMITTED")
    case committed: True
    show ?thesis using True a committed
      by (cases "p_string (e_payload e) ''revision''")
        (auto simp: apply_event_simps apply_change_task task_event_def Let_def mark_def split: option.splits)
  next
    case False
    with assms True have "p_name (e_payload e) ''taskId'' \<noteq> Some tid" by (simp add: moved_def)
    with True a show ?thesis by (auto simp: apply_event_simps apply_change_task split: option.splits)
  qed
next
  case False
  have "run_tasks (case p_string (e_payload e) ''planDigest'' of Some d \<Rightarrow> s\<lparr>run_plan_digest := Some d\<rparr> | None \<Rightarrow> s) = run_tasks s"
    by (simp split: option.splits)
  with assms False show ?thesis
    by (auto simp: apply_event_simps apply_change_other_tasks [OF False] moved_def fold_add_tasks fold_skip_tasks)
qed

lemma unmoved_fold:
  "\<forall>e \<in> set new. \<not> moved (e_type e) (e_payload e) tid \<Longrightarrow>
     map_option mark (run_tasks (foldl apply_event s new) tid) = map_option mark (run_tasks s tid)"
  by (induction new arbitrary: s) (simp_all add: unmoved_event)

lemma unmoved_events:
  assumes "new_events T es es'" "tid \<notin> T"
  shows "map_option mark (run_tasks (project_state meta p es') tid) = map_option mark (run_tasks (project_state meta p es) tid)"
proof -
  obtain new where "es' = es @ new" "\<forall>e \<in> set new. \<not> moved (e_type e) (e_payload e) tid"
    using assms unfolding new_events_def by blast
  then show ?thesis using unmoved_fold by (simp add: project_state_append)
qed

text \<open>An operation that changes no plan, no replan count, no task's status or attempt, and records no moves outside \<open>T\<close>.\<close>

definition calm :: "string set \<Rightarrow> driver \<Rightarrow> driver \<Rightarrow> bool" where
  "calm T d d' \<longleftrightarrow> dr_plan d' = dr_plan d \<and> run_replans (dr_state d') = run_replans (dr_state d)
     \<and> (\<forall>tid. map_option mark (live d' tid) = map_option mark (live d tid))
     \<and> new_events T (log_of (dr_stores d)) (log_of (dr_stores d'))"

lemma calm_refl [simp]: "calm T d d" by (simp add: calm_def)

lemma calm_trans: "calm T a b \<Longrightarrow> calm T b c \<Longrightarrow> calm T a c"
  by (auto simp: calm_def intro: new_events_trans)

lemma calm_mono: "calm T a b \<Longrightarrow> T \<subseteq> U \<Longrightarrow> calm U a b"
  by (auto simp: calm_def intro: new_events_mono)

lemma calm_fold: "(\<And>x d. calm T d (f x d)) \<Longrightarrow> calm T d (fold f xs d)"
  by (induction xs arbitrary: d) (auto intro: calm_trans)

lemma calm_record: "(\<And>tid. moved ty p tid \<Longrightarrow> tid \<in> T) \<Longrightarrow> calm T d (record_event env ty p d)"
  using emit_log [of "de_sweep env" ty p "dr_stores d"]
  by (auto simp: calm_def record_event_def live_def new_events_def)

lemma unmoving [simp]:
  "\<not> moved USAGE_RECORDED p tid" "\<not> moved FOLLOWUP_CREATED p tid" "\<not> moved OBSERVATION_RECORDED p tid"
  "\<not> moved EVIDENCE_RECORDED p tid" "\<not> moved FILE_CHANGED p tid" "\<not> moved TASK_COMMITTED p tid"
  "\<not> moved TASK_STAGE_REJECTED p tid" "\<not> moved TASK_SUBMISSION_REFUSED p tid" "\<not> moved REPLAN_REQUESTED p tid"
  by (simp_all add: moved_def task_event_types_def)

lemma calm_stores: "log_of s = log_of (dr_stores d) \<Longrightarrow> calm T d (d\<lparr>dr_stores := s\<rparr>)"
  by (simp add: calm_def live_def)

lemma calm_set_live: "map_option mark (live d tid) = Some (mark t) \<Longrightarrow> calm T d (set_live tid t d)"
  by (auto simp: calm_def set_live_def live_def)

lemma unmoving_sweep: "ty \<in> set sweep_events \<Longrightarrow> \<not> moved ty p tid"
  by (auto simp: sweep_events_def criterion_events_def moved_def task_event_types_def)

lemma new_events_sweep: "verify_properties env q s = (r, s') \<Longrightarrow> new_events T (log_of s) (log_of s')"
  using verify_properties_grows [of env q s r s'] unmoving_sweep
  unfolding grows_by_def appends_def new_events_def list_all_iff by metis

lemma calm_sweep: "sweep env q d = (r, d') \<Longrightarrow> calm T d d'"
  by (auto simp: sweep_def calm_def live_def intro: new_events_sweep split: prod.splits)

lemma repair_loop_keeps:
  assumes "repair_loop ask judge k n repair w = (r, w')"
    and "\<And>n r w x w'. ask n r w = (x, w') \<Longrightarrow> R w w'" "\<And>w. R w w" "\<And>a b c. R a b \<Longrightarrow> R b c \<Longrightarrow> R a c"
  shows "R w w'"
  using assms(1)
proof (induction k arbitrary: n repair w)
  case (Suc left)
  obtain x w1 where x: "ask n repair w = (x, w1)" by force
  note one = assms(2) [OF x]
  show ?case
  proof (cases x)
    case (Inl e)
    with Suc.prems x one show ?thesis by simp
  next
    case (Inr answer)
    show ?thesis
    proof (cases "judge n answer")
      case (Inr y)
      with Suc.prems x one \<open>x = Inr answer\<close> show ?thesis by (cases y) simp
    next
      case (Inl diags)
      with Suc.prems x one \<open>x = Inr answer\<close> Suc.IH [of "n + 1" "Some (format_diagnostics diags None)" w1]
      show ?thesis by (auto intro: assms(4) split: if_splits)
    qed
  qed
qed (use assms(3) in auto)

text \<open>
  What holds of the small steps holds of the operations made of them: a relation closed under
  recording an event that moves no task, changes of the stores that touch neither log nor usage,
  a sweep, and the fields that no task depends on.
\<close>

locale driver_steps =
  fixes R :: "driver \<Rightarrow> driver \<Rightarrow> bool"
  assumes refl [simp]: "R d d"
    and trans: "R a b \<Longrightarrow> R b c \<Longrightarrow> R a c"
    and event_step: "(\<And>tid. \<not> moved ty p tid) \<Longrightarrow> R d (record_event env ty p d)"
    and stores: "log_of s = log_of (dr_stores d) \<Longrightarrow> st_usage s = st_usage (dr_stores d) \<Longrightarrow> R d (d\<lparr>dr_stores := s\<rparr>)"
    and swept: "sweep env q d = (r, d') \<Longrightarrow> R d d'"
    and requirements: "R d (merge_requirements sts d)"
    and observations: "R d (d\<lparr>dr_observations := st\<rparr>)"
    and attribution: "R d (d\<lparr>dr_attribution := m\<rparr>)"
    and amendments: "R d (d\<lparr>dr_amendments := ams\<rparr>)"
    and revised: "live d tid = Some t \<Longrightarrow> R d (set_live tid (t\<lparr>ts_revision := sha\<rparr>) d)"
    and lives: "R d d' \<Longrightarrow> live d tid \<noteq> None \<Longrightarrow> live d' tid \<noteq> None"
begin

lemma world_step: "R d (set_world w d)"
  unfolding set_world_def by (rule stores) (simp_all add: log_of_def)

lemma fold_step: "(\<And>x d. R d (f x d)) \<Longrightarrow> R d (fold f xs d)"
  by (induction xs arbitrary: d) (auto intro: trans)

lemma raise_step: "raise_draft env draft d = (f, d') \<Longrightarrow> R d d'"
  by (auto simp: raise_draft_def create_followup_def followup_create_def Let_def tick_def log_of_def intro!: stores)

lemma evidence_step: "add_evidence env e (tick (dr_stores d)) = (x, s) \<Longrightarrow> R d (d\<lparr>dr_stores := s\<rparr>)"
  by (rule stores) (auto simp: add_evidence_def log_of_def split: prod.splits)

lemma observation_step: "R d (record_observation env t draft d)"
  unfolding record_observation_def
  by (auto split: prod.split intro!: trans [OF observations event_step])

lemma candidate_step: "R d (record_candidate env t c d)"
  unfolding record_candidate_def
  by (auto split: prod.split intro!: trans [OF evidence_step event_step])

lemma draft_step: "R d (record_draft env extra draft d)"
  unfolding record_draft_def
  by (auto split: prod.split intro: trans [OF raise_step event_step])

lemma change_step: "R d (record_change env t c d)"
  unfolding record_change_def by (rule event_step) simp

lemma attribution_step: "R d (extend_attribution t ws d)"
  by (simp add: extend_attribution_def Let_def attribution)

lemma revert_step: "R d (revert_violations vs d)"
  by (simp add: revert_violations_def world_step)

lemma diff_step: "R d (diff_evidence env t outcome payload d)"
  unfolding diff_evidence_def by (auto split: prod.split intro: evidence_step)

lemma commit_step:
  assumes "commit_task env t attempt d = (r, d')" "live d (task_id t) \<noteq> None"
  shows "R d d'"
proof -
  obtain x w where x: "commit_changes env (''spc: task '' @ task_id t @ '' (run '' @ run_of env @ '')'') (task_trailers env t) None (world d) = (x, w)" by force
  obtain y where y: "live (set_world w d) (task_id t) = Some y"
    using assms(2) by (auto simp: live_def set_world_def)
  note keep = trans [OF world_step revised [OF y]]
  show ?thesis
  proof (cases x)
    case (Inr rev)
    with assms(1) x y keep world_step show ?thesis
      by (cases rev) (auto simp: commit_task_def Let_def intro: trans [OF _ event_step])
  qed (use assms(1) x world_step in \<open>auto simp: commit_task_def\<close>)
qed

lemma verify_step:
  assumes "verify_task env t before d = (r, d')"
  shows "R d d'"
proof -
  obtain y d0 where y: "run_revision env d = (y, d0)" by force
  have zero: "R d d0" using y world_step by (auto simp: run_revision_def split: prod.splits)
  show ?thesis
  proof (cases y)
    case (Inl e)
    with assms y zero show ?thesis by (simp add: verify_task_def)
  next
    case (Inr revision)
    let ?q = "sweep_request_of env (filter (\<lambda>p. dp_id p \<in> set (opt_list (task_verifies t))) (ir_properties (de_ir env)))
      (Some (task_id t)) revision []"
    obtain x d1 where x: "sweep env ?q d0 = (x, d1)" by force
    note one = trans [OF zero swept [OF x]]
    note two = trans [OF one requirements]
    have three: "R d (revert_violations vs (merge_requirements sts d1))" for vs sts by (rule trans [OF two revert_step])
    show ?thesis
      using assms y Inr x one two three by (cases x) (auto simp: verify_task_def Let_def split: list.splits)
  qed
qed

lemma settle_step:
  assumes "settle_execution env t attempt before out d = (r, d')" "live d (task_id t) \<noteq> None"
  shows "R d d'"
proof -
  let ?delta = "task_scope_delta (xe_runner (de_exec env)) before (world d)"
  let ?vs = "scope_violations env t (map fst ?delta)"
  let ?d1 = "extend_attribution t (eo_attribution out) (fold (record_change env t) ?delta d)"
  let ?d2 = "revert_violations ?vs ?d1"
  let ?d3 = "diff_evidence env t Supports (changes_json ?delta) ?d2"
  have a: "R d ?d2" by (intro trans [OF _ revert_step] trans [OF _ attribution_step] fold_step change_step)
  have b: "R d (diff_evidence env t o' j ?d2)" for o' j by (rule trans [OF a diff_step])
  obtain x d4 where x: "commit_task env t attempt ?d3 = (x, d4)" by force
  have c: "R d d4" by (rule trans [OF b commit_step [OF x lives [OF b assms(2)]]])
  have "d' = diff_evidence env t Contradicts (violations_json t ?vs) ?d2 \<or> d' = ?d2 \<or> d' = ?d3 \<or> d' = d4"
    using assms(1) x unfolding settle_execution_def Let_def by (auto split: if_splits sum.splits)
  with a b c show ?thesis by blast
qed

lemma demote_step: "R d (snd (demote env t out d))"
  by (auto simp: demote_def intro!: trans [OF fold_step fold_step] draft_step observation_step)

lemma persist_step: "R d (persist_result env t r d)"
  unfolding persist_result_def
  by (intro trans [OF _ fold_step] fold_step draft_step candidate_step observation_step)

lemma blocking_step: "R d (blocking_followup env ty title description extra d)"
  unfolding blocking_followup_def by (auto split: prod.split intro: trans [OF raise_step event_step])

lemma fail_replan_step: "R d (fail_replan env reason d)"
  by (simp add: fail_replan_def blocking_step)

lemma gate_step: "gate_amendment env am d = Some d' \<Longrightarrow> R d d'"
  by (auto simp: gate_amendment_def blocking_step split: prod.splits if_splits)

text \<open>A replan either does no more than that, or adopts an amendment; asking is a step of its own.\<close>

lemma replan_steps:
  assumes "on_needs_replan env tid d = (r, d')"
    and ask: "\<And>n repair d x d'. ask_replanner env n repair d = (x, d') \<Longrightarrow> R d d'"
  obtains (unchanged) "r \<noteq> Inr True" "R d d'"
    | (amended) am p d1 where "r = Inr True" "R d d1" "d' = adopt_amendment env am p d1"
        "gate_amendment env am d1 = None"
proof -
  let ?refs = "map ob_id (filter (concerns tid) (os_records (dr_observations d)))"
  let ?d1 = "record_event env REPLAN_REQUESTED [(''taskId'', JString tid), (''observationIds'', strings_json ?refs)] d"
  have one: "R d ?d1" by (rule event_step) simp
  have fail: "R d (fail_replan env reason ?d1)" for reason by (rule trans [OF one fail_replan_step])
  show ?thesis
  proof (cases "de_provider env = None \<or> de_max_replans env \<le> run_replans (dr_state ?d1)")
    case True
    with assms(1) fail show ?thesis by (intro unchanged) (auto simp: on_needs_replan_def Let_def split: if_splits)
  next
    case False
    obtain g d2 where g: "generate_amendment (replan_request env ?refs ?d1)
        (\<lambda>n. sv_clock (de_sweep env) (st_tick (dr_stores ?d1) + n)) (ask_replanner env) ?d1 = (g, d2)" by force
    have "R ?d1 d2" using g unfolding generate_amendment_def
      by (rule repair_loop_keeps) (auto intro: ask trans)
    then have two: "R d d2" by (rule trans [OF one])
    have res: "(r, d') = (case g of
        Inl e \<Rightarrow> (Inl (uncoded e), d2)
      | Inr g' \<Rightarrow> (case gen_result g' of
          None \<Rightarrow> (Inr False, fail_replan env (''amendment generation failed: '' @ format_diagnostics (gen_diagnostics g') None) d2)
        | Some (am, p) \<Rightarrow> (case gate_amendment env am d2 of
            Some d3 \<Rightarrow> (Inr False, d3\<lparr>dr_amendments := dr_amendments d3 @ [(am_id am @ ''.gated.json'', am)]\<rparr>)
          | None \<Rightarrow> (Inr True, adopt_amendment env am p d2))))"
      using assms(1) False g by (auto simp: on_needs_replan_def Let_def)
    show ?thesis
    proof (cases g)
      case (Inl e)
      with res two show ?thesis by (intro unchanged) simp_all
    next
      case (Inr g')
      show ?thesis
      proof (cases "gen_result g'")
        case None
        with res Inr trans [OF two fail_replan_step] show ?thesis by (intro unchanged) simp_all
      next
        case (Some x)
        obtain am p where x: "x = (am, p)" by force
        show ?thesis
        proof (cases "gate_amendment env am d2")
          case None
          with res Inr Some x two show ?thesis by (intro amended [of d2 am p]) simp_all
        next
          case gated: (Some d3)
          with res Inr Some x trans [OF trans [OF two gate_step [OF gated]] amendments] show ?thesis
            by (intro unchanged) simp_all
        qed
      qed
    qed
  qed
qed

end

lemma calm_alive: "calm T d d' \<Longrightarrow> live d tid \<noteq> None \<Longrightarrow> live d' tid \<noteq> None"
  by (metis calm_def option.map_disc_iff)

interpretation cs: driver_steps "calm T"
proof
  show "calm T d d" for d by simp
  show "calm T a b \<Longrightarrow> calm T b c \<Longrightarrow> calm T a c" for a b c by (rule calm_trans)
  show "(\<And>tid. \<not> moved ty p tid) \<Longrightarrow> calm T d (record_event env ty p d)" for ty p d env
    by (rule calm_record) blast
  show "live d tid = Some t \<Longrightarrow> calm T d (set_live tid (t\<lparr>ts_revision := r\<rparr>) d)" for d tid t r
    by (rule calm_set_live) (simp add: mark_def)
  show "calm T d d' \<Longrightarrow> live d tid \<noteq> None \<Longrightarrow> live d' tid \<noteq> None" for d d' tid by (rule calm_alive)
  show "sweep env q d = (r, d') \<Longrightarrow> calm T d d'" for env q d r d' by (rule calm_sweep)
qed (auto simp: calm_stores calm_def live_def merge_requirements_def)

lemma calm_usage [simp]: "calm T d (record_usage env role request model d)"
  unfolding record_usage_def Let_def
  by (rule calm_trans [OF _ calm_record]) (simp_all add: calm_def live_def log_of_def)

lemma calm_notice [simp]: "calm T d (record_notice env t attempt n d)"
  by (cases n) (auto intro: calm_record)

lemma calm_ask: "ask_replanner env n repair d = (x, d') \<Longrightarrow> calm T d d'"
  by (auto simp: ask_replanner_def Let_def split: prod.splits sum.splits intro: cs.world_step calm_trans [OF cs.world_step calm_usage])

text \<open>An execution moves no task but its own, and that one only in the log.\<close>

definition notified :: "driver_env \<Rightarrow> task \<Rightarrow> int \<Rightarrow> notice list \<Rightarrow> checkout \<Rightarrow> driver \<Rightarrow> driver" where
  "notified env t attempt ns w d = fold (record_notice env t attempt) ns (set_world w d)"

lemma calm_notified: "calm T d (notified env t attempt ns w d)"
  unfolding notified_def by (rule calm_trans [OF cs.world_step cs.fold_step]) simp

context driver_steps
begin

lemma run_executor_steps:
  assumes "run_executor env t attempt before d = Some (r, d')" "live d (task_id t) \<noteq> None"
  obtains (thrown) e ns w where "execute_task (checked_exec env) (input_of env t attempt d) (world d) = Some (Inl e, ns, w)"
      "d' = snd (thrown_outcome env t attempt e (notified env t attempt ns w d))"
    | (answered) out ns w where "execute_task (checked_exec env) (input_of env t attempt d) (world d) = Some (Inr out, ns, w)"
      "R (notified env t attempt ns w d) d'"
proof -
  obtain answer ns w where ex: "execute_task (checked_exec env) (input_of env t attempt d) (world d) = Some (answer, ns, w)"
    using assms(1) by (auto simp: run_executor_def)
  let ?d1 = "notified env t attempt ns w d"
  have alive: "live ?d1 (task_id t) \<noteq> None" by (rule calm_alive [OF calm_notified assms(2)])
  show ?thesis
  proof (cases answer)
    case (Inl e)
    with assms(1) ex show ?thesis
      by (intro thrown [of e ns w]) (auto simp: run_executor_def Let_def notified_def split: prod.splits)
  next
    case (Inr out)
    show ?thesis
    proof (cases "proceeds env out")
      case True
      have "d' = snd (demote env t out ?d1)"
        using assms(1) ex Inr True by (auto simp: run_executor_def Let_def notified_def split: prod.splits)
      with ex Inr demote_step show ?thesis by (intro answered [of out ns w]) simp_all
    next
      case False
      have s: "settle_execution env t attempt before out (persist_result env t (eo_result out) ?d1) = (r, d')"
        using assms(1) ex Inr False by (simp add: run_executor_def Let_def notified_def)
      have "R ?d1 d'" by (rule trans [OF persist_step settle_step [OF s lives [OF persist_step alive]]])
      with ex Inr show ?thesis by (intro answered [of out ns w]) simp_all
    qed
  qed
qed

end

lemma calm_thrown: "calm {task_id t} d (snd (thrown_outcome env t attempt e d))"
  by (auto simp: thrown_outcome_def moved_def p_name_def p_string_def split: if_splits intro!: calm_record)

lemma calm_execute:
  assumes "execute_in_run env t attempt d = Some (r, d')" "live d (task_id t) \<noteq> None"
  shows "calm {task_id t} d d'"
proof -
  have res: "calm {task_id t} d (reserve t d)" by (simp add: reserve_def calm_def live_def)
  have l: "live (reserve t d) (task_id t) \<noteq> None" using assms(2) by (simp add: reserve_def live_def)
  have "calm {task_id t} (reserve t d) d'" if "run_executor env t attempt before (reserve t d) = Some (r, d')" for before
    using that l
  proof (cases rule: cs.run_executor_steps [where T = "{task_id t}"])
    case (thrown e ns w)
    then show ?thesis by (auto intro: calm_trans [OF calm_notified calm_thrown])
  next
    case (answered out ns w)
    then show ?thesis by (auto intro: calm_trans [OF calm_notified])
  qed
  with assms(1) res show ?thesis
    by (auto simp: execute_in_run_def Let_def split: if_splits
        intro: calm_trans dest: cs.verify_step [where T = "{task_id t}"])
qed

section \<open>Replanning and transitions\<close>

lemma calm_replan:
  assumes "on_needs_replan env tid d = (r, d')"
  obtains (unchanged) "r \<noteq> Inr True" "calm {} d d'"
    | (amended) am p d1 where "r = Inr True" "calm {} d d1" "d' = adopt_amendment env am p d1"
        "run_replans (dr_state d1) < de_max_replans env"
proof (cases rule: cs.replan_steps [OF assms, where T = "{}"])
  case (3 am p d1)
  note amended = 3
  have "run_replans (dr_state d) < de_max_replans env"
    using assms amended(1) by (auto simp: on_needs_replan_def Let_def record_event_def split: if_splits)
  with amended that(2) show ?thesis by (simp add: calm_def)
qed (use calm_ask that in auto)

lemma transition_frame [simp]:
  "dr_plan (transition env tid ts sm d) = dr_plan d"
  "run_replans (dr_state (transition env tid ts sm d)) = run_replans (dr_state d)"
  "dr_model_calls (transition env tid ts sm d) = dr_model_calls d"
  by (simp_all add: transition_def Let_def persist_def record_event_def set_live_def split: task_status.split)

lemma kept_mark [simp]: "mark (kept_failure previous ts) = mark ts" "mark (kept_revision previous ts) = mark ts"
  by (simp_all add: kept_failure_def kept_revision_def mark_def split: option.split)

lemma kept_status [simp]: "ts_status (kept_failure previous ts) = ts_status ts" "ts_attempt (kept_failure previous ts) = ts_attempt ts"
  using kept_mark(1) [of previous ts] by (simp_all add: mark_def)

lemma transition_live:
  "map_option mark (live (transition env tid ts sm d) x) = (if x = tid then Some (mark ts) else map_option mark (live d x))"
  by (simp add: transition_def Let_def persist_def record_event_def set_live_def live_def split: task_status.split)

lemma adopt_replans [simp]: "run_replans (dr_state (adopt_amendment env am p d)) = run_replans (dr_state d) + 1"
proof -
  have a: "run_replans (dr_state (fold (\<lambda>t. redispatch env (task_id t)) ts d)) = run_replans (dr_state d)" for ts d
    by (induction ts arbitrary: d) (simp_all add: redispatch_def record_event_def set_live_def split: option.split)
  have b: "run_replans (dr_state (fold (\<lambda>tid. set_live tid (bare_task tid Pending 0)) xs d)) = run_replans (dr_state d)" for xs d
    by (induction xs arbitrary: d) (simp_all add: set_live_def)
  show ?thesis by (simp add: adopt_amendment_def Let_def persist_def record_event_def a b)
qed

section \<open>The driver as the runtime of the scheduler\<close>

lemma checked_schema: "schema_answers (checked_exec env)"
  by (auto simp: schema_answers_def checked_exec_def split: prod.splits sum.splits if_splits)

lemma execute_in_run_returns: "execute_in_run env t attempt d \<noteq> None"
proof -
  have "run_executor env t attempt before d' \<noteq> None" for before d'
    using execute_task_returns [OF checked_schema, of env "input_of env t attempt d'" "world d'"]
    by (auto simp: run_executor_def)
  then show ?thesis by (auto simp: execute_in_run_def Let_def)
qed

lemma driver_io_simps [simp]:
  "io_cancelled (driver_io env) = dr_cancelled" "io_plan (driver_io env) = dr_plan" "io_task_state (driver_io env) = live"
  "io_transition (driver_io env) = transition env" "io_execute (driver_io env) = driver_execute env"
  "io_replan (driver_io env) = on_needs_replan env" "io_max_retries (driver_io env) = de_max_retries env"
  by (simp_all add: driver_io_def)

lemma view_live: "view (driver_io env) d tid = (case live d tid of Some t \<Rightarrow> mark t | None \<Rightarrow> (Pending, 0))"
  by (simp add: view_def state_of_def pending_state_def mark_def split: option.split)

lemma view_marks:
  "(\<And>tid. map_option mark (live d' tid) = map_option mark (live d tid)) \<Longrightarrow> view (driver_io env) d' = view (driver_io env) d"
  by (auto simp: view_live fun_eq_iff split: option.split) (metis (no_types) option.map(1,2) option.distinct(1) option.inject)+

lemma calm_driver_execute:
  assumes "driver_execute env t n f d = Some (r, d')" "live d (task_id t) \<noteq> None"
  shows "calm {task_id t} d d'"
proof -
  obtain x d1 where e: "execute_in_run env t n d = Some (x, d1)" using assms(1) by (auto simp: driver_execute_def)
  with assms(1) have x: "execute_in_run env t n d = Some (x, d1)" "d' = d1 \<or> d' = d1\<lparr>dr_cancelled := True\<rparr>"
    by (cases x; auto simp: driver_execute_def split: if_splits)+
  have "calm {task_id t} d1 (d1\<lparr>dr_cancelled := True\<rparr>)" by (simp add: calm_def live_def)
  with calm_execute [OF x(1) assms(2)] x(2) show ?thesis by (auto intro: calm_trans)
qed

interpretation dr: scheduler_runtime "driver_io env" "\<lambda>d. de_max_replans env - run_replans (dr_state d)"
proof
  fix tid ts summary and s :: driver and x
  show "io_plan (driver_io env) (io_transition (driver_io env) tid ts summary s) = io_plan (driver_io env) s"
    "de_max_replans env - run_replans (dr_state (io_transition (driver_io env) tid ts summary s))
       = de_max_replans env - run_replans (dr_state s)"
    by simp_all
  have "map_option mark (live (transition env tid ts summary s) x)
      = (if x = tid then Some (mark ts) else map_option mark (live s x))"
    by (rule transition_live)
  then show "view (driver_io env) (io_transition (driver_io env) tid ts summary s) x
      = (if x = tid then mark ts else view (driver_io env) s x)"
    by (auto simp: view_live split: option.splits if_splits)
next
  fix t n f and s :: driver
  show "io_execute (driver_io env) t n f s \<noteq> None"
    using execute_in_run_returns [of env t n s] by (simp add: driver_execute_def)
next
  fix t n f outcome and s s' :: driver
  assume "io_execute (driver_io env) t n f s = Some (outcome, s')" "view (driver_io env) s (task_id t) = (TaskRunning, n)"
  then have ex: "driver_execute env t n f s = Some (outcome, s')" and l: "live s (task_id t) \<noteq> None"
    by (auto simp: view_live split: option.splits)
  from calm_driver_execute [OF ex l]
  show "io_plan (driver_io env) s' = io_plan (driver_io env) s
      \<and> de_max_replans env - run_replans (dr_state s') = de_max_replans env - run_replans (dr_state s)
      \<and> view (driver_io env) s' = view (driver_io env) s"
    by (auto simp: calm_def intro!: view_marks)
next
  fix tid and s s' :: driver
  assume "io_replan (driver_io env) tid s = (Inr True, s')"
  then have "on_needs_replan env tid s = (Inr True, s')" by simp
  then show "de_max_replans env - run_replans (dr_state s') < de_max_replans env - run_replans (dr_state s)"
  proof (cases rule: calm_replan)
    case (amended am p d1)
    then show ?thesis by (simp add: calm_def)
  qed simp
qed

section \<open>Runs end\<close>

definition task_status_is :: "driver \<Rightarrow> task_status \<Rightarrow> task \<Rightarrow> bool" where
  "task_status_is d st t \<longleftrightarrow> (case live d (task_id t) of Some x \<Rightarrow> ts_status x = st | None \<Rightarrow> st = Pending)"

definition some_task :: "driver \<Rightarrow> task_status \<Rightarrow> bool" where
  "some_task d st \<longleftrightarrow> list_ex (task_status_is d st) (plan_tasks (dr_plan d))"

text \<open>What each outcome of the scheduler says of the tasks of the plan.\<close>

fun outcome_means :: "scheduler_outcome \<Rightarrow> driver \<Rightarrow> bool" where
  "outcome_means Done d = (dr_cancelled d \<or> \<not> (some_task d Pending \<or> some_task d NeedsReplan))"
| "outcome_means Deadlocked d = some_task d Pending"
| "outcome_means RunnableWorkRemains d = some_task d NeedsReplan"
| "outcome_means ReplanFailed d = True"
| "outcome_means (Threw e) d = True"

lemma some_task_view:
  "some_task d st \<longleftrightarrow> (\<exists>tid \<in> plan_ids (driver_io env) d. fst (view (driver_io env) d tid) = st)"
proof -
  have "task_status_is d st t \<longleftrightarrow> fst (view (driver_io env) d (task_id t)) = st" for t
    by (auto simp: task_status_is_def view_live mark_def split: option.split)
  then show ?thesis by (simp add: some_task_def list_ex_iff plan_ids_def)
qed

lemma drive_run_returns: "\<exists>r. drive_run env d = Some r"
  unfolding drive_run_def by (rule dr.scheduler_returns)

text \<open>
  C20: a run comes to an end: whatever the provider, the commands and git do, the scheduler over
  the run returns, and its outcome says what is left of the plan: done means that no task is
  pending or waits for a replan unless the run was cancelled, the other two that one does.
\<close>
theorem run_ends:
  "\<exists>outcome failed d'. drive_run env d = Some (outcome, failed, d') \<and> outcome_means outcome d'"
proof -
  obtain outcome failed d' where r: "drive_run env d = Some (outcome, failed, d')"
    using drive_run_returns by (metis prod.exhaust)
  from dr.scheduler_result [OF r [unfolded drive_run_def]] have "outcome_means outcome d'"
    by (cases outcome) (auto simp: some_task_view [where env = env])
  with r show ?thesis by blast
qed

section \<open>The log agrees with the live state\<close>

definition log_status :: "driver_env \<Rightarrow> plan option \<Rightarrow> driver \<Rightarrow> string \<Rightarrow> (task_status \<times> int) option" where
  "log_status env p d tid = map_option mark (run_tasks (project_state (de_meta env) p (log_of (dr_stores d))) tid)"

text \<open>A task of the plan that is settled has the same status in the projection of the log, with its attempt.\<close>

definition agrees_on :: "driver_env \<Rightarrow> plan option \<Rightarrow> driver \<Rightarrow> string \<Rightarrow> bool" where
  "agrees_on env p d tid \<longleftrightarrow>
     (case live d tid of
        None \<Rightarrow> True
      | Some t \<Rightarrow>
          (ts_status t \<in> {Completed, TaskFailed, TaskBlocked} \<longrightarrow> log_status env p d tid = Some (mark t))
          \<and> (ts_status t = NeedsReplan \<longrightarrow> map_option fst (log_status env p d tid) = Some NeedsReplan))"

definition agrees :: "driver_env \<Rightarrow> plan option \<Rightarrow> driver \<Rightarrow> bool" where
  "agrees env p d \<longleftrightarrow> list_all (\<lambda>t. task_id t \<noteq> [] \<longrightarrow> agrees_on env p d (task_id t)) (plan_tasks (dr_plan d))"

lemma agrees_on_marks:
  assumes "map_option mark (live d' tid) = map_option mark (live d tid)" "log_status env p d' tid = log_status env p d tid"
  shows "agrees_on env p d' tid = agrees_on env p d tid"
proof (cases "live d tid")
  case (Some t)
  then obtain t' where t': "live d' tid = Some t'" "mark t' = mark t" using assms(1) by auto
  then have "ts_status t' = ts_status t" by (simp add: mark_def)
  with Some t' assms(2) show ?thesis by (simp add: agrees_on_def)
qed (use assms(1) in \<open>simp add: agrees_on_def\<close>)

lemma agrees_on_calm:
  assumes "calm T d d'" "tid \<notin> T \<or> map_option ts_status (live d tid) \<in> {None, Some TaskRunning, Some Pending}"
    "agrees_on env p d tid"
  shows "agrees_on env p d' tid"
  using assms(2)
proof
  assume "tid \<notin> T"
  with assms(1) have "log_status env p d' tid = log_status env p d tid"
    unfolding log_status_def calm_def using unmoved_events by blast
  with agrees_on_marks [of d' tid d env p] assms(1,3) show ?thesis by (simp add: calm_def)
next
  assume l: "map_option ts_status (live d tid) \<in> {None, Some TaskRunning, Some Pending}"
  have "map_option mark (live d' tid) = map_option mark (live d tid)" using assms(1) by (simp add: calm_def)
  with l have "map_option ts_status (live d' tid) \<in> {None, Some TaskRunning, Some Pending}"
    by (cases "live d tid"; cases "live d' tid") (auto simp: mark_def)
  then show ?thesis by (auto simp: agrees_on_def split: option.splits)
qed

text \<open>What a transition records of its own task.\<close>

lemma logged_event:
  assumes "log_of (dr_stores d') = log_of (dr_stores d) @ es @ [e]" "e_type e \<in> set task_event_types"
    "p_name (e_payload e) ''taskId'' = Some tid"
  shows "run_tasks (project_state m p (log_of (dr_stores d'))) tid
    = (case task_event e tid (run_tasks (project_state m p (log_of (dr_stores d) @ es)) tid) of
         None \<Rightarrow> run_tasks (project_state m p (log_of (dr_stores d) @ es)) tid | Some t \<Rightarrow> Some t)"
proof -
  have "e_type e \<noteq> RUN_ATTESTED" using assms(2) by (auto simp: task_event_types_def)
  moreover have "log_of (dr_stores d') = (log_of (dr_stores d) @ es) @ [e]" using assms(1) by simp
  ultimately show ?thesis
    using assms(2,3) by (simp add: apply_event_simps apply_change_task del: append_assoc split: option.split)
qed

lemma task_payload_read:
  "tid \<noteq> [] \<Longrightarrow> p_name (task_payload tid t @ ps) ''taskId'' = Some tid"
  "event_attempt (task_payload tid t @ ps) prior = ts_attempt t"
  by (simp_all add: task_payload_def p_name_def p_string_def when_truthy_def event_attempt_def p_number_def)

lemma record_log: "\<exists>e. log_of (dr_stores (record_event env ty p d)) = log_of (dr_stores d) @ [e] \<and> e_type e = ty \<and> e_payload e = p"
  using emit_log [of "de_sweep env" ty p "dr_stores d"] by (simp add: record_event_def)

lemma set_live_stores [simp]: "dr_stores (set_live tid t d) = dr_stores d" "dr_stores (persist d) = dr_stores d"
  by (simp_all add: set_live_def persist_def)

lemma moved_payload: "moved ty (task_payload tid t @ ps) x \<Longrightarrow> ty \<noteq> PLAN_AMENDED \<Longrightarrow> x = tid"
  by (auto simp: moved_def task_payload_def p_name_def p_string_def when_truthy_def split: if_splits option.splits)

lemma new_events_snoc:
  "new_events T es xs \<Longrightarrow> (\<And>tid. moved (e_type e) (e_payload e) tid \<Longrightarrow> tid \<in> T) \<Longrightarrow> new_events T es (xs @ [e])"
  unfolding new_events_def by (elim exE conjE) force

lemma recorded_events:
  assumes "ty \<noteq> PLAN_AMENDED" "new_events {tid} es (log_of (dr_stores d))"
  shows "new_events {tid} es (log_of (dr_stores (record_event env ty (task_payload tid t @ ps) d)))"
proof -
  obtain e where e: "log_of (dr_stores (record_event env ty (task_payload tid t @ ps) d)) = log_of (dr_stores d) @ [e]"
    "e_type e = ty" "e_payload e = task_payload tid t @ ps" using record_log by blast
  show ?thesis unfolding e(1)
    by (rule new_events_snoc [OF assms(2)]) (use moved_payload [of ty tid t ps] assms(1) e(2,3) in auto)
qed

lemmas recorded_events' = recorded_events [where ps = "[]", unfolded append_Nil2]

lemma transition_events: "new_events {tid} (log_of (dr_stores d)) (log_of (dr_stores (transition env tid ts sm d)))"
  by (cases "ts_status ts")
    (simp_all add: transition_def Let_def recorded_events recorded_events')

text \<open>The event that records a settled status.\<close>

definition settled_event :: "task_status \<Rightarrow> event_type" where
  "settled_event st = (case st of Completed \<Rightarrow> TASK_COMPLETED | TaskFailed \<Rightarrow> TASK_FAILED
     | TaskBlocked \<Rightarrow> TASK_BLOCKED | _ \<Rightarrow> TASK_NEEDS_REPLAN)"

lemma transition_last:
  assumes "ts_status ts \<in> {Completed, TaskFailed, TaskBlocked, NeedsReplan}"
  shows "\<exists>e t ps. log_of (dr_stores (transition env tid ts sm d)) = log_of (dr_stores d) @ [e]
     \<and> e_type e = settled_event (ts_status ts) \<and> e_payload e = task_payload tid t @ ps \<and> ts_attempt t = ts_attempt ts"
proof -
  let ?t = "kept_failure (live d tid) ts"
  have "\<exists>d1 ps. dr_stores (transition env tid ts sm d)
        = dr_stores (record_event env (settled_event (ts_status ts)) (task_payload tid ?t @ ps) d1) \<and> dr_stores d1 = dr_stores d"
  proof (cases "ts_status ts")
    case NeedsReplan
    then show ?thesis
      by (intro exI [of _ "set_live tid ?t d"] exI [of _ "[]"]) (simp add: transition_def Let_def settled_event_def)
  next
    case Completed
    then show ?thesis
      by (intro exI [of _ "set_live tid (kept_revision (live d tid) ?t) (set_live tid ?t d)"]) (auto simp: transition_def Let_def settled_event_def)
  next
    case TaskFailed
    then show ?thesis by (intro exI [of _ "set_live tid ?t d"]) (auto simp: transition_def Let_def settled_event_def)
  next
    case TaskBlocked
    then show ?thesis by (intro exI [of _ "set_live tid ?t d"]) (auto simp: transition_def Let_def settled_event_def)
  qed (use assms in auto)
  then obtain d1 ps where d1: "dr_stores (transition env tid ts sm d)
        = dr_stores (record_event env (settled_event (ts_status ts)) (task_payload tid ?t @ ps) d1)" "dr_stores d1 = dr_stores d" by blast
  from record_log [of env "settled_event (ts_status ts)" "task_payload tid ?t @ ps" d1] d1
  have "\<exists>e. log_of (dr_stores (transition env tid ts sm d)) = log_of (dr_stores d) @ [e]
     \<and> e_type e = settled_event (ts_status ts) \<and> e_payload e = task_payload tid ?t @ ps" by simp
  moreover have "ts_attempt ?t = ts_attempt ts" by simp
  ultimately show ?thesis by blast
qed

lemma transition_logged:
  assumes "ts_status ts \<in> {Completed, TaskFailed, TaskBlocked, NeedsReplan}" "tid \<noteq> []"
  shows "\<exists>n. log_status env p (transition env tid ts sm d) tid = Some (ts_status ts, n)
    \<and> (ts_status ts \<noteq> NeedsReplan \<longrightarrow> n = ts_attempt ts)"
proof -
  obtain e t ps where e: "log_of (dr_stores (transition env tid ts sm d)) = log_of (dr_stores d) @ [] @ [e]"
    "e_type e = settled_event (ts_status ts)" "e_payload e = task_payload tid t @ ps" "ts_attempt t = ts_attempt ts"
    using transition_last [OF assms(1)] by (metis append_Nil)
  have ty: "e_type e \<in> set task_event_types" using assms(1) e(2) by (auto simp: settled_event_def task_event_types_def)
  have name: "p_name (e_payload e) ''taskId'' = Some tid" by (simp only: e(3)) (rule task_payload_read(1) [OF assms(2)])
  have att: "event_attempt (e_payload e) prior = ts_attempt ts" for prior
    by (simp only: e(3) task_payload_read(2) e(4))
  show ?thesis
    using logged_event [OF e(1) ty name, of "de_meta env" p] e(2) att assms(1)
    by (auto simp: log_status_def task_event_def settled_event_def Let_def mark_def bare_task_def)
qed

lemma transition_agrees:
  assumes "agrees env p d"
  shows "agrees env p (transition env tid ts sm d)"
proof -
  have "agrees_on env p (transition env tid ts sm d) x" if x: "x \<noteq> []" "agrees_on env p d x" for x
  proof (cases "x = tid")
    case True
    have l: "map_option mark (live (transition env tid ts sm d) tid) = Some (mark ts)" by (simp add: transition_live)
    then obtain t where t: "live (transition env tid ts sm d) tid = Some t" "mark t = mark ts" by auto
    then have m: "ts_status t = ts_status ts" "ts_attempt t = ts_attempt ts" by (simp_all add: mark_def)
    show ?thesis
    proof (cases "ts_status ts \<in> {Completed, TaskFailed, TaskBlocked, NeedsReplan}")
      case settled: True
      from transition_logged [OF this, of tid env p sm d] x True obtain n where
        "log_status env p (transition env tid ts sm d) tid = Some (ts_status ts, n)"
        "ts_status ts \<noteq> NeedsReplan \<longrightarrow> n = ts_attempt ts" by blast
      with True t m settled show ?thesis by (auto simp: agrees_on_def mark_def)
    next
      case False
      with True t m show ?thesis by (auto simp: agrees_on_def)
    qed
  next
    case False
    have "log_status env p (transition env tid ts sm d) x = log_status env p d x"
      unfolding log_status_def using unmoved_events [OF transition_events] False by blast
    moreover have "map_option mark (live (transition env tid ts sm d) x) = map_option mark (live d x)"
      using False by (simp add: transition_live)
    ultimately show ?thesis using agrees_on_marks x(2) by blast
  qed
  with assms show ?thesis by (auto simp: agrees_def list_all_iff)
qed

text \<open>A redispatch moves only the tasks that wait for a replan, and leaves none of those it visits waiting.\<close>

definition waiting :: "driver \<Rightarrow> string set" where
  "waiting d = {x. map_option ts_status (live d x) = Some NeedsReplan}"

lemma redispatch_spec:
  "new_events (waiting d) (log_of (dr_stores d)) (log_of (dr_stores (redispatch env tid d)))
   \<and> waiting (redispatch env tid d) = waiting d - {tid}
   \<and> (\<forall>x. x \<notin> waiting d \<longrightarrow> live (redispatch env tid d) x = live d x)
   \<and> (\<forall>x. map_option ts_status (live d x) = Some NeedsReplan \<longrightarrow>
        map_option ts_status (live (redispatch env tid d) x) \<in> {Some NeedsReplan, Some Pending})
   \<and> dr_plan (redispatch env tid d) = dr_plan d"
proof (cases "map_option ts_status (live d tid) = Some NeedsReplan")
  case True
  then obtain t where t: "live d tid = Some t" "ts_status t = NeedsReplan" by auto
  let ?d1 = "set_live tid (t\<lparr>ts_status := Pending\<rparr>) d"
  have r: "redispatch env tid d = record_event env TASK_READY (task_payload tid t @ [(''redispatch'', JString ''amended'')]) ?d1"
    using t by (simp add: redispatch_def)
  have l: "live (redispatch env tid d) = (live d)(tid \<mapsto> t\<lparr>ts_status := Pending\<rparr>)"
    unfolding r by (simp add: record_event_def live_def set_live_def)
  have "new_events {tid} (log_of (dr_stores d)) (log_of (dr_stores (redispatch env tid d)))"
    unfolding r by (rule recorded_events) simp_all
  moreover have "tid \<in> waiting d" using True by (simp add: waiting_def)
  moreover have "waiting (redispatch env tid d) = waiting d - {tid}" by (auto simp: waiting_def l)
  moreover have "dr_plan (redispatch env tid d) = dr_plan d" unfolding r by (simp add: record_event_def set_live_def)
  ultimately show ?thesis by (auto simp: l intro: new_events_mono)
next
  case False
  then have "redispatch env tid d = d" by (auto simp: redispatch_def split: option.split)
  moreover have "tid \<notin> waiting d" using False by (simp add: waiting_def)
  ultimately show ?thesis by simp
qed

lemma redispatches_spec:
  "new_events (waiting d) (log_of (dr_stores d)) (log_of (dr_stores (fold (\<lambda>t. redispatch env (task_id t)) ts d)))
   \<and> waiting (fold (\<lambda>t. redispatch env (task_id t)) ts d) = waiting d - task_id ` set ts
   \<and> (\<forall>x. x \<notin> waiting d \<longrightarrow> live (fold (\<lambda>t. redispatch env (task_id t)) ts d) x = live d x)
   \<and> (\<forall>x. x \<in> waiting d \<longrightarrow>
        map_option ts_status (live (fold (\<lambda>t. redispatch env (task_id t)) ts d) x) \<in> {Some NeedsReplan, Some Pending})
   \<and> dr_plan (fold (\<lambda>t. redispatch env (task_id t)) ts d) = dr_plan d"
proof (induction ts arbitrary: d)
  case Nil
  then show ?case by (auto simp: waiting_def)
next
  case (Cons t ts)
  let ?d1 = "redispatch env (task_id t) d"
  let ?d2 = "fold (\<lambda>t. redispatch env (task_id t)) ts ?d1"
  note one = redispatch_spec [of d env "task_id t"] and two = Cons.IH [of ?d1]
  have sub: "waiting ?d1 \<subseteq> waiting d" using one by blast
  have a: "new_events (waiting d) (log_of (dr_stores d)) (log_of (dr_stores ?d2))"
    by (rule new_events_trans [OF conjunct1 [OF one] new_events_mono [OF conjunct1 [OF two] sub]])
  have b: "waiting ?d2 = waiting d - task_id ` set (t # ts)" using one two by auto
  have c: "live ?d2 x = live d x" if "x \<notin> waiting d" for x using one two that sub by (metis subsetD)
  have e: "map_option ts_status (live ?d2 x) \<in> {Some NeedsReplan, Some Pending}" if x: "x \<in> waiting d" for x
  proof (cases "x \<in> waiting ?d1")
    case True
    then show ?thesis using two by blast
  next
    case False
    then have "live ?d2 x = live ?d1 x" using two by blast
    then show ?thesis using one x by (simp add: waiting_def)
  qed
  have "dr_plan ?d2 = dr_plan d" using one two by simp
  with a b show ?case unfolding fold.simps comp_def using c e by blast
qed

lemma plan_amended_moves:
  "moved PLAN_AMENDED (plan_amended_payload env am p removed added) x \<Longrightarrow> x \<in> set removed \<union> set added"
  by (auto simp: moved_def task_event_types_def plan_amended_payload_def p_strings_def strings_json_def strings_read)

lemma added_live:
  "live (fold (\<lambda>tid. set_live tid (bare_task tid Pending 0)) xs d) x
     = (if x \<in> set xs then Some (bare_task x Pending 0) else live d x)
   \<and> dr_stores (fold (\<lambda>tid. set_live tid (bare_task tid Pending 0)) xs d) = dr_stores d"
  by (induction xs arbitrary: d) (auto simp: set_live_def live_def)

lemma set_task_ids [simp]: "set (task_ids p) = task_id ` set (plan_tasks p)"
  by (simp add: task_ids_def)

lemma adopt_stages:
  obtains d2 d3 added removed where
    "set added = set (task_ids p) - set (task_ids (dr_plan d))" "set removed = set (task_ids (dr_plan d)) - set (task_ids p)"
    "\<forall>x. live d2 x = (if x \<in> set added then Some (bare_task x Pending 0) else live d x)"
    "new_events (waiting d2 \<union> set removed \<union> set added) (log_of (dr_stores d)) (log_of (dr_stores (adopt_amendment env am p d)))"
    "waiting d3 = waiting d2 - task_id ` set (plan_tasks p)" "\<forall>x. x \<notin> waiting d2 \<longrightarrow> live d3 x = live d2 x"
    "\<forall>x. x \<in> waiting d2 \<longrightarrow> map_option ts_status (live d3 x) \<in> {Some NeedsReplan, Some Pending}"
    "live (adopt_amendment env am p d) = live d3"
proof -
  define added removed where "added = filter (\<lambda>tid. tid \<notin> set (task_ids (dr_plan d))) (task_ids p)"
    and "removed = filter (\<lambda>tid. tid \<notin> set (task_ids p)) (task_ids (dr_plan d))"
  define d1 where "d1 = d\<lparr>dr_versions := dr_versions d @ [dr_plan d], dr_amendments := dr_amendments d @ [(am_id am @ ''.json'', am)]\<rparr>"
  define d2 where "d2 = fold (\<lambda>tid. set_live tid (bare_task tid Pending 0)) added d1"
  define d3 where "d3 = fold (\<lambda>t. redispatch env (task_id t)) (plan_tasks p) d2"
  define d4 where "d4 = record_event env PLAN_AMENDED (plan_amended_payload env am p removed added) (d3\<lparr>dr_plan := p\<rparr>)"
  have ad: "adopt_amendment env am p d = persist (d4\<lparr>dr_state := (dr_state d4)\<lparr>run_replans := run_replans (dr_state d4) + 1\<rparr>\<rparr>)"
    by (simp only: adopt_amendment_def Let_def added_def removed_def d1_def d2_def d3_def d4_def)
  have l2: "\<forall>x. live d2 x = (if x \<in> set added then Some (bare_task x Pending 0) else live d x)" and s2: "dr_stores d2 = dr_stores d"
    unfolding d2_def using added_live [of added d1] by (auto simp: d1_def live_def)
  note three = redispatches_spec [of d2 env "plan_tasks p", folded d3_def, unfolded s2]
  obtain e where e: "log_of (dr_stores d4) = log_of (dr_stores d3) @ [e]" "e_type e = PLAN_AMENDED"
    "e_payload e = plan_amended_payload env am p removed added"
    using record_log [of env PLAN_AMENDED "plan_amended_payload env am p removed added" "d3\<lparr>dr_plan := p\<rparr>"] by (auto simp: d4_def)
  have l: "log_of (dr_stores (adopt_amendment env am p d)) = log_of (dr_stores d3) @ [e]" using e(1) by (simp add: ad persist_def)
  have log: "new_events (waiting d2 \<union> set removed \<union> set added) (log_of (dr_stores d)) (log_of (dr_stores (adopt_amendment env am p d)))"
    unfolding l
  proof (rule new_events_snoc)
    show "new_events (waiting d2 \<union> set removed \<union> set added) (log_of (dr_stores d)) (log_of (dr_stores d3))"
      by (rule new_events_mono [OF conjunct1 [OF three]]) blast
    show "x \<in> waiting d2 \<union> set removed \<union> set added" if "moved (e_type e) (e_payload e) x" for x
      using plan_amended_moves [OF that [unfolded e(2,3)]] by blast
  qed
  have live4: "live (adopt_amendment env am p d) = live d3"
    by (simp add: ad persist_def live_def d4_def record_event_def)
  show thesis
    by (rule that [of added removed d2 d3]) (use l2 log live4 three in \<open>auto simp: added_def removed_def simp del: set_task_ids\<close>)
qed

lemma adopt_spec:
  assumes "x \<in> task_id ` set (plan_tasks p)"
  shows "map_option ts_status (live (adopt_amendment env am p d) x) \<in> {None, Some Pending}
    \<or> (x \<in> task_id ` set (plan_tasks (dr_plan d)) \<and> live (adopt_amendment env am p d) x = live d x
       \<and> log_status env q (adopt_amendment env am p d) x = log_status env q d x)"
proof (rule adopt_stages [of p d env am])
  fix d2 d3 added removed
  assume sets: "set added = set (task_ids p) - set (task_ids (dr_plan d))" "set removed = set (task_ids (dr_plan d)) - set (task_ids p)"
    and l2: "\<forall>x. live d2 x = (if x \<in> set added then Some (bare_task x Pending 0) else live d x)"
    and log: "new_events (waiting d2 \<union> set removed \<union> set added) (log_of (dr_stores d)) (log_of (dr_stores (adopt_amendment env am p d)))"
    and w3: "waiting d3 = waiting d2 - task_id ` set (plan_tasks p)"
    and l3: "\<forall>x. x \<notin> waiting d2 \<longrightarrow> live d3 x = live d2 x"
    and p3: "\<forall>x. x \<in> waiting d2 \<longrightarrow> map_option ts_status (live d3 x) \<in> {Some NeedsReplan, Some Pending}"
    and l4: "live (adopt_amendment env am p d) = live d3"
  consider "x \<in> waiting d2" | "x \<notin> waiting d2" "x \<in> set added" | "x \<notin> waiting d2" "x \<notin> set added" by blast
  then show ?thesis
  proof cases
    case 1
    have "x \<notin> waiting d3" using w3 assms by blast
    with 1 p3 show ?thesis by (auto simp: waiting_def l4)
  next
    case 2
    with l2 l3 show ?thesis by (simp add: l4 bare_task_def)
  next
    case 3
    have mem: "x \<in> task_id ` set (plan_tasks (dr_plan d))" "x \<notin> set removed" using 3 assms sets by auto
    have "log_status env q (adopt_amendment env am p d) x = log_status env q d x"
      unfolding log_status_def by (rule unmoved_events [OF log]) (use 3 mem in blast)
    with 3 l2 l3 mem show ?thesis by (simp add: l4)
  qed
qed

lemma adopt_agrees:
  assumes "agrees env q d"
  shows "agrees env q (adopt_amendment env am p d)"
proof -
  have plan: "dr_plan (adopt_amendment env am p d) = p"
    by (simp add: adopt_amendment_def Let_def persist_def record_event_def)
  have "agrees_on env q (adopt_amendment env am p d) x" if x: "x \<in> task_id ` set (plan_tasks p)" "x \<noteq> []" for x
    using adopt_spec [OF x(1), of env am d q]
  proof
    assume "map_option ts_status (live (adopt_amendment env am p d) x) \<in> {None, Some Pending}"
    then show ?thesis by (auto simp: agrees_on_def split: option.splits)
  next
    assume *: "x \<in> task_id ` set (plan_tasks (dr_plan d)) \<and> live (adopt_amendment env am p d) x = live d x
       \<and> log_status env q (adopt_amendment env am p d) x = log_status env q d x"
    then have "agrees_on env q d x" using assms x(2) by (auto simp: agrees_def list_all_iff)
    with * show ?thesis using agrees_on_marks [of "adopt_amendment env am p d" x d env q] by auto
  qed
  then show ?thesis by (auto simp: agrees_def list_all_iff plan)
qed

lemma agrees_calm:
  assumes "calm T d d'" "agrees env p d"
    "\<And>tid. tid \<in> T \<Longrightarrow> map_option ts_status (live d tid) \<in> {None, Some TaskRunning, Some Pending}"
  shows "agrees env p d'"
  using assms agrees_on_calm [OF assms(1)] by (auto simp: agrees_def list_all_iff calm_def)

lemma agrees_kept: "dr.keeps env (agrees env p)"
  unfolding dr.keeps_def
proof (intro conjI allI impI)
  show "agrees env p (io_transition (driver_io env) tid ts sm s)" if "agrees env p s" for tid ts sm s
    using that by (simp add: transition_agrees)
  show "agrees env p s'" if "agrees env p s" "view (driver_io env) s (task_id t) = (TaskRunning, n)"
    "io_execute (driver_io env) t n f s = Some (r, s')" for t n f s r s'
  proof -
    from that(2) obtain x where x: "live s (task_id t) = Some x" "ts_status x = TaskRunning"
      by (auto simp: view_live mark_def split: option.splits)
    from calm_driver_execute [of env t n f s r s'] that(3) x have "calm {task_id t} s s'" by simp
    then show ?thesis by (rule agrees_calm) (use that(1) x in auto)
  qed
  show "agrees env p s'" if "agrees env p s" "io_replan (driver_io env) tid s = (b, s')" for tid s b s'
  proof -
    have "on_needs_replan env tid s = (b, s')" using that(2) by simp
    then show ?thesis
    proof (cases rule: calm_replan)
      case unchanged
      then show ?thesis using agrees_calm [OF unchanged(2) that(1)] by blast
    next
      case (amended am p d1)
      then show ?thesis using adopt_agrees agrees_calm [OF amended(2) that(1)] by blast
    qed
  qed
qed

text \<open>A context as it is started, or resumed: its tasks are those the log projects to.\<close>

definition as_logged :: "driver_env \<Rightarrow> plan option \<Rightarrow> driver \<Rightarrow> bool" where
  "as_logged env p d \<longleftrightarrow> live d = run_tasks (project_state (de_meta env) p (log_of (dr_stores d)))"

lemma as_logged_agrees: "as_logged env p d \<Longrightarrow> agrees env p d"
  by (auto simp: as_logged_def agrees_def agrees_on_def log_status_def list_all_iff mark_def split: option.split)

text \<open>
  C1: the log of a run tells what became of its tasks: at the end of a run that was started or
  resumed from its log, every task of the plan that the live state has as completed, failed,
  blocked or waiting for a replan has that status in the projection of the event log, the first
  three with their attempt, whatever was executed, retried, amended and reverted in between.
\<close>
theorem live_agrees_with_log:
  assumes "drive_run env d = Some (outcome, failed, d')" "as_logged env p d"
  shows "agrees env p d'"
  using dr.scheduler_keeps [OF agrees_kept assms(1) [unfolded drive_run_def]] as_logged_agrees [OF assms(2)] .

section \<open>The model call budget\<close>

definition requests :: "driver \<Rightarrow> nat" where
  "requests d = length (filter (\<lambda>u. us_role u = ''executor'') (st_usage (dr_stores d)))"

definition frugal :: "driver \<Rightarrow> driver \<Rightarrow> bool" where
  "frugal d d' \<longleftrightarrow> requests d' = requests d \<and> dr_model_calls d' = dr_model_calls d
     \<and> (\<forall>tid. live d tid \<noteq> None \<longrightarrow> live d' tid \<noteq> None)"

lemma frugal_event: "frugal d (record_event env ty p d)"
  by (simp add: frugal_def requests_def record_event_def live_def)

lemma frugal_set_live: "frugal d (set_live tid t d)"
  by (simp add: frugal_def requests_def set_live_def live_def)

lemma frugal_trans: "frugal a b \<Longrightarrow> frugal b c \<Longrightarrow> frugal a c"
  by (simp add: frugal_def)

lemma frugal_sweep: "sweep env q d = (r, d') \<Longrightarrow> frugal d d'"
proof -
  assume s: "sweep env q d = (r, d')"
  obtain x s' where v: "verify_properties (de_sweep env) q (dr_stores d) = (x, s')" by force
  have "reports (st_usage (dr_stores d)) (st_usage s')" using verify_properties_grows [OF v] by (simp add: grows_by_def)
  then obtain new where new: "st_usage s' = st_usage (dr_stores d) @ new" "list_all (\<lambda>u. us_role u = ''verifier'') new"
    by (auto simp: reports_def)
  then have "filter (\<lambda>u. us_role u = ''executor'') new = []" by (auto simp: list_all_iff filter_empty_conv)
  with s v new(1) show ?thesis by (auto simp: sweep_def frugal_def requests_def live_def)
qed

interpretation fs: driver_steps frugal
proof
  show "frugal d d" for d by (simp add: frugal_def)
  show "frugal a b \<Longrightarrow> frugal b c \<Longrightarrow> frugal a c" for a b c by (rule frugal_trans)
  show "sweep env q d = (r, d') \<Longrightarrow> frugal d d'" for env q d r d' by (rule frugal_sweep)
qed (auto simp: frugal_event frugal_set_live, auto simp: frugal_def requests_def live_def merge_requirements_def)

lemma frugal_ask: "ask_replanner env n repair d = (x, d') \<Longrightarrow> frugal d d'"
  by (auto simp: ask_replanner_def Let_def frugal_def requests_def record_usage_def record_event_def set_world_def live_def
      split: prod.splits sum.splits)

lemma frugal_adopt: "frugal d (adopt_amendment env am p d)"
proof -
  have r: "frugal d (redispatch env tid d)" for tid d
    by (auto simp: redispatch_def split: option.split intro!: frugal_trans [OF frugal_set_live frugal_event])
  have u: "frugal d (d\<lparr>dr_versions := vs, dr_amendments := ams\<rparr>)" "frugal d (d\<lparr>dr_plan := p\<rparr>)"
    "frugal d (persist (d\<lparr>dr_state := (dr_state d)\<lparr>run_replans := k\<rparr>\<rparr>))" for vs ams p k d
    by (simp_all add: frugal_def requests_def live_def persist_def)
  show ?thesis
    unfolding adopt_amendment_def Let_def
    by (intro frugal_trans [OF _ u(3)] frugal_trans [OF _ frugal_event] frugal_trans [OF _ u(2)]
        frugal_trans [OF _ fs.fold_step] fs.fold_step frugal_set_live r u(1))
qed

lemma frugal_transition: "frugal d (transition env tid ts sm d)"
  by (cases "ts_status ts")
    (simp_all add: transition_def Let_def persist_def record_event_def set_live_def frugal_def requests_def live_def)

lemma frugal_replan: "on_needs_replan env tid d = (r, d') \<Longrightarrow> frugal d d'"
proof -
  assume a: "on_needs_replan env tid d = (r, d')"
  show ?thesis
  proof (cases rule: fs.replan_steps [OF a])
    case (3 am p d1)
    then show ?thesis using frugal_trans frugal_adopt by blast
  qed (use frugal_ask in auto)
qed

lemma requests_notified: "requests (notified env t n ns w d) = requests d + dispatches ns \<and> dr_model_calls (notified env t n ns w d) = dr_model_calls d"
proof -
  have "requests (fold (record_notice env t n) ns d) = requests d + dispatches ns
      \<and> dr_model_calls (fold (record_notice env t n) ns d) = dr_model_calls d" for d
  proof (induction ns arbitrary: d)
    case (Cons x ns)
    then show ?case
      by (cases x) (auto simp: record_usage_def record_event_def Let_def requests_def)
  qed simp
  then show ?thesis by (simp add: notified_def set_world_def requests_def)
qed

lemma thrown_frugal: "frugal d (snd (thrown_outcome env t n e d))"
  by (simp add: thrown_outcome_def frugal_event fs.refl)

lemma execute_cost:
  assumes "execute_in_run env t n d = Some (r, d')" "live d (task_id t) \<noteq> None"
  shows "requests d' = requests d \<and> dr_model_calls d' = dr_model_calls d
    \<or> dr_model_calls d < de_max_model_calls env \<and> dr_model_calls d' = dr_model_calls d + 1 \<and> requests d' \<le> requests d + 7"
proof (cases "de_max_model_calls env \<le> dr_model_calls d \<or> task_kind t = Verify")
  case True
  with assms(1) fs.verify_step [of env t _ d r d'] show ?thesis
    by (auto simp: execute_in_run_def reserve_def Let_def frugal_def split: if_splits)
next
  case False
  have res: "requests (reserve t d) = requests d" "dr_model_calls (reserve t d) = dr_model_calls d + 1"
    "live (reserve t d) (task_id t) \<noteq> None"
    using False assms(2) by (simp_all add: reserve_def requests_def live_def)
  show ?thesis
  proof (cases "de_provider env = None")
    case True
    with False assms(1) res show ?thesis by (auto simp: execute_in_run_def Let_def)
  next
    case provider: False
    then obtain name where name: "de_provider env = Some name" by blast
    let ?before = "snapshot_of (xe_runner (de_exec env)) (world (reserve t d))"
    have seven: "dispatches ns \<le> 7" if "execute_task e i w = Some (x, ns, w')" for e i w x ns w'
      using execute_dispatches [OF that] by linarith
    have run: "run_executor env t n ?before (reserve t d) = Some (r, d')"
      using False name assms(1) by (simp add: execute_in_run_def Let_def)
    have "requests d' \<le> requests d + 7 \<and> dr_model_calls d' = dr_model_calls d + 1"
      using run res(3)
    proof (cases rule: fs.run_executor_steps)
      case (thrown e ns w)
      with thrown_frugal [of "notified env t n ns w (reserve t d)" env t n e] seven [OF thrown(1)] res
        requests_notified [of env t n ns w "reserve t d"] show ?thesis by (simp add: frugal_def)
    next
      case (answered out ns w)
      with seven [OF answered(1)] res requests_notified [of env t n ns w "reserve t d"]
      show ?thesis by (simp add: frugal_def)
    qed
    with False show ?thesis by simp
  qed
qed

definition within_budget :: "driver_env \<Rightarrow> driver \<Rightarrow> driver \<Rightarrow> bool" where
  "within_budget env d d' \<longleftrightarrow> dr_model_calls d \<le> dr_model_calls d'
     \<and> dr_model_calls d' \<le> max (dr_model_calls d) (de_max_model_calls env)
     \<and> requests d' \<le> requests d + 7 * (dr_model_calls d' - dr_model_calls d)"

lemma within_frugal: "within_budget env d a \<Longrightarrow> frugal a b \<Longrightarrow> within_budget env d b"
  by (simp add: within_budget_def frugal_def)

lemma budget_kept: "dr.keeps env (within_budget env d)"
  unfolding dr.keeps_def
proof (intro conjI allI impI)
  show "within_budget env d (io_transition (driver_io env) tid ts sm s)" if "within_budget env d s" for tid ts sm s
    using within_frugal [OF that frugal_transition] by simp
  show "within_budget env d s'" if "within_budget env d s" "view (driver_io env) s (task_id t) = (TaskRunning, n)"
    "io_execute (driver_io env) t n f s = Some (r, s')" for t n f s r s'
  proof -
    from that(2) have l: "live s (task_id t) \<noteq> None" by (auto simp: view_live split: option.splits)
    from that(3) obtain x d1 where x: "execute_in_run env t n s = Some (x, d1)" by (auto simp: driver_execute_def)
    have "requests s' = requests d1 \<and> dr_model_calls s' = dr_model_calls d1"
      using that(3) x by (cases x) (auto simp: driver_execute_def requests_def split: if_splits)
    with execute_cost [OF x l] that(1) show ?thesis by (auto simp: within_budget_def)
  qed
  show "within_budget env d s'" if "within_budget env d s" "io_replan (driver_io env) tid s = (b, s')" for tid s b s'
    using within_frugal [OF that(1) frugal_replan] that(2) by simp
qed

text \<open>
  C13: the budget of model calls is kept by the count the run reserves, one for an execution; but
  an execution makes up to seven requests of the provider, so the requests a run makes for its
  tasks are bounded by seven times the executions that were left.
\<close>
theorem requests_bounded:
  assumes "drive_run env d = Some (outcome, failed, d')"
  shows "dr_model_calls d' \<le> max (dr_model_calls d) (de_max_model_calls env)
    \<and> requests d' \<le> requests d + 7 * (de_max_model_calls env - dr_model_calls d)"
proof -
  have "within_budget env d d" by (simp add: within_budget_def)
  from dr.scheduler_keeps [OF budget_kept assms [unfolded drive_run_def] this]
  show ?thesis by (auto simp: within_budget_def)
qed

section \<open>Write scope\<close>

text \<open>What a path a task changed must satisfy, and the commit that may follow.\<close>

definition in_task_scope :: "driver_env \<Rightarrow> task \<Rightarrow> string \<Rightarrow> bool" where
  "in_task_scope env t p \<longleftrightarrow> in_scope (task_write_targets t) p \<and> \<not> glob_match_any (de_protected env) p"

definition task_delta :: "driver_env \<Rightarrow> checkout \<Rightarrow> checkout \<Rightarrow> string list" where
  "task_delta env w w' =
     map fst (task_scope_delta (xe_runner (de_exec env)) (snapshot_of (xe_runner (de_exec env)) w) w')"

definition committed_from :: "driver_env \<Rightarrow> task \<Rightarrow> checkout \<Rightarrow> checkout \<Rightarrow> bool" where
  "committed_from env t w w' \<longleftrightarrow> w' = w
     \<or> w' = snd (commit_changes env (''spc: task '' @ task_id t @ '' (run '' @ run_of env @ '')'') (task_trailers env t) None w)"

lemma no_violations: "scope_violations env t ps = [] \<longleftrightarrow> list_all (in_task_scope env t) ps"
proof -
  have "enforce_protected_paths (de_protected env) ps = [] \<longleftrightarrow> filter (glob_match_any (de_protected env)) ps = []"
    by (metis map_is_Nil_conv write_scope_exact)
  then show ?thesis
    using write_scope_exact [of "task_write_targets t" ps "de_protected env"]
    by (simp add: scope_violations_def in_task_scope_def [abs_def] list_all_iff filter_empty_conv) blast
qed

lemma world_simps [simp]:
  "world (record_event env ty p d) = world d" "world (set_world w d) = w" "world (extend_attribution t ws d) = world d"
  "world (set_live tid x d) = world d" "world (merge_requirements sts d) = world d"
  by (simp_all add: world_def record_event_def set_world_def extend_attribution_def Let_def set_live_def merge_requirements_def)

lemma world_changes [simp]: "world (fold (record_change env t) cs d) = world d"
  by (induction cs arbitrary: d) (simp_all add: record_change_def)

lemma world_diff [simp]: "world (diff_evidence env t outcome payload d) = world d"
  by (auto simp: diff_evidence_def world_def add_evidence_def tick_def split: prod.split)

lemma commit_world: "commit_task env t n d = (r, d') \<Longrightarrow> committed_from env t (world d) (world d')"
  by (auto simp: commit_task_def committed_from_def Let_def split: prod.splits sum.splits option.splits)

lemma settle_in_scope:
  assumes "settle_execution env t n before out d = (Inr out', d')" "eo_status out' = XCompleted"
  shows "list_all (in_task_scope env t) (map fst (task_scope_delta (xe_runner (de_exec env)) before (world d)))
    \<and> committed_from env t (world d) (world d')"
proof -
  let ?delta = "task_scope_delta (xe_runner (de_exec env)) before (world d)"
  let ?vs = "scope_violations env t (map fst ?delta)"
  let ?d1 = "extend_attribution t (eo_attribution out) (fold (record_change env t) ?delta d)"
  let ?d3 = "diff_evidence env t Supports (changes_json ?delta) (revert_violations ?vs ?d1)"
  obtain x d4 where x: "commit_task env t n ?d3 = (x, d4)" by force
  have failed: "eo_status (violating_outcome t v) = XFailed" for v
    by (simp add: violating_outcome_def failed_outcome_def plain_outcome_def Let_def)
  have out: "out' = out" and vs: "?vs = []"
    using assms x failed [of "hd ?vs"] unfolding settle_execution_def Let_def by (auto split: if_splits sum.splits)
  have w: "world ?d3 = world d" using vs by (simp add: revert_violations_def)
  have "d' = revert_violations ?vs ?d1 \<or> d' = ?d3 \<or> d' = d4"
    using assms(1) x vs unfolding settle_execution_def Let_def by (auto split: if_splits sum.splits)
  then have "committed_from env t (world d) (world d')"
    using commit_world [OF x] w vs by (auto simp: committed_from_def revert_violations_def)
  with vs show ?thesis by (simp add: no_violations)
qed

lemma run_executor_in_scope:
  assumes "run_executor env t n before d = Some (Inr out, d')" "eo_status out = XCompleted"
  shows "\<exists>w. list_all (in_task_scope env t) (map fst (task_scope_delta (xe_runner (de_exec env)) before w))
    \<and> committed_from env t w (world d')"
proof -
  obtain answer ns w where ex: "execute_task (checked_exec env) (input_of env t n d) (world d) = Some (answer, ns, w)"
    using assms(1) by (auto simp: run_executor_def)
  let ?d1 = "notified env t n ns w d"
  show ?thesis
  proof (cases answer)
    case (Inl e)
    then have "out = fst (thrown_outcome env t n e ?d1)"
      using assms(1) ex by (auto simp: run_executor_def Let_def notified_def split: prod.splits)
    then show ?thesis using assms(2) by (simp add: thrown_outcome_def failed_outcome_def plain_outcome_def split: if_splits)
  next
    case (Inr a)
    have "\<not> proceeds env a"
    proof
      assume "proceeds env a"
      then have "out = fst (demote env t a ?d1)"
        using assms(1) ex Inr by (auto simp: run_executor_def Let_def notified_def split: prod.splits)
      then show False using assms(2) by (simp add: demote_def failed_outcome_def plain_outcome_def)
    qed
    then have "settle_execution env t n before a (persist_result env t (eo_result a) ?d1) = (Inr out, d')"
      using assms(1) ex Inr by (simp add: run_executor_def Let_def notified_def)
    from settle_in_scope [OF this assms(2)] show ?thesis by blast
  qed
qed

lemma verify_in_scope:
  assumes "verify_task env t before d = (Inr out, d')" "eo_status out = XCompleted"
  shows "list_all (in_task_scope env t) (map fst (task_scope_delta (xe_runner (de_exec env)) before (world d')))"
proof -
  from assms(1) obtain revision d0 where rev: "run_revision env d = (Inr revision, d0)"
    by (auto simp: verify_task_def split: sum.splits prod.splits)
  let ?q = "sweep_request_of env (filter (\<lambda>p. dp_id p \<in> set (opt_list (task_verifies t))) (ir_properties (de_ir env)))
    (Some (task_id t)) revision []"
  obtain x d1 where x: "sweep env ?q d0 = (x, d1)" by force
  with assms(1) rev obtain sts where sts: "x = Inr sts" by (cases x) (auto simp: verify_task_def)
  have failed: "eo_status (violating_outcome t v) = XFailed" for v
    by (simp add: violating_outcome_def failed_outcome_def plain_outcome_def Let_def)
  let ?vs = "scope_violations env t (map fst (task_scope_delta (xe_runner (de_exec env)) before (world (merge_requirements sts d1))))"
  have res: "(Inr out :: (task_failure, task_outcome) result, d') = (case ?vs of
      v # _ \<Rightarrow> (Inr (violating_outcome t v), revert_violations ?vs (merge_requirements sts d1))
    | [] \<Rightarrow> (Inr (plain_outcome XCompleted t (sweep_summary sts) None), merge_requirements sts d1))"
    using assms(1) by (simp add: verify_task_def rev x sts Let_def split: list.splits)
  show ?thesis
  proof (cases ?vs)
    case Nil
    have "d' = merge_requirements sts d1" using res unfolding Nil by simp
    with Nil show ?thesis by (simp add: no_violations)
  next
    case (Cons v vs)
    have "out = violating_outcome t v" using res unfolding Cons by simp
    with failed assms(2) show ?thesis by simp
  qed
qed


section \<open>Samples\<close>

definition sample_ir_for :: "desired_property list \<Rightarrow> spec_ir" where
  "sample_ir_for ps = sample_ir\<lparr>ir_properties := ps\<rparr>"

definition checkout_env :: "checkout sweep_env" where
  "checkout_env =
     \<lparr>sv_sha = (\<lambda>s. []), sv_vars = [], sv_clock = (\<lambda>n. ''t''), sv_uuid = (\<lambda>n. ''id''),
      sv_spawn = (\<lambda>c w. (Exited (Some 0) None ''ok'' [] False 5, w)),
      sv_file = (\<lambda>w p. map_option (\<lambda>c. (Some c, int (length c))) (co_files w p)), sv_view = (\<lambda>w. (FsDir [], None)),
      sv_provider = None, sv_commands = default_commands, sv_timeout_ms = 1000, sv_max_output = 100,
      sv_allow_agent_only = False, sv_require_red = False, sv_run_id = ''run-1'', sv_cwd = ''/w''\<rparr>"

text \<open>A git with one commit, at \<open>abc\<close>, and a clean checkout.\<close>

definition plain_git :: "checkout git" where
  "plain_git args w =
     (\<lparr>ga_ok = True, ga_timed_out = False, ga_stdout = (if take 1 args = [''rev-parse''] then ''abc'' else []), ga_stderr = []\<rparr>, w)"

definition sample_driver_env ::
  "(exec_request \<Rightarrow> checkout \<Rightarrow> (task_failure, executor_result) result \<times> checkout) \<Rightarrow> driver_env" where
  "sample_driver_env provider =
     \<lparr>de_sweep = checkout_env, de_exec = sample_exec provider, de_provider = Some ''fake'', de_model = (\<lambda>_. None),
      de_ask = (\<lambda>n r w. (Inl ''none'', w)), de_git = plain_git, de_is_dir = None,
      de_ir = sample_ir, de_meta = sample_meta, de_revision = ''abc'', de_suites = [], de_max_model_calls = 2,
      de_max_replans = 1, de_max_retries = 1, de_commit_per_task = False, de_proceed = False, de_tiered = False,
      de_high_risk = [], de_protected = []\<rparr>"

definition sample_driver :: "task list \<Rightarrow> driver" where
  "sample_driver ts =
     \<lparr>dr_stores = \<lparr>st_log = open_log ''run-1'' None, st_evidence = open_evidence None, st_followups = [], st_usage = [],
        st_verdicts = [], st_runs = [], st_cache = None, st_tick = 0, st_world = sample_checkout\<rparr>,
      dr_observations = \<lparr>os_file = None, os_records = []\<rparr>, dr_state = initial_state sample_meta (Some (sample_plan ts)),
      dr_ids = map task_id ts, dr_plan = sample_plan ts, dr_model_calls = 0, dr_attribution = None, dr_cancelled = False,
      dr_saved = None, dr_versions = [], dr_amendments = []\<rparr>"

definition statuses :: "(scheduler_outcome \<times> string list \<times> driver) option \<Rightarrow> (scheduler_outcome \<times> string list \<times> (task_status \<times> int) option list) option" where
  "statuses r = map_option (\<lambda>(out, failed, d). (out, failed, map (\<lambda>t. map_option mark (live d (task_id t))) (plan_tasks (dr_plan d)))) r"

lemma sample_logged: "as_logged (sample_driver_env honest) (Some (sample_plan [sample_task ''T001'' [] [''src/**'']]))
    (sample_driver [sample_task ''T001'' [] [''src/**'']])"
  by (simp add: as_logged_def live_def sample_driver_def sample_driver_env_def log_of_def open_log_def project_state_def)

lemma sample_run: "statuses (drive_run (sample_driver_env honest) (sample_driver [sample_task ''T001'' [] [''src/**'']]))
    = Some (Done, [], [Some (Completed, 1)])"
  by code_simp

abbreviation sample_t :: task where "sample_t \<equiv> sample_task ''T001'' [] [''src/**'']"

lemma live_agrees_with_log_witness:
  "\<exists>outcome failed d'. drive_run (sample_driver_env honest) (sample_driver [sample_t]) = Some (outcome, failed, d')
     \<and> agrees (sample_driver_env honest) (Some (sample_plan [sample_t])) d'"
proof -
  obtain outcome failed d' where r: "drive_run (sample_driver_env honest) (sample_driver [sample_t]) = Some (outcome, failed, d')"
    using drive_run_returns by (metis prod.exhaust)
  with live_agrees_with_log [OF r sample_logged] show ?thesis by blast
qed

lemma requests_bounded_witness:
  "\<exists>outcome failed d'. drive_run (sample_driver_env honest) (sample_driver [sample_t]) = Some (outcome, failed, d')
     \<and> dr_model_calls d' \<le> 2 \<and> requests d' \<le> 14"
proof -
  obtain outcome failed d' where r: "drive_run (sample_driver_env honest) (sample_driver [sample_t]) = Some (outcome, failed, d')"
    using drive_run_returns by (metis prod.exhaust)
  have "requests (sample_driver [sample_t]) = 0" "dr_model_calls (sample_driver [sample_t]) = 0"
    "de_max_model_calls (sample_driver_env honest) = 2"
    by (simp_all add: requests_def sample_driver_def sample_driver_env_def)
  with requests_bounded [OF r] r show ?thesis by simp
qed

definition completion :: "((task_failure, task_outcome) result \<times> driver) option \<Rightarrow> (executor_status option \<times> string option) option" where
  "completion r = map_option (\<lambda>(x, d). (case x of Inl _ \<Rightarrow> None | Inr out \<Rightarrow> Some (eo_status out), co_files (world d) ''src/b.ts'')) r"

lemma sample_completion:
  "completion (execute_in_run (sample_driver_env honest) sample_t 1 (sample_driver [sample_t])) = Some (Some XCompleted, Some ''new'')"
  by code_simp


end
