(* ===== verification/Attest.thy ===== *)
theory Attest
  imports Resolve Git Scheduler
begin

text \<open>
  Attestation and replay, \<^verbatim>\<open>packages/runtime/src/attestation.ts\<close> and \<^verbatim>\<open>replay.ts\<close>: a run that ends
  commits to its events and its evidence, optionally anchored in git; replay recomputes the
  projection, the commitment and the anchors. A record is attested with the stores as they are
  then, and checked against the stores as they are loaded later.
\<close>

section \<open>The commitment\<close>

record attestation =
  at_run_id :: string
  at_spec_id :: string
  at_status :: run_status
  at_event_count :: nat
  at_event_head :: string
  at_evidence_head :: string
  at_result :: "string option"
  at_time :: string
  at_anchor :: "(string \<times> string) option"

definition zero_head :: string where "zero_head = ''sha256:'' @ replicate 64 (CHR ''0'')"

text \<open>The ordered identifiers and digests of the evidence.\<close>

definition evidence_head_json :: "evidence list \<Rightarrow> json" where
  "evidence_head_json es =
     JArray (map (\<lambda>e. JObject [(''id'', JString (ev_id e)), (''digest'', JString (ev_digest e))]) es)"

definition evidence_head_of :: "(string \<Rightarrow> string) \<Rightarrow> evidence list \<Rightarrow> string" where
  "evidence_head_of sha es = digest_json sha (evidence_head_json es)"

definition attestation_json :: "attestation \<Rightarrow> (string \<times> json) list" where
  "attestation_json a = present
     [(''schema'', Some (JString ''spc-run-attestation/1'')), (''runId'', Some (JString (at_run_id a))),
      (''specId'', Some (JString (at_spec_id a))), (''status'', Some (JString (run_status_text (at_status a)))),
      (''eventCount'', Some (JNum (int (at_event_count a)))), (''eventChainHead'', Some (JString (at_event_head a))),
      (''evidenceHead'', Some (JString (at_evidence_head a))), (''resultRevision'', map_option JString (at_result a)),
      (''attestedAt'', Some (JString (at_time a))),
      (''gitAnchor'', map_option (\<lambda>(r, c). JObject [(''ref'', JString r), (''commit'', JString c)]) (at_anchor a))]"

text \<open>What the stores are committed to, before the anchor and the time are known.\<close>

definition commitment :: "'w sweep_env \<Rightarrow> string \<Rightarrow> run_status \<Rightarrow> string option \<Rightarrow> 'w run_stores \<Rightarrow> attestation" where
  "commitment env spec status result s =
     \<lparr>at_run_id = sv_run_id env, at_spec_id = spec, at_status = status, at_event_count = length (log_of s),
      at_event_head = (case event_chain_head (sv_sha env) (st_log s) of Some h \<Rightarrow> h | None \<Rightarrow> zero_head),
      at_evidence_head = evidence_head_of (sv_sha env) (vs_records (st_evidence s)),
      at_result = when_truthy result, at_time = [], at_anchor = None\<rparr>"

text \<open>The record is written, and appended to the log as an event.\<close>

definition publish :: "'w sweep_env \<Rightarrow> attestation \<Rightarrow> 'w run_stores \<Rightarrow> attestation \<times> 'w run_stores" where
  "publish env a s =
     (let full = a\<lparr>at_time := now_of env s\<rparr> in (full, emit env RUN_ATTESTED (attestation_json full) (tick s)))"

definition attest_records :: "'w sweep_env \<Rightarrow> string \<Rightarrow> run_status \<Rightarrow> 'w run_stores \<Rightarrow> attestation \<times> 'w run_stores" where
  "attest_records env spec status s = publish env (commitment env spec status None s) s"

section \<open>The anchor\<close>

record anchor_policy =
  an_in_git :: bool
  an_in_place_current :: bool
  an_worktree :: bool
  an_branch :: string

definition attest_title :: "string \<Rightarrow> run_status \<Rightarrow> string" where
  "attest_title run status = ''spc: attest run '' @ run @ '' (status '' @ run_status_text status @ '')''"

definition attestation_trailers :: "attestation \<Rightarrow> (string \<times> string) list" where
  "attestation_trailers a =
     [(''SPC-Run-Id'', at_run_id a), (''SPC-Attestation-Event-Count'', show_nat (at_event_count a)),
      (''SPC-Attestation-Event-Head'', at_event_head a), (''SPC-Attestation-Evidence-Head'', at_evidence_head a)]"

definition note_text :: "attestation \<Rightarrow> string" where
  "note_text a = attest_title (at_run_id a) (at_status a) @ newline @ newline
     @ join_with newline (map (\<lambda>(k, v). k @ '': '' @ v) (attestation_trailers a))"

text \<open>An empty commit on the run branch, or a note where the run is on the user's own branch.\<close>

definition anchor_commit ::
  "'w git \<Rightarrow> string \<Rightarrow> anchor_policy \<Rightarrow> attestation \<Rightarrow> 'w \<Rightarrow> (task_failure, (string \<times> string) option) result \<times> 'w" where
  "anchor_commit git cwd policy a w =
     (if \<not> an_in_git policy \<or> \<not> an_worktree policy then (Inr None, w)
      else if \<not> an_in_place_current policy then
        (case commit_empty git cwd (attest_title (at_run_id a) (at_status a)) (attestation_trailers a) w of
           (Inl e, w1) \<Rightarrow> (Inl e, w1)
         | (Inr c, w1) \<Rightarrow> (Inr (Some (''refs/heads/'' @ an_branch policy, c)), w1))
      else
        (case (case at_result a of Some r \<Rightarrow> (Inr r, w) | None \<Rightarrow> current_revision git cwd w) of
           (Inl e, w1) \<Rightarrow> (Inl e, w1)
         | (Inr target, w1) \<Rightarrow>
             if target = [] then (Inr None, w1)
             else
               (case git [''notes'', ''--ref=spc-attestations'', ''add'', ''-f'', ''-m'', note_text a, target] w1 of
                  (r, w2) \<Rightarrow> (Inr (if ga_ok r then Some (''refs/notes/spc-attestations'', target) else None), w2))))"

definition attest_run ::
  "'w sweep_env \<Rightarrow> 'w git \<Rightarrow> anchor_policy \<Rightarrow> string \<Rightarrow> run_status \<Rightarrow> string option \<Rightarrow> 'w run_stores
     \<Rightarrow> (task_failure, attestation) result \<times> 'w run_stores" where
  "attest_run env git policy spec status result s =
     (let a = commitment env spec status result s
      in case anchor_commit git (sv_cwd env) policy a (st_world s) of
           (Inl e, w) \<Rightarrow> (Inl e, s\<lparr>st_world := w\<rparr>)
         | (Inr anchor, w) \<Rightarrow>
             (case publish env (a\<lparr>at_anchor := anchor\<rparr>) (s\<lparr>st_world := w\<rparr>) of (full, s1) \<Rightarrow> (Inr full, s1)))"

section \<open>Replay\<close>

datatype attestation_verdict = AttVerified | AttExtended | AttMissing | AttBroken

definition head_at :: "(string \<Rightarrow> string) \<Rightarrow> event list \<Rightarrow> string" where
  "head_at sha es = (if es = [] then zero_head else event_digest sha (last es))"

definition check_attestation :: "(string \<Rightarrow> string) \<Rightarrow> attestation option \<Rightarrow> event list \<Rightarrow> evidence list \<Rightarrow> attestation_verdict" where
  "check_attestation sha recorded events evs =
     (case recorded of
        None \<Rightarrow> AttMissing
      | Some a \<Rightarrow>
          (let pre = take (at_event_count a) events
           in if length pre < at_event_count a then AttBroken
              else if head_at sha pre \<noteq> at_event_head a \<or> evidence_head_of sha evs \<noteq> at_evidence_head a then AttBroken
              else if list_all (\<lambda>e. e_type e = RUN_ATTESTED) (drop (at_event_count a) events) then AttVerified
              else AttExtended))"

subsection \<open>The projection\<close>

definition or_dash :: "string option \<Rightarrow> string" where "or_dash x = (case x of Some s \<Rightarrow> s | None \<Rightarrow> ''-'')"

definition differs :: "string \<Rightarrow> string \<Rightarrow> string \<Rightarrow> string list" where
  "differs what a b = (if a = b then [] else [what @ '': persisted '' @ a @ '', replayed '' @ b])"

fun task_status_name :: "task_status \<Rightarrow> string" where
  "task_status_name Pending = ''pending''" | "task_status_name Ready = ''ready''" | "task_status_name TaskRunning = ''running''"
| "task_status_name Completed = ''completed''" | "task_status_name TaskFailed = ''failed''" | "task_status_name TaskBlocked = ''blocked''"
| "task_status_name NeedsReplan = ''needs_replan''" | "task_status_name Skipped = ''skipped''" | "task_status_name TaskCancelled = ''cancelled''"

definition task_mark_text :: "task_state option \<Rightarrow> string" where
  "task_mark_text t = (case t of None \<Rightarrow> ''absent'' | Some x \<Rightarrow> task_status_name (ts_status x) @ ''/'' @ show_int (ts_attempt x))"

definition task_diff :: "run_state \<Rightarrow> run_state \<Rightarrow> string \<Rightarrow> string list" where
  "task_diff a b tid =
     (if run_tasks a tid = None \<or> run_tasks b tid = None \<or> map_option mark (run_tasks a tid) \<noteq> map_option mark (run_tasks b tid)
      then [''task '' @ tid @ '': persisted '' @ task_mark_text (run_tasks a tid) @ '', replayed '' @ task_mark_text (run_tasks b tid)]
      else [])"

definition requirement_mark_text :: "requirement_state option \<Rightarrow> string" where
  "requirement_mark_text r = (case r of None \<Rightarrow> ''absent'' | Some x \<Rightarrow> requirement_status_text (rs_status x))"

definition requirement_diff :: "run_state \<Rightarrow> run_state \<Rightarrow> string \<Rightarrow> string list" where
  "requirement_diff a b pid =
     (if run_requirements a pid = None \<or> run_requirements b pid = None
         \<or> map_option rs_status (run_requirements a pid) \<noteq> map_option rs_status (run_requirements b pid)
      then [''requirement '' @ pid @ '': persisted '' @ requirement_mark_text (run_requirements a pid)
              @ '', replayed '' @ requirement_mark_text (run_requirements b pid)]
      else [])"

text \<open>\<open>tids\<close> and \<open>pids\<close> are the keys of either state, the persisted ones first.\<close>

definition state_diffs :: "string list \<Rightarrow> string list \<Rightarrow> run_state \<Rightarrow> run_state \<Rightarrow> string list" where
  "state_diffs tids pids a b =
     (if run_status a = run_status b then []
      else [''status: persisted '' @ run_status_text (run_status a) @ '', replayed '' @ run_status_text (run_status b)])
     @ (if run_result_revision a = run_result_revision b then []
        else [''resultRevision: persisted '' @ or_dash (run_result_revision a) @ '', replayed '' @ or_dash (run_result_revision b)])
     @ differs ''modelCalls'' (show_nat (run_model_calls a)) (show_nat (run_model_calls b))
     @ differs ''replans'' (show_nat (run_replans a)) (show_nat (run_replans b))
     @ concat (map (task_diff a b) tids) @ concat (map (requirement_diff a b) pids)"

subsection \<open>The anchors\<close>

text \<open>\<open>/^KEY:[ \t]*(\S+)/m\<close>: the first line that carries the trailer.\<close>

definition line_ends :: "char \<Rightarrow> bool" where "line_ends c \<longleftrightarrow> c = CHR 0x0A \<or> c = CHR 0x0D"

definition trailer_on :: "string \<Rightarrow> string \<Rightarrow> string option" where
  "trailer_on key line =
     (if \<not> prefix (key @ '':'') line then None
      else (let v = takeWhile (\<lambda>c. \<not> js_space c) (dropWhile (\<lambda>c. c = CHR '' '' \<or> c = CHR 0x09) (drop (length key + 1) line))
            in if v = [] then None else Some v))"

fun first_some :: "('a \<Rightarrow> 'b option) \<Rightarrow> 'a list \<Rightarrow> 'b option" where
  "first_some f [] = None"
| "first_some f (x # xs) = (case f x of Some y \<Rightarrow> Some y | None \<Rightarrow> first_some f xs)"

definition trailer_value :: "string \<Rightarrow> string \<Rightarrow> string option" where
  "trailer_value key msg = first_some (trailer_on key) (split_on (CHR 0x0A) (map (\<lambda>c. if line_ends c then CHR 0x0A else c) msg))"

definition heads_in :: "string \<Rightarrow> string option \<times> string option" where
  "heads_in msg = (trailer_value ''SPC-Attestation-Event-Head'' msg, trailer_value ''SPC-Attestation-Evidence-Head'' msg)"

definition or_else :: "'a option \<Rightarrow> 'a option \<Rightarrow> 'a option" where
  "or_else a b = (case a of Some x \<Rightarrow> Some x | None \<Rightarrow> b)"

text \<open>The repository is read only here: \<open>git\<close> gives the answer and its state is not needed.\<close>

type_synonym git_reader = "string list \<Rightarrow> git_answer"

definition anchor_trailers :: "git_reader \<Rightarrow> string \<Rightarrow> string option \<times> string option" where
  "anchor_trailers git commit =
     (let (e, v) = heads_in (ga_stdout (git [''log'', ''-1'', ''--format=%B'', commit]))
      in if e \<noteq> None \<and> v \<noteq> None then (e, v)
         else (let note = git [''notes'', ''--ref=spc-attestations'', ''show'', commit];
                   (e', v') = heads_in (ga_stdout note)
               in if ga_ok note then (or_else e e', or_else v v') else (e, v)))"

definition nonempty_lines :: "string \<Rightarrow> string list" where
  "nonempty_lines out = filter (\<lambda>l. l \<noteq> []) (map trim (split_on (CHR 0x0A) out))"

text \<open>The last word of a trimmed line: the commit a note is attached to.\<close>

definition last_word :: "string \<Rightarrow> string" where
  "last_word line = rev (takeWhile (\<lambda>c. \<not> js_space c) (rev line))"

type_synonym commitments = "(string \<times> string option \<times> string option) list"

definition adopt_note :: "git_reader \<Rightarrow> string \<Rightarrow> string \<Rightarrow> commitments \<Rightarrow> commitments" where
  "adopt_note git run line cs =
     (let noted = last_word line; note = git [''notes'', ''--ref=spc-attestations'', ''show'', noted]; hs = heads_in (ga_stdout note)
      in if noted \<in> set (map fst cs) \<or> \<not> ga_ok note \<or> \<not> sublist (''spc: attest run '' @ run) (ga_stdout note) \<or> hs = (None, None)
         then cs else cs @ [(noted, hs)])"

definition adopt_scanned :: "git_reader \<Rightarrow> string \<Rightarrow> commitments \<Rightarrow> commitments" where
  "adopt_scanned git line cs =
     (let hs = anchor_trailers git line
      in if line \<in> set (map fst cs) \<or> hs = (None, None) then cs else cs @ [(line, hs)])"

definition gather_anchors :: "git_reader \<Rightarrow> string \<Rightarrow> commitments \<Rightarrow> commitments" where
  "gather_anchors git run recorded =
     (let notes = git [''notes'', ''--ref=spc-attestations'', ''list''];
          noted = (if ga_ok notes then fold (adopt_note git run) (nonempty_lines (ga_stdout notes)) recorded else recorded);
          scan = git [''log'', ''--all'', ''--grep'', ''spc: attest run '' @ run, ''--format=%H'']
      in fold (adopt_scanned git) (nonempty_lines (ga_stdout scan)) noted)"

datatype anchor_verdict = AnchorVerified | AnchorMismatch | AnchorUnavailable | Unanchored

definition anchor_of :: "attestation option \<Rightarrow> commitments \<Rightarrow> anchor_verdict" where
  "anchor_of recorded cs =
     (if cs = [] then Unanchored
      else case recorded of
        None \<Rightarrow> AnchorUnavailable
      | Some a \<Rightarrow>
          if list_all (\<lambda>(c, hs). hs = (Some (at_event_head a), Some (at_evidence_head a))) cs then AnchorVerified else AnchorMismatch)"

definition check_anchor :: "git_reader \<Rightarrow> string \<Rightarrow> attestation option \<Rightarrow> anchor_verdict" where
  "check_anchor git run recorded =
     (case Option.bind recorded at_anchor of
        Some (_, commit) \<Rightarrow>
          if \<not> ga_ok (git [''cat-file'', ''-e'', commit @ ''^{commit}'']) then AnchorUnavailable
          else anchor_of recorded (gather_anchors git run [(commit, anchor_trailers git commit)])
      | None \<Rightarrow> anchor_of recorded (gather_anchors git run []))"

record replay_report =
  rr_ok :: bool
  rr_projection_matches :: bool
  rr_diffs :: "string list"
  rr_attestation :: attestation_verdict
  rr_anchor :: anchor_verdict

text \<open>The report, from the stores as loaded, the saved state with its keys, and the recorded attestation.\<close>

definition replay_run ::
  "(string \<Rightarrow> string) \<Rightarrow> git_reader \<Rightarrow> run_meta \<Rightarrow> plan option \<Rightarrow> event list \<Rightarrow> evidence list
     \<Rightarrow> (string list \<times> string list \<times> run_state) option \<Rightarrow> attestation option \<Rightarrow> replay_report" where
  "replay_run sha git meta plan events evs saved recorded =
     (let replayed = project_state meta plan events;
          diffs = (case saved of
                     None \<Rightarrow> [''state.json missing; replayed state is the only projection'']
                   | Some (tids, pids, st) \<Rightarrow> state_diffs tids pids st replayed);
          matches = (saved = None \<or> diffs = []);
          att = check_attestation sha recorded events evs;
          anchor = check_anchor git (meta_run_id meta) recorded
      in \<lparr>rr_ok = (matches \<and> att \<noteq> AttBroken \<and> anchor \<noteq> AnchorMismatch \<and> anchor \<noteq> AnchorUnavailable),
          rr_projection_matches = matches, rr_diffs = diffs, rr_attestation = att, rr_anchor = anchor\<rparr>)"

section \<open>A commitment is kept by extension and broken by rewriting\<close>

lemma emits_log: "log_of (emit env ty p s) = log_of s @ [snd (event_append (sv_sha env) (sv_uuid env (st_tick s)) (sv_clock env (st_tick s)) ty p (st_log s))]"
  by (simp add: log_of_def emit_def tick_def event_append_def Let_def)

lemma published:
  "publish env a s = (full, s') \<Longrightarrow>
     (\<exists>e. log_of s' = log_of s @ [e] \<and> e_type e = RUN_ATTESTED) \<and> st_evidence s' = st_evidence s
     \<and> at_event_count full = at_event_count a \<and> at_event_head full = at_event_head a \<and> at_evidence_head full = at_evidence_head a"
  using emit_log [of env RUN_ATTESTED _ "tick s"] by (auto simp: publish_def Let_def)

lemma commitment_fields [simp]:
  "at_event_count (commitment env spec status result s) = length (log_of s)"
  "at_event_head (commitment env spec status result s) = head_at (sv_sha env) (log_of s)"
  "at_evidence_head (commitment env spec status result s) = evidence_head_of (sv_sha env) (vs_records (st_evidence s))"
  by (simp_all add: commitment_def head_at_def event_chain_head_def log_of_def)

lemma attested_verdict:
  assumes "attest_records env spec status s = (a, s')" "log_of s'' = log_of s' @ new"
    "vs_records (st_evidence s'') = vs_records (st_evidence s)"
  shows "check_attestation (sv_sha env) (Some a) (log_of s'') (vs_records (st_evidence s''))
    = (if list_all (\<lambda>e. e_type e = RUN_ATTESTED) new then AttVerified else AttExtended)"
proof -
  obtain e where e: "log_of s' = log_of s @ [e]" "e_type e = RUN_ATTESTED"
      "at_event_count a = length (log_of s)" "at_event_head a = head_at (sv_sha env) (log_of s)"
      "at_evidence_head a = evidence_head_of (sv_sha env) (vs_records (st_evidence s))"
    using published [OF assms(1) [unfolded attest_records_def]] by auto
  then show ?thesis using assms(2,3) by (simp add: check_attestation_def)
qed

text \<open>
  an attestation holds for good: as long as the evidence is unchanged, replay finds the
  commitment of a run intact whatever was appended to its log since, and tells a log that only
  holds attestations after it from one that was extended.
\<close>
theorem attestation_survives:
  assumes "attest_records env spec status s = (a, s')" "log_of s'' = log_of s' @ new"
    "vs_records (st_evidence s'') = vs_records (st_evidence s)"
  shows "check_attestation (sv_sha env) (Some a) (log_of s'') (vs_records (st_evidence s''))
    = (if list_all (\<lambda>e. e_type e = RUN_ATTESTED) new then AttVerified else AttExtended)"
  by (rule attested_verdict [OF assms])

lemma linked_prefix: "ev.linked sha p (xs @ ys) \<Longrightarrow> ev.linked sha p xs"
  by (induction xs arbitrary: p) auto

lemma digest_heads:
  assumes "event_chained sha xs" "event_chained sha ys" "xs \<noteq> []" "ys \<noteq> []" "head_at sha xs = head_at sha ys"
  shows "list_all2 same_event xs ys
    \<or> (\<exists>x \<in> set xs. \<exists>y \<in> set ys. event_clash sha x y) \<or> (\<exists>x \<in> set xs \<union> set ys. event_digest sha x = chain_genesis)"
  using assms evh.same_head [of sha xs ys]
  by (auto simp: event_chained_linked [symmetric] evh.tampered_def ev.head_def head_at_def list_all_iff)

text \<open>
  C18: a commitment cannot be met by another history: a chained log that replay does not call
  broken has, up to the attested count, the events that were attested, unless the hash function
  collides on two events or maps one to the genesis value.
\<close>
theorem attested_prefix_intact:
  assumes "attest_records env spec status s = (a, s')" "event_chained (sv_sha env) (log_of s)" "log_of s \<noteq> []"
    and "event_chained (sv_sha env) es" "check_attestation (sv_sha env) (Some a) es evs \<noteq> AttBroken"
  shows "list_all2 same_event (log_of s) (take (length (log_of s)) es)
    \<or> (\<exists>x \<in> set (log_of s). \<exists>y \<in> set es. event_clash (sv_sha env) x y)
    \<or> (\<exists>x \<in> set (log_of s) \<union> set es. event_digest (sv_sha env) x = chain_genesis)"
proof -
  let ?pre = "take (length (log_of s)) es"
  have a: "at_event_count a = length (log_of s)" "at_event_head a = head_at (sv_sha env) (log_of s)"
    using published [OF assms(1) [unfolded attest_records_def]] by auto
  have pre: "length ?pre = length (log_of s)" "head_at (sv_sha env) ?pre = head_at (sv_sha env) (log_of s)"
    using assms(5) a by (auto simp: check_attestation_def Let_def split: if_splits)
  have "event_chained (sv_sha env) ?pre"
    using assms(4) linked_prefix [of "sv_sha env" chain_genesis ?pre "drop (length (log_of s)) es"]
    by (simp flip: event_chained_linked)
  moreover have "?pre \<noteq> []" using pre(1) assms(3) by auto
  moreover have "set ?pre \<subseteq> set es" by (rule set_take_subset)
  ultimately show ?thesis using digest_heads [OF assms(2) _ assms(3) _ pre(2) [symmetric]] by blast
qed

text \<open>
  But the evidence is compared whole: one record more than at the attestation, as the answer to a
  follow-up adds, breaks the commitment, unless the hash collides.
\<close>

lemma evidence_head_eq:
  "evidence_head_of sha (es @ e # es') = evidence_head_of sha es \<longleftrightarrow> collides sha (evidence_head_json (es @ e # es')) (evidence_head_json es)"
proof -
  have "canonical_tree (evidence_head_json (es @ e # es')) \<noteq> canonical_tree (evidence_head_json es)"
    by (simp add: evidence_head_json_def)
  then show ?thesis by (simp add: evidence_head_of_def digest_json_eq_iff)
qed

lemma more_evidence_breaks:
  assumes "attest_records env spec status s = (a, s')" "vs_records (st_evidence s'') = vs_records (st_evidence s) @ e # es"
  shows "check_attestation (sv_sha env) (Some a) events (vs_records (st_evidence s'')) = AttBroken
    \<or> collides (sv_sha env) (evidence_head_json (vs_records (st_evidence s''))) (evidence_head_json (vs_records (st_evidence s)))"
  using published [OF assms(1) [unfolded attest_records_def]]
  by (auto simp: check_attestation_def Let_def assms(2) evidence_head_eq)

lemma evidence_add_extends: "evidence_add sha st r = (st', full) \<Longrightarrow> \<exists>e es. vs_records st' = vs_records st @ e # es"
  by (auto simp: evidence_add_def adopt_disk_tail_def Let_def split: option.splits prod.splits if_splits)

lemma answer_evidence:
  assumes "record_answer env rq f crit p s = (st, s')"
  shows "\<exists>e es. vs_records (st_evidence s') = vs_records (st_evidence s) @ e # es"
proof -
  obtain e s1 where a: "add_evidence env (human_evidence env rq f crit (dp_id p) s) (tick s) = (e, s1)" by force
  then have "\<exists>x xs. vs_records (st_evidence s1) = vs_records (st_evidence s) @ x # xs"
    by (auto simp: add_evidence_def split: prod.splits dest: evidence_add_extends)
  moreover have "st_evidence s' = st_evidence s1"
    using assms a by (auto simp: record_answer_def Let_def human_evidence_event_def)
  ultimately show ?thesis by simp
qed

text \<open>
  answering a follow-up of an attested run breaks its attestation: the answer of a human adds
  evidence, and replay calls the run broken although nothing before the attestation was touched.
\<close>
theorem answer_breaks_attestation:
  assumes "attest_records env spec status s = (a, s1)" "record_answer env rq f crit p s1 = (st, s2)"
  shows "check_attestation (sv_sha env) (Some a) (log_of s2) (vs_records (st_evidence s2)) = AttBroken
    \<or> collides (sv_sha env) (evidence_head_json (vs_records (st_evidence s2))) (evidence_head_json (vs_records (st_evidence s)))"
proof -
  have "st_evidence s1 = st_evidence s" using published [OF assms(1) [unfolded attest_records_def]] by blast
  with answer_evidence [OF assms(2)] more_evidence_breaks [OF assms(1)] show ?thesis by metis
qed

section \<open>What the projection check means\<close>

definition same_projection :: "string list \<Rightarrow> string list \<Rightarrow> run_state \<Rightarrow> run_state \<Rightarrow> bool" where
  "same_projection tids pids a b \<longleftrightarrow>
     run_status a = run_status b \<and> run_result_revision a = run_result_revision b
     \<and> run_model_calls a = run_model_calls b \<and> run_replans a = run_replans b
     \<and> (\<forall>tid \<in> set tids. run_tasks a tid \<noteq> None \<and> map_option mark (run_tasks a tid) = map_option mark (run_tasks b tid))
     \<and> (\<forall>pid \<in> set pids. run_requirements a pid \<noteq> None
          \<and> map_option rs_status (run_requirements a pid) = map_option rs_status (run_requirements b pid))"

lemma state_diffs_Nil: "state_diffs tids pids a b = [] \<longleftrightarrow> same_projection tids pids a b"
proof -
  have "task_diff a b tid = [] \<longleftrightarrow>
      run_tasks a tid \<noteq> None \<and> map_option mark (run_tasks a tid) = map_option mark (run_tasks b tid)" for tid
    by (cases "run_tasks a tid"; cases "run_tasks b tid") (simp_all add: task_diff_def)
  moreover have "requirement_diff a b pid = [] \<longleftrightarrow>
      run_requirements a pid \<noteq> None \<and> map_option rs_status (run_requirements a pid) = map_option rs_status (run_requirements b pid)" for pid
    by (cases "run_requirements a pid"; cases "run_requirements b pid") (simp_all add: requirement_diff_def)
  ultimately show ?thesis by (simp add: state_diffs_def same_projection_def differs_def)
qed

text \<open>
  a replay is in order exactly when there is no saved state or it agrees with the projection of
  the log in status, result, counts, tasks and requirements, the commitment is not broken and
  no anchor is missing or contradicts it.
\<close>
theorem replay_ok_exact:
  "rr_ok (replay_run sha git meta plan events evs saved recorded) \<longleftrightarrow>
     (case saved of None \<Rightarrow> True
      | Some (tids, pids, st) \<Rightarrow> same_projection tids pids st (project_state meta plan events))
     \<and> check_attestation sha recorded events evs \<noteq> AttBroken
     \<and> check_anchor git (meta_run_id meta) recorded \<in> {AnchorVerified, Unanchored}"
proof -
  have "(x \<noteq> AnchorMismatch \<and> x \<noteq> AnchorUnavailable) = (x \<in> {AnchorVerified, Unanchored})" for x
    by (cases x) auto
  moreover have "rr_ok (replay_run sha git meta plan events evs saved recorded) \<longleftrightarrow>
     (saved = None \<or> rr_diffs (replay_run sha git meta plan events evs saved recorded) = [])
     \<and> check_attestation sha recorded events evs \<noteq> AttBroken
     \<and> check_anchor git (meta_run_id meta) recorded \<noteq> AnchorMismatch \<and> check_anchor git (meta_run_id meta) recorded \<noteq> AnchorUnavailable"
    by (simp add: replay_run_def Let_def)
  moreover have "(saved = None \<or> rr_diffs (replay_run sha git meta plan events evs saved recorded) = []) \<longleftrightarrow>
     (case saved of None \<Rightarrow> True | Some (tids, pids, st) \<Rightarrow> same_projection tids pids st (project_state meta plan events))"
    by (simp add: replay_run_def Let_def state_diffs_Nil split: option.splits)
  ultimately show ?thesis by simp
qed

section \<open>Samples\<close>

definition attest_env :: "unit sweep_env" where "attest_env = sample_env\<lparr>sv_sha := \<lambda>s. s\<rparr>"

definition attested_stores :: "unit run_stores" where
  "attested_stores = emit attest_env TASK_READY [(''taskId'', JString ''T001'')] sample_stores"

lemma attested_log [simp]: "log_of sample_stores = []" "st_log sample_stores = open_log ''run-1'' None" "st_tick sample_stores = 0"
  "sv_sha attest_env = (\<lambda>s. s)"
  by (simp_all add: log_of_def sample_stores_def open_log_def attest_env_def)

lemma attested_stores_log: "log_of attested_stores = [new_event (sv_sha attest_env) (open_log ''run-1'' None) ''id'' ''t0'' TASK_READY [(''taskId'', JString ''T001'')]]"
  by (simp add: attested_stores_def emits_log event_append_def Let_def) (simp add: attest_env_def sample_env_def show_nat_0)

lemma attestation_survives_witness:
  "\<exists>a s'. attest_records attest_env ''SPEC-1'' Succeeded attested_stores = (a, s')
     \<and> check_attestation (sv_sha attest_env) (Some a) (log_of (emit attest_env RUN_FAILED [] s')) [] = AttExtended"
proof -
  obtain a s' where r: "attest_records attest_env ''SPEC-1'' Succeeded attested_stores = (a, s')" by force
  have e: "vs_records (st_evidence attested_stores) = []"
    by (simp add: attested_stores_def sample_stores_def open_evidence_def)
  have e': "st_evidence s' = st_evidence attested_stores"
    using published [OF r [unfolded attest_records_def]] by blast
  have "vs_records (st_evidence (emit attest_env RUN_FAILED [] s')) = vs_records (st_evidence attested_stores)" by (simp add: e')
  from attestation_survives [OF r emits_log this] e e' r
  show ?thesis by (simp add: event_append_def new_event_def Let_def)
qed

lemma attested_prefix_intact_witness:
  "\<exists>a s'. attest_records attest_env ''SPEC-1'' Succeeded attested_stores = (a, s')
     \<and> (list_all2 same_event (log_of attested_stores) (take 1 (log_of s'))
        \<or> (\<exists>x \<in> set (log_of attested_stores). \<exists>y \<in> set (log_of s'). event_clash (sv_sha attest_env) x y)
        \<or> (\<exists>x \<in> set (log_of attested_stores) \<union> set (log_of s'). event_digest (sv_sha attest_env) x = chain_genesis))"
proof -
  obtain a s' where r: "attest_records attest_env ''SPEC-1'' Succeeded attested_stores = (a, s')" by force
  have ev: "st_evidence s' = st_evidence attested_stores"
    using published [OF r [unfolded attest_records_def]] by blast
  have ok: "check_attestation (sv_sha attest_env) (Some a) (log_of s') (vs_records (st_evidence s')) \<noteq> AttBroken"
    using attested_verdict [OF r, of s' "[]"] ev by simp
  obtain e where e: "log_of s' = log_of attested_stores @ [e]"
      "e_chain e = Some (event_digest (sv_sha attest_env) (last (log_of attested_stores)))"
    using r unfolding attest_records_def publish_def Let_def
    by (auto simp: emits_log event_append_def new_event_def Let_def log_of_def tick_def attested_stores_def emit_def sample_stores_def open_log_def)
  have one: "event_chained (sv_sha attest_env) (log_of attested_stores)"
    by (simp add: attested_stores_log event_chained_def new_event_def open_log_def)
  with e have two: "event_chained (sv_sha attest_env) (log_of s')"
    by (simp add: attested_stores_log event_chained_def nth_append less_Suc_eq)
  have len: "length (log_of attested_stores) = 1" by (simp add: attested_stores_log)
  have "log_of attested_stores \<noteq> []" by (simp add: attested_stores_log)
  from attested_prefix_intact [OF r one this two ok] len r show ?thesis by auto
qed

lemma answer_breaks_attestation_witness:
  "\<exists>a s1 st s2. attest_records attest_env ''SPEC-1'' Succeeded attested_stores = (a, s1)
     \<and> record_answer attest_env (pick_option ''confirm'' []) answered ''REQ-001-a'' (sample_property []) s1 = (st, s2)
     \<and> check_attestation (sv_sha attest_env) (Some a) (log_of s2) (vs_records (st_evidence s2)) = AttBroken"
proof -
  obtain a s1 where a: "attest_records attest_env ''SPEC-1'' Succeeded attested_stores = (a, s1)" by force
  obtain st s2 where b: "record_answer attest_env (pick_option ''confirm'' []) answered ''REQ-001-a'' (sample_property []) s1 = (st, s2)" by force
  from answer_breaks_attestation [OF a b] a b show ?thesis by (auto simp: collides_def)
qed

end
