(* ===== verification/Runs.thy ===== *)
theory Runs
  imports Attest PlanValidate
begin

text \<open>
  The directory of runs and how a run is admitted, \<^verbatim>\<open>packages/runtime/src/run.ts\<close> and the parts of
  \<^verbatim>\<open>apply.ts\<close> before and after the driver that read other runs: preflight, the parent of a run, the
  flips and the satisfied properties it may inherit. The files of the runs are parameters: the
  metadata as parsed, the state and the evidence as text.
\<close>

section \<open>Plans and runs on disk\<close>

text \<open>\<open>n\<close> digits and what follows them, at the head of a text.\<close>

definition digits_then :: "string \<Rightarrow> string \<Rightarrow> string option" where
  "digits_then stop s =
     (let ds = takeWhile is_digit s in if ds \<noteq> [] \<and> prefix stop (dropWhile is_digit s) then Some ds else None)"

text \<open>\<open>/plan-\d{8}-(\d+)\.json/\<close> at the head of a text; and its leftmost match.\<close>

definition plan_number_here :: "string \<Rightarrow> string option" where
  "plan_number_here s =
     (if prefix ''plan-'' s \<and> length (drop 5 s) \<ge> 9 \<and> list_all is_digit (take 8 (drop 5 s)) \<and> s ! 13 = CHR ''-''
      then digits_then ''.json'' (drop 14 s) else None)"

fun plan_number :: "string \<Rightarrow> nat" where
  "plan_number [] = 0"
| "plan_number (c # s) = (case plan_number_here (c # s) of Some ds \<Rightarrow> read_nat ds | None \<Rightarrow> plan_number s)"

definition date_text :: "nat \<Rightarrow> nat \<Rightarrow> nat \<Rightarrow> string" where
  "date_text y m d = show_nat y @ pad_start 2 (CHR ''0'') (show_nat m) @ pad_start 2 (CHR ''0'') (show_nat d)"

definition plan_name :: "string \<Rightarrow> nat \<Rightarrow> string" where
  "plan_name date n = ''plan-'' @ date @ ''-'' @ pad_start 3 (CHR ''0'') (show_nat n)"

definition new_plan_id :: "string list \<Rightarrow> string \<Rightarrow> string" where
  "new_plan_id files date =
     (let existing = map plan_number (filter (prefix (''plan-'' @ date)) files)
      in plan_name date (if existing \<noteq> [] then Max (set existing) + 1 else 1))"

definition list_plans :: "string list \<Rightarrow> string list" where
  "list_plans files = sort (filter (\<lambda>f. suffix ''.json'' f \<and> \<not> suffix ''.approved.json'' f) files)"

definition latest_plan :: "string list \<Rightarrow> string option" where
  "latest_plan files = (if list_plans files = [] then None else Some (last (list_plans files)))"

record run_files =
  rf_runs :: "string list"
  rf_meta :: "string \<Rightarrow> run_meta option"
  rf_state :: "string \<Rightarrow> string option"
  rf_evidence :: "string \<Rightarrow> string option"
  rf_followups :: "string \<Rightarrow> followup list option"

definition superseded_by :: "run_files \<Rightarrow> string \<Rightarrow> string option" where
  "superseded_by rf run =
     first_some (\<lambda>other. case rf_meta rf other of
         Some m \<Rightarrow> if meta_supersedes_run_id m = Some run then Some (meta_run_id m) else None
       | None \<Rightarrow> None) (rf_runs rf)"

text \<open>The administrative replacement: an event of the superseding run and a field of its metadata.\<close>

definition run_supersede :: "'w sweep_env \<Rightarrow> run_files \<Rightarrow> string \<Rightarrow> string \<Rightarrow> 'w run_stores \<Rightarrow> (string, run_files \<times> 'w run_stores) result" where
  "run_supersede env rf old by_run s =
     (case (rf_meta rf old, rf_meta rf by_run) of
        (None, _) \<Rightarrow> Inl (''run '' @ old @ '' not found'')
      | (Some _, None) \<Rightarrow> Inl (''run '' @ by_run @ '' not found'')
      | (Some _, Some m) \<Rightarrow>
          Inr (rf\<lparr>rf_meta := (rf_meta rf)(by_run \<mapsto> m\<lparr>meta_supersedes_run_id := Some old\<rparr>)\<rparr>,
               emit env SUPERSEDED_RUN [(''supersededRunId'', JString old), (''byRunId'', JString by_run)] s))"

section \<open>Ancestors\<close>

text \<open>The walk along the recorded parents, without the run itself; it stops at a run it has seen.\<close>

definition parent_of :: "run_files \<Rightarrow> string \<Rightarrow> string option" where
  "parent_of rf run = (if run \<in> set (rf_runs rf) then Option.bind (rf_meta rf run) meta_parent_run_id else None)"

function ancestors_from :: "run_files \<Rightarrow> string list \<Rightarrow> string option \<Rightarrow> string list" where
  "ancestors_from rf visited cursor =
     (case when_truthy cursor of
        None \<Rightarrow> []
      | Some run \<Rightarrow> if run \<in> set visited then [] else run # ancestors_from rf (run # visited) (parent_of rf run))"
  by pat_completeness auto

termination
proof (relation "measures [\<lambda>(rf, visited, cursor). unvisited (rf_runs rf) visited, \<lambda>(rf, visited, cursor). if cursor = None then 0 else 1]", goal_cases)
  case (2 rf visited cursor run)
  have le: "unvisited (rf_runs rf) (run # visited) \<le> unvisited (rf_runs rf) visited"
  proof -
    have "length (filter (\<lambda>r. r \<notin> set (run # visited)) rs) \<le> length (filter (\<lambda>r. r \<notin> set visited) rs)" for rs
      by (induction rs) auto
    then show ?thesis unfolding unvisited_def .
  qed
  have "unvisited (rf_runs rf) (run # visited) < unvisited (rf_runs rf) visited" if "run \<in> set (rf_runs rf)"
  proof -
    have "unvisited (rf_runs rf) (run # visited) = length (filter (\<lambda>r. r \<noteq> run) (filter (\<lambda>r. r \<notin> set visited) (rf_runs rf)))"
      unfolding unvisited_def filter_filter by (intro arg_cong [where f = length] filter_cong) auto
    also have "\<dots> < unvisited (rf_runs rf) visited"
      unfolding unvisited_def using that 2(2) by (intro length_filter_less [of run]) auto
    finally show ?thesis .
  qed
  with le 2(1) show ?case
    by (cases "run \<in> set (rf_runs rf)") (auto simp: parent_of_def when_truthy_def split: option.splits if_splits)
qed simp

declare ancestors_from.simps [simp del]

definition ancestors :: "run_files \<Rightarrow> run_meta \<Rightarrow> string list" where
  "ancestors rf meta = ancestors_from rf [meta_run_id meta] (meta_parent_run_id meta)"

section \<open>Flips of the ancestors\<close>

text \<open>A parsed line: \<open>null\<close> has no fields to read, and the file is given up.\<close>

definition string_field :: "string \<Rightarrow> (string \<times> json) list \<Rightarrow> string option" where
  "string_field k fs = (case map_of fs k of Some (JString s) \<Rightarrow> Some s | _ \<Rightarrow> None)"

definition flip_record_of :: "json \<Rightarrow> flip_record option" where
  "flip_record_of j =
     (case j of
        JNull \<Rightarrow> None
      | JObject fs \<Rightarrow> Some \<lparr>fr_criterion = string_field ''criterionId'' fs, fr_outcome = string_field ''outcome'' fs,
          fr_phase = string_field ''phase'' fs, fr_payload = (case map_of fs ''payload'' of Some p \<Rightarrow> p | None \<Rightarrow> JNull)\<rparr>
      | _ \<Rightarrow> Some \<lparr>fr_criterion = None, fr_outcome = None, fr_phase = None, fr_payload = JNull\<rparr>)"

definition flip_records :: "string \<Rightarrow> flip_record list option" where
  "flip_records text =
     those (map (\<lambda>l. Option.bind (json_parse l) flip_record_of) (filter (\<lambda>l. l \<noteq> []) (split_on (CHR 0x0A) text)))"

definition ancestor_flips :: "run_files \<Rightarrow> string list \<Rightarrow> (string \<times> string) list" where
  "ancestor_flips rf runs =
     foldl (\<lambda>flips run. case Option.bind (rf_evidence rf run) flip_records of
         None \<Rightarrow> flips | Some rs \<Rightarrow> adopt_ancestor_flips rs run flips) [] runs"

section \<open>What a continuation inherits\<close>

definition entries_of :: "json \<Rightarrow> (string \<times> json) list" where
  "entries_of j = (case j of JObject fs \<Rightarrow> fs | JArray xs \<Rightarrow> zip (map show_nat [0..<length xs]) xs | _ \<Rightarrow> [])"

definition recorded_satisfied :: "json \<Rightarrow> bool" where
  "recorded_satisfied j = (case j of JObject fs \<Rightarrow> map_of fs ''status'' = Some (JString ''satisfied'') | _ \<Rightarrow> False)"

fun adopt_satisfied :: "string \<Rightarrow> (string \<times> json) list \<Rightarrow> (string \<times> string) list \<Rightarrow> (string \<times> string) list" where
  "adopt_satisfied run [] prior = prior"
| "adopt_satisfied run ((pid, j) # rest) prior =
     (if j = JNull then prior
      else adopt_satisfied run rest (if recorded_satisfied j \<and> map_of prior pid = None then prior @ [(pid, run)] else prior))"

definition recorded_requirements :: "string \<Rightarrow> (string \<times> json) list" where
  "recorded_requirements text =
     (case json_parse text of
        Some (JObject fs) \<Rightarrow> (case map_of fs ''requirements'' of Some j \<Rightarrow> entries_of j | None \<Rightarrow> [])
      | _ \<Rightarrow> [])"

definition same_contract :: "spec_ir \<Rightarrow> run_meta \<Rightarrow> bool" where
  "same_contract ir m \<longleftrightarrow> meta_spec_id m = ns_id (ir_spec ir) \<and> meta_spec_digest m = ir_digest ir"

definition adopt_prior :: "run_files \<Rightarrow> spec_ir \<Rightarrow> (string \<times> string) list \<Rightarrow> string \<Rightarrow> (string \<times> string) list" where
  "adopt_prior rf ir prior run =
     (case rf_meta rf run of
        None \<Rightarrow> prior
      | Some m \<Rightarrow>
          if \<not> same_contract ir m then prior
          else (case rf_state rf run of None \<Rightarrow> prior | Some text \<Rightarrow> adopt_satisfied run (recorded_requirements text) prior))"

definition prior_satisfied :: "run_files \<Rightarrow> spec_ir \<Rightarrow> string list \<Rightarrow> (string \<times> string) list" where
  "prior_satisfied rf ir runs = foldl (adopt_prior rf ir) [] runs"

section \<open>The parent of a run\<close>

text \<open>Newest first, runs of the same time in the order of the directory; the time stamps are ISO texts.\<close>

fun insert_newest :: "(string \<Rightarrow> string) \<Rightarrow> string \<Rightarrow> string list \<Rightarrow> string list" where
  "insert_newest created x [] = [x]"
| "insert_newest created x (y # ys) = (if created y < created x then x # y # ys else y # insert_newest created x ys)"

definition newest_first :: "(string \<Rightarrow> string) \<Rightarrow> string list \<Rightarrow> string list" where
  "newest_first created runs = foldl (\<lambda>acc x. insert_newest created x acc) [] runs"

definition result_of_state :: "string \<Rightarrow> string option" where
  "result_of_state text =
     (case json_parse text of Some (JObject fs) \<Rightarrow> when_truthy (string_field ''resultRevision'' fs) | _ \<Rightarrow> None)"

text \<open>\<open>is_ancestor\<close> is the answer of \<^verbatim>\<open>git merge-base --is-ancestor\<close> for the base of the new run.\<close>

definition eligible_parent :: "run_files \<Rightarrow> spec_ir \<Rightarrow> (string \<Rightarrow> bool) \<Rightarrow> string \<Rightarrow> bool" where
  "eligible_parent rf ir is_ancestor run \<longleftrightarrow>
     (case rf_meta rf run of
        None \<Rightarrow> False
      | Some m \<Rightarrow> meta_kind m = Apply \<and> same_contract ir m
          \<and> (case Option.bind (rf_state rf run) result_of_state of None \<Rightarrow> False | Some r \<Rightarrow> is_ancestor r))"

definition created_at :: "run_files \<Rightarrow> string \<Rightarrow> string" where
  "created_at rf run = (case rf_meta rf run of Some m \<Rightarrow> meta_created_at m | None \<Rightarrow> [])"

definition default_parent :: "run_files \<Rightarrow> spec_ir \<Rightarrow> (string \<Rightarrow> bool) \<Rightarrow> string \<Rightarrow> string option" where
  "default_parent rf ir is_ancestor self =
     List.find (\<lambda>run. run \<noteq> self \<and> eligible_parent rf ir is_ancestor run) (newest_first (created_at rf) (rf_runs rf))"

definition parent_invalid :: "string \<Rightarrow> string \<Rightarrow> task_failure" where
  "parent_invalid run why = coded ''RUN_PARENT_INVALID'' (''parent '' @ run @ why)"

definition validate_parent :: "run_files \<Rightarrow> spec_ir \<Rightarrow> (string \<Rightarrow> bool) \<Rightarrow> string \<Rightarrow> (task_failure, string) result" where
  "validate_parent rf ir is_ancestor run =
     (case rf_meta rf run of
        None \<Rightarrow> Inl (parent_invalid run '' is not an apply run'')
      | Some m \<Rightarrow>
          if meta_kind m \<noteq> Apply then Inl (parent_invalid run '' is not an apply run'')
          else if \<not> same_contract ir m then Inl (parent_invalid run '' belongs to a different spec contract'')
          else
            (case rf_state rf run of
               None \<Rightarrow> Inl (parent_invalid run '' has no recorded state'')
             | Some text \<Rightarrow>
                 if json_parse text = None then Inl (coded [] ''Unexpected token in JSON'')
                 else if json_parse text = Some JNull then Inl (coded [] ''Cannot read properties of null (reading 'resultRevision')'')
                 else
                   (case result_of_state text of
                      Some r \<Rightarrow> if is_ancestor r then Inr run
                        else Inl (parent_invalid run '''s result is not a git ancestor of this run's base - not in its lineage'')
                    | None \<Rightarrow> Inl (parent_invalid run '''s result is not a git ancestor of this run's base - not in its lineage''))))"

section \<open>Preflight\<close>

text \<open>What a run finds when it starts: the status of the checkout, the settings and the approval of the plan.\<close>

record preflight =
  pf_status :: "(string \<times> string) list"
  pf_allow :: "string list"
  pf_allow_dirty :: bool
  pf_force :: bool
  pf_require_approval :: bool
  pf_approved :: bool

definition human_changes :: "(string \<times> string) list \<Rightarrow> string list" where
  "human_changes entries = map fst (filter (\<lambda>(p, xy). \<not> (prefix ''.spc/'' p \<and> CHR ''?'' \<in> set xy)) entries)"

definition dirty_offenders :: "preflight \<Rightarrow> string list" where
  "dirty_offenders pf = filter (\<lambda>p. \<not> glob_match_any (pf_allow pf) p) (human_changes (pf_status pf))"

definition dirty_allowed :: "preflight \<Rightarrow> string list" where
  "dirty_allowed pf = filter (glob_match_any (pf_allow pf)) (human_changes (pf_status pf))"

definition plan_writes :: "plan \<Rightarrow> string list" where "plan_writes p = concat (map write_targets (plan_tasks p))"

definition gating_followups :: "run_files \<Rightarrow> spec_ir \<Rightarrow> string \<Rightarrow> followup list" where
  "gating_followups rf ir run =
     (case (rf_followups rf run, rf_meta rf run) of
        (Some fs, Some m) \<Rightarrow> if meta_spec_id m = ns_id (ir_spec ir) then open_blocking fs else []
      | _ \<Rightarrow> [])"

definition check_preflight :: "preflight \<Rightarrow> run_files \<Rightarrow> plan \<Rightarrow> spec_ir \<Rightarrow> task_failure option" where
  "check_preflight pf rf p ir =
     (let diags = validate_plan p ir None;
          gates = filter (\<lambda>run. gating_followups rf ir run \<noteq> []) (rf_runs rf)
      in if has_errors diags
         then Some (coded ''PLAN_INVALID'' (''plan '' @ plan_id p @ '' failed validation:'' @ newline @ format_diagnostics diags None))
         else if dirty_offenders pf \<noteq> [] \<and> \<not> pf_allow_dirty pf
         then Some (coded ''DIRTY_REPOSITORY'' (''working tree is dirty ('' @ show_nat (length (dirty_offenders pf))
                @ '' changed paths not covered by execution.allowDirtyPaths: '' @ join_with '', '' (take 5 (dirty_offenders pf))
                @ ''); commit or stash first, scope them via allowDirtyPaths, or pass --allow-dirty (blanket, deprecated)''))
         else case List.find (glob_match_any (plan_writes p)) (dirty_allowed pf) of
           Some d \<Rightarrow> Some (coded ''DIRTY_PATH_SCOPE'' (''allowlisted dirty path \"'' @ d
               @ ''\" overlaps the plan's declared write targets; the exemption must never override task scope - commit or stash the path, or narrow the write targets''))
         | None \<Rightarrow>
             if pf_require_approval pf \<and> \<not> pf_approved pf
             then Some (coded ''PLAN_APPROVAL_REQUIRED'' (''plan '' @ plan_id p
                    @ '' requires approval before execution; run: spc plan approve '' @ plan_id p))
             else if pf_force pf then None
             else (case gates of
                [] \<Rightarrow> None
              | run # _ \<Rightarrow> Some (coded ''BLOCKED_BY_FOLLOWUP'' (''run '' @ run @ '' has unresolved blocking follow-ups:'' @ newline
                    @ join_with newline (map (\<lambda>f. ''  '' @ fu_id f @ '' '' @ fu_title f) (gating_followups rf ir run)) @ newline
                    @ ''Resolve with spc followup resolve, or pass --force''))))"

text \<open>A run of the same plan whose saved state still says it is running.\<close>

definition state_running :: "string \<Rightarrow> bool" where
  "state_running text =
     (case json_parse text of Some (JObject fs) \<Rightarrow> string_field ''status'' fs = Some ''running'' | _ \<Rightarrow> False)"

definition in_flight :: "run_files \<Rightarrow> plan \<Rightarrow> string option" where
  "in_flight rf p =
     List.find (\<lambda>run. case rf_meta rf run of
         None \<Rightarrow> False
       | Some m \<Rightarrow> meta_plan_id m = Some (plan_id p) \<and> (case rf_state rf run of None \<Rightarrow> False | Some text \<Rightarrow> state_running text))
       (rf_runs rf)"

section \<open>What admission means\<close>

lemma find_glob: "List.find (glob_match_any ps) ds = None \<longleftrightarrow> list_all (\<lambda>d. \<not> glob_match_any ps d) ds"
  by (auto simp: find_None_iff list_all_iff)

text \<open>
  C17: a run is admitted exactly when its plan is valid, every human change of the checkout is exempt
  or dirt was allowed, no exempt change lies under a write target of the plan, the plan is approved
  where that is required, and no run of the specification waits for an answer, unless forced.
\<close>
theorem preflight_exact:
  "check_preflight pf rf p ir = None \<longleftrightarrow>
     \<not> has_errors (validate_plan p ir None)
     \<and> (pf_allow_dirty pf \<or> list_all (glob_match_any (pf_allow pf)) (human_changes (pf_status pf)))
     \<and> list_all (\<lambda>d. glob_match_any (pf_allow pf) d \<longrightarrow> \<not> glob_match_any (plan_writes p) d) (human_changes (pf_status pf))
     \<and> (pf_require_approval pf \<longrightarrow> pf_approved pf)
     \<and> (pf_force pf \<or> list_all (\<lambda>run. gating_followups rf ir run = []) (rf_runs rf))"
proof -
  have a: "dirty_offenders pf = [] \<longleftrightarrow> list_all (glob_match_any (pf_allow pf)) (human_changes (pf_status pf))"
    by (simp add: dirty_offenders_def filter_empty_conv list_all_iff)
  have b: "List.find (glob_match_any (plan_writes p)) (dirty_allowed pf) = None \<longleftrightarrow>
      list_all (\<lambda>d. glob_match_any (pf_allow pf) d \<longrightarrow> \<not> glob_match_any (plan_writes p) d) (human_changes (pf_status pf))"
    by (simp add: find_glob dirty_allowed_def list_all_iff) blast
  have c: "filter (\<lambda>run. gating_followups rf ir run \<noteq> []) (rf_runs rf) = [] \<longleftrightarrow> list_all (\<lambda>run. gating_followups rf ir run = []) (rf_runs rf)"
    by (simp add: filter_empty_conv list_all_iff)
  define dirty where "dirty \<longleftrightarrow> dirty_offenders pf \<noteq> [] \<and> \<not> pf_allow_dirty pf"
  define overlap where "overlap = List.find (glob_match_any (plan_writes p)) (dirty_allowed pf)"
  define gates where "gates = filter (\<lambda>run. gating_followups rf ir run \<noteq> []) (rf_runs rf)"
  have "check_preflight pf rf p ir = None \<longleftrightarrow> \<not> has_errors (validate_plan p ir None) \<and> \<not> dirty \<and> overlap = None
      \<and> (pf_require_approval pf \<longrightarrow> pf_approved pf) \<and> (pf_force pf \<or> gates = [])"
    unfolding check_preflight_def Let_def dirty_def [symmetric] overlap_def [symmetric] gates_def [symmetric]
    by (cases overlap; cases gates) simp_all
  with a b c show ?thesis by (simp add: dirty_def overlap_def gates_def) blast
qed

definition quiet_preflight :: preflight where
  "quiet_preflight = \<lparr>pf_status = [(''src/a.ts'', '' M'')], pf_allow = [''src/**''], pf_allow_dirty = False, pf_force = False,
     pf_require_approval = True, pf_approved = True\<rparr>"

definition no_runs :: run_files where
  "no_runs = \<lparr>rf_runs = [], rf_meta = (\<lambda>_. None), rf_state = (\<lambda>_. None), rf_evidence = (\<lambda>_. None), rf_followups = (\<lambda>_. None)\<rparr>"

definition plain_ir :: spec_ir where
  "plain_ir = \<lparr>ir_spec = \<lparr>ns_id = ''spec'', ns_title = ''Spec'', ns_description = None, ns_goal = ''ship it'',
     ns_imports = None, ns_required_secrets = None, ns_requirements = [], ns_constraints = [], ns_out_of_scope = []\<rparr>,
     ir_properties = [], ir_digest = ''digest'', ir_imported_files = None\<rparr>"

lemma preflight_exact_witness:
  "check_preflight quiet_preflight no_runs (sample_plan []) plain_ir = None
     \<and> list_all (glob_match_any [''src/**'']) (human_changes [(''src/a.ts'', '' M'')])"
proof -
  have "check_preflight quiet_preflight no_runs (sample_plan []) plain_ir = None" by code_simp
  with preflight_exact [of quiet_preflight no_runs "sample_plan []" plain_ir] show ?thesis by (simp add: quiet_preflight_def)
qed

section \<open>What the parent is\<close>

lemma newest_set [simp]: "set (insert_newest created x ys) = insert x (set ys)"
  by (induction ys) auto

lemma newest_first_set [simp]: "set (newest_first created runs) = set runs"
proof -
  have "set (foldl (\<lambda>acc x. insert_newest created x acc) acc runs) = set acc \<union> set runs" for acc
    by (induction runs arbitrary: acc) auto
  then show ?thesis by (simp add: newest_first_def)
qed

lemma newest_first_sorted: "sorted_wrt (\<lambda>a b. \<not> created a < created b) (newest_first created runs)"
proof -
  have one: "sorted_wrt (\<lambda>a b. \<not> created a < created b) ys \<Longrightarrow> sorted_wrt (\<lambda>a b. \<not> created a < created b) (insert_newest created x ys)" for x ys
    by (induction ys) (auto simp: not_less intro: order.trans)
  have "sorted_wrt (\<lambda>a b. \<not> created a < created b) acc \<Longrightarrow>
      sorted_wrt (\<lambda>a b. \<not> created a < created b) (foldl (\<lambda>acc x. insert_newest created x acc) acc runs)" for acc
    by (induction runs arbitrary: acc) (auto intro: one)
  then show ?thesis by (simp add: newest_first_def)
qed

lemma find_first_sorted:
  "sorted_wrt R xs \<Longrightarrow> List.find P xs = Some x \<Longrightarrow> P x \<and> x \<in> set xs \<and> (\<forall>y \<in> set xs. P y \<longrightarrow> y = x \<or> R x y)"
  by (induction xs) (auto split: if_splits)

lemma eligible_validates: "eligible_parent rf ir anc run \<Longrightarrow> validate_parent rf ir anc run = Inr run"
  by (auto simp: eligible_parent_def validate_parent_def result_of_state_def split: option.splits json.splits)

text \<open>
  the parent a run takes by default is one it could have been given: a recorded apply run of
  the same specification and digest whose result is an ancestor of the base; and of those no other is
  newer. There is none only when no run qualifies.
\<close>
theorem default_parent_exact:
  "case default_parent rf ir anc self of
     Some p \<Rightarrow> p \<in> set (rf_runs rf) \<and> p \<noteq> self \<and> validate_parent rf ir anc p = Inr p
       \<and> list_all (\<lambda>run. run \<noteq> self \<and> eligible_parent rf ir anc run \<longrightarrow> \<not> created_at rf p < created_at rf run) (rf_runs rf)
   | None \<Rightarrow> list_all (\<lambda>run. run \<noteq> self \<longrightarrow> \<not> eligible_parent rf ir anc run) (rf_runs rf)"
proof (cases "default_parent rf ir anc self")
  case None
  then have "\<forall>run \<in> set (rf_runs rf). run \<noteq> self \<longrightarrow> \<not> eligible_parent rf ir anc run"
    by (auto simp: default_parent_def find_None_iff)
  with None show ?thesis by (simp add: list_all_iff)
next
  case (Some p)
  from find_first_sorted [OF newest_first_sorted Some [unfolded default_parent_def]] Some eligible_validates
  show ?thesis by (auto simp: list_all_iff)
qed

section \<open>What is inherited\<close>

definition witnessed :: "run_files \<Rightarrow> spec_ir \<Rightarrow> string \<Rightarrow> string \<Rightarrow> bool" where
  "witnessed rf ir pid run \<longleftrightarrow>
     (\<exists>m text j. rf_meta rf run = Some m \<and> same_contract ir m \<and> rf_state rf run = Some text
        \<and> (pid, j) \<in> set (recorded_requirements text) \<and> recorded_satisfied j)"

lemma adopt_satisfied_sound:
  "(pid, r) \<in> set (adopt_satisfied run fs prior) \<Longrightarrow>
     (pid, r) \<in> set prior \<or> r = run \<and> (\<exists>j. (pid, j) \<in> set fs \<and> recorded_satisfied j)"
  by (induction run fs prior rule: adopt_satisfied.induct) (auto split: if_splits)

lemma prior_satisfied_sound:
  "(pid, run) \<in> set (prior_satisfied rf ir runs) \<Longrightarrow> run \<in> set runs \<and> witnessed rf ir pid run"
proof (induction runs rule: rev_induct)
  case Nil
  then show ?case by (simp add: prior_satisfied_def)
next
  case (snoc x runs)
  have step: "prior_satisfied rf ir (runs @ [x]) = adopt_prior rf ir (prior_satisfied rf ir runs) x"
    by (simp add: prior_satisfied_def)
  show ?case
  proof (cases "(pid, run) \<in> set (prior_satisfied rf ir runs)")
    case True
    then show ?thesis using snoc.IH by simp
  next
    case False
    with snoc.prems obtain m body where x: "rf_meta rf x = Some m" "same_contract ir m" "rf_state rf x = Some body"
        "(pid, run) \<in> set (adopt_satisfied x (recorded_requirements body) (prior_satisfied rf ir runs))"
      by (auto simp: step adopt_prior_def split: option.splits if_splits)
    from adopt_satisfied_sound [OF x(4)] False obtain j where "run = x" "(pid, j) \<in> set (recorded_requirements body)" "recorded_satisfied j"
      by auto
    with x show ?thesis by (auto simp: witnessed_def)
  qed
qed

lemma ancestors_distinct: "distinct (ancestors_from rf visited cursor) \<and> set (ancestors_from rf visited cursor) \<inter> set visited = {}"
proof (induction rf visited cursor rule: ancestors_from.induct)
  case (1 rf visited cursor)
  then show ?case
    by (subst (1 2) ancestors_from.simps) (auto split: option.splits)
qed

text \<open>
  A plan identifier is new: the number of the next plan is above the number of every plan of the day.
\<close>

lemma plan_number_name:
  assumes "length date = 8" "list_all is_digit date"
  shows "plan_number (plan_name date n @ ''.json'') = n"
proof -
  have d: "list_all is_digit (pad_start 3 (CHR ''0'') (show_nat n))"
    using show_nat_digits [of _ n] by (auto simp: list_all_iff pad_start_def is_digit_def less_eq_char_def)
  have stop: "takeWhile is_digit (xs @ ''.json'') = xs \<and> dropWhile is_digit (xs @ ''.json'') = ''.json''" if "list_all is_digit xs" for xs
    using that by (induction xs) (auto simp: is_digit_def less_eq_char_def)
  have ne: "pad_start 3 (CHR ''0'') (show_nat n) \<noteq> []" by (simp add: pad_start_def)
  have "read_nat (pad_start 3 (CHR ''0'') (show_nat n)) = n" by (simp add: pad_start_def read_nat_zeros)
  moreover have "(date @ CHR ''-'' # r) ! 8 = CHR ''-''" for r using assms(1) by (simp add: nth_append)
  ultimately show ?thesis using stop [OF d] ne assms
    by (simp add: plan_name_def plan_number_here_def digits_then_def)
qed

text \<open>
  a new plan never takes the name of a plan on disk: whatever files there are, approvals and
  strangers among them, the file of the new identifier is not one of them.
\<close>
theorem new_plan_id_fresh:
  assumes "length date = 8" "list_all is_digit date"
  shows "new_plan_id files date @ ''.json'' \<notin> set files"
proof
  assume f: "new_plan_id files date @ ''.json'' \<in> set files"
  define numbers where "numbers = map plan_number (filter (prefix (''plan-'' @ date)) files)"
  define n where "n = (if numbers \<noteq> [] then Max (set numbers) + 1 else 1)"
  have n: "new_plan_id files date = plan_name date n"
    unfolding new_plan_id_def Let_def n_def numbers_def by (rule refl)
  have "prefix (''plan-'' @ date) (new_plan_id files date @ ''.json'')" by (simp add: n plan_name_def)
  with f have "plan_number (new_plan_id files date @ ''.json'') \<in> set numbers" by (auto simp: numbers_def)
  then have "n \<in> set numbers" by (simp add: n plan_number_name [OF assms])
  then have "n \<le> Max (set numbers)" "numbers \<noteq> []" by auto
  then show False by (simp add: n_def)
qed

lemma new_plan_id_fresh_witness:
  "new_plan_id [''plan-20260105-001.json'', ''plan-20260105-001.approved.json''] ''20260105'' = ''plan-20260105-002''
     \<and> ''plan-20260105-002.json'' \<notin> {''plan-20260105-001.json'', ''plan-20260105-001.approved.json''}"
proof -
  have n: "new_plan_id [''plan-20260105-001.json'', ''plan-20260105-001.approved.json''] ''20260105'' = ''plan-20260105-002''"
    by code_simp
  have "length ''20260105'' = 8" "list_all is_digit ''20260105''" by code_simp+
  from new_plan_id_fresh [OF this, of "[''plan-20260105-001.json'', ''plan-20260105-001.approved.json'']"] n
  show ?thesis by simp
qed

end
