(* ===== verification/Completion.thy ===== *)
theory Completion
  imports Driver Runs
begin

text \<open>
  The end of a run, \<^verbatim>\<open>finishRun\<close> and \<^verbatim>\<open>finalize\<close> of \<^verbatim>\<open>packages/runtime/src/apply.ts\<close> with the
  contamination guard of \<^verbatim>\<open>guard.ts\<close>: the result is committed and measured, every property is verified
  on it, satisfaction is checked for contamination and inherited along the chain, and the status,
  the saved state, the last events and the attestation follow.
\<close>

section \<open>The environment\<close>

record finish_env =
  fe_driver :: driver_env
  fe_files :: run_files
  fe_allow :: "string list"
  fe_wall :: "int option"
  fe_diff :: "int option"
  fe_changed :: "int option"
  fe_millis :: "string \<Rightarrow> int option"
  fe_guard_tree :: "string \<Rightarrow> checkout \<Rightarrow> (task_failure, checkout) result"
  fe_prepare :: "checkout \<Rightarrow> prepare_outcome \<times> checkout"
  fe_guard_cwd :: string
  fe_anchor :: anchor_policy
  fe_restore :: bool

text \<open>\<open>fe_millis\<close> is \<open>Date.parse\<close>, \<open>None\<close> for NaN; the last field says the checkout is the repository's own.\<close>

abbreviation fe_env :: "finish_env \<Rightarrow> checkout sweep_env" where "fe_env env \<equiv> de_sweep (fe_driver env)"

definition asks :: "finish_env \<Rightarrow> (checkout git \<Rightarrow> checkout \<Rightarrow> 'a \<times> checkout) \<Rightarrow> driver \<Rightarrow> 'a \<times> driver" where
  "asks env f d = (case f (de_git (fe_driver env)) (world d) of (x, w) \<Rightarrow> (x, set_world w d))"

section \<open>The result and its size\<close>

definition result_trailers :: "finish_env \<Rightarrow> driver \<Rightarrow> (string \<times> string) list" where
  "result_trailers env d =
     [(''SPC-Run-Id'', run_of (fe_driver env)), (''SPC-Plan-Id'', plan_id (dr_plan d)),
      (''SPC-Spec-Digest'', ir_digest (de_ir (fe_driver env)))]"

definition base_revision :: "finish_env \<Rightarrow> driver \<Rightarrow> (task_failure, string) result \<times> driver" where
  "base_revision env d =
     (case meta_base_revision (de_meta (fe_driver env)) of Some b \<Rightarrow> (Inr b, d) | None \<Rightarrow> run_revision (fe_driver env) d)"

definition commit_result :: "finish_env \<Rightarrow> driver \<Rightarrow> (task_failure, string) result \<times> driver" where
  "commit_result env d =
     (case commit_changes (fe_driver env)
         (''spc: apply plan '' @ plan_id (dr_plan d) @ '' for '' @ meta_spec_id (de_meta (fe_driver env))
            @ '' (run '' @ run_of (fe_driver env) @ '')'') (result_trailers env d) (Some (fe_allow env)) (world d) of
        (Inl e, w) \<Rightarrow> (Inl e, set_world w d)
      | (Inr (Some r), w) \<Rightarrow> (Inr r, set_world w d)
      | (Inr None, w) \<Rightarrow> run_revision (fe_driver env) (set_world w d))"

record signal =
  sg_kind :: string
  sg_budget :: int
  sg_actual :: int
  sg_unit :: string

definition over :: "string \<Rightarrow> string \<Rightarrow> int option \<Rightarrow> int option \<Rightarrow> signal list" where
  "over kind un budget actual =
     (case (budget, actual) of
        (Some b, Some a) \<Rightarrow> if b < a then [\<lparr>sg_kind = kind, sg_budget = b, sg_actual = a, sg_unit = un\<rparr>] else []
      | _ \<Rightarrow> [])"

definition wall_time :: "finish_env \<Rightarrow> driver \<Rightarrow> int option" where
  "wall_time env d =
     (case (fe_millis env (now_of (fe_env env) (dr_stores d)), fe_millis env (meta_created_at (de_meta (fe_driver env)))) of
        (Some a, Some b) \<Rightarrow> Some (a - b) | _ \<Rightarrow> None)"

text \<open>The lines of the diff are only counted under a budget for them.\<close>

definition diff_lines :: "finish_env \<Rightarrow> string \<Rightarrow> string \<Rightarrow> driver \<Rightarrow> int option \<times> driver" where
  "diff_lines env a b d =
     (if fe_diff env = None then (None, d)
      else (case asks env (\<lambda>git. count_diff_lines git a b) d of (n, d1) \<Rightarrow> (Some (int n), d1)))"

definition raise_signal :: "finish_env \<Rightarrow> signal \<Rightarrow> driver \<Rightarrow> driver" where
  "raise_signal env sg d =
     (let counted = show_int (sg_actual sg) @ '' '' @ sg_unit sg;
          d1 = record_event (fe_driver env) BUDGET_SIGNAL [(''kind'', JString (sg_kind sg)), (''budget'', JNum (sg_budget sg)),
             (''actual'', JNum (sg_actual sg)), (''unit'', JString (sg_unit sg))] d
      in record_draft (fe_driver env) []
          \<lparr>fu_type = PostRun, fu_blocking = False, fu_title = ''Budget exceeded: '' @ sg_kind sg,
           fu_description = ''Run exceeded its '' @ sg_kind sg @ '' budget ('' @ counted @ '' vs budget '' @ show_int (sg_budget sg) @ '' ''
             @ sg_unit sg @ ''). Reported, not enforced - judge whether the size was justified (see plan drift in the summary).'',
           fu_property_id = None, fu_task_id = None, fu_options = None, fu_recommended_default = None, fu_criterion_id = None,
           fu_command = None\<rparr> d1)"

text \<open>The stat and the count of files, and the signals of the budgets in their order.\<close>

definition measure_result :: "finish_env \<Rightarrow> string \<Rightarrow> string \<Rightarrow> driver \<Rightarrow> (string \<times> nat) \<times> driver" where
  "measure_result env a b d =
     (case asks env (\<lambda>git. diff_stat git a b) d of
        (stat, d1) \<Rightarrow>
          (case asks env (\<lambda>git. count_changed git a b) d1 of
             (files, d2) \<Rightarrow>
               (let wall = wall_time env d2
                in case diff_lines env a b d2 of
                     (lines, d3) \<Rightarrow>
                       ((stat, files),
                        fold (raise_signal env)
                          (over ''wallTime'' ''ms'' (fe_wall env) wall @ over ''diffLines'' ''lines'' (fe_diff env) lines
                           @ over ''changedFiles'' ''files'' (fe_changed env) (Some (int files))) d3))))"

section \<open>The contamination guard\<close>

text \<open>Changed paths that are excluded from the commit, compared literally; a git failure counts as none.\<close>

definition dirty_excluded :: "finish_env \<Rightarrow> driver \<Rightarrow> string list \<times> driver" where
  "dirty_excluded env d =
     (if fe_allow env = [] then ([], d)
      else (case asks env (\<lambda>git. worktree_status git (sv_cwd (fe_env env))) d of
              (Inl e, d1) \<Rightarrow> ([], d1)
            | (Inr entries, d1) \<Rightarrow> (filter (\<lambda>p. p \<in> set (fe_allow env)) (map fst entries), d1)))"

definition evidence_command :: "evidence \<Rightarrow> string" where
  "evidence_command e = (case payload_field (ev_payload e) ''command'' of Some (JString c) \<Rightarrow> c | _ \<Rightarrow> [])"

definition contaminated :: "string list \<Rightarrow> evidence list \<Rightarrow> requirement_state \<Rightarrow> bool" where
  "contaminated dirty evs st \<longleftrightarrow> rs_status st = Satisfied
     \<and> list_ex (\<lambda>i. case List.find (\<lambda>e. ev_id e = i) evs of
           None \<Rightarrow> False | Some e \<Rightarrow> list_ex (\<lambda>p. sublist p (evidence_command e)) dirty) (rs_evidence_ids st)"

text \<open>A sweep over a tree of the result alone: no verdicts of agents, no red phase, its own commands' cwd.\<close>

definition guard_request :: "finish_env \<Rightarrow> desired_property list \<Rightarrow> string \<Rightarrow> sweep_request" where
  "guard_request env ps revision =
     \<lparr>sq_properties = ps, sq_task_id = None, sq_red = False, sq_enforce_red = False, sq_environment_ready = True,
      sq_inherited = [], sq_suites = Some (de_suites (fe_driver env)), sq_revision = revision, sq_shared = False,
      sq_report_usage = False\<rparr>"

definition guard_sweep ::
  "finish_env \<Rightarrow> desired_property list \<Rightarrow> string \<Rightarrow> checkout \<Rightarrow> checkout run_stores
     \<Rightarrow> (sweep_error, requirement_state list) result \<times> checkout run_stores" where
  "guard_sweep env ps revision tree s =
     (case verify_properties ((fe_env env)\<lparr>sv_cwd := fe_guard_cwd env\<rparr>) (guard_request env ps revision)
         (s\<lparr>st_world := tree, st_verdicts := []\<rparr>) of
        (r, s1) \<Rightarrow> (r, s1\<lparr>st_world := st_world s, st_verdicts := st_verdicts s\<rparr>))"

text \<open>\<open>None\<close>: the guard could not prepare its tree and observed nothing.\<close>

definition run_guard ::
  "finish_env \<Rightarrow> string \<Rightarrow> desired_property list \<Rightarrow> driver \<Rightarrow> (task_failure, requirement_state list option) result \<times> driver" where
  "run_guard env result ps d =
     (case fe_guard_tree env result (world d) of
        Inl e \<Rightarrow> (Inl e, d)
      | Inr tree \<Rightarrow>
          (case fe_prepare env tree of
             (po, tree1) \<Rightarrow>
               if po_mode po = PrepareFailed then (Inr None, d)
               else
                 (case current_revision (de_git (fe_driver env)) (fe_guard_cwd env) tree1 of
                    (Inl e, _) \<Rightarrow> (Inl e, d)
                  | (Inr revision, tree2) \<Rightarrow>
                      (case guard_sweep env ps revision tree2 (dr_stores d) of
                         (Inl e, s) \<Rightarrow> (Inl (sweep_failure e), d\<lparr>dr_stores := s\<rparr>)
                       | (Inr sts, s) \<Rightarrow> (Inr (Some sts), d\<lparr>dr_stores := s\<rparr>)))))"

definition downgraded :: "requirement_state \<Rightarrow> requirement_state" where
  "downgraded g = g\<lparr>rs_reason := Some (''verification contamination: the criterion passed only with excluded dirt present (strengthened allowDirtyPaths contract); re-verified against the committed result: ''
     @ (case rs_reason g of Some r \<Rightarrow> r | None \<Rightarrow> requirement_status_text (rs_status g)))\<rparr>"

definition guarded_state :: "requirement_state list \<Rightarrow> requirement_state \<Rightarrow> requirement_state" where
  "guarded_state guards st =
     (if rs_status st \<noteq> Satisfied then st
      else case map_of (rev (map (\<lambda>g. (rs_property_id g, g)) guards)) (rs_property_id st) of
        None \<Rightarrow> st
      | Some g \<Rightarrow> if rs_status g \<noteq> Satisfied \<and> rs_status g \<noteq> Waived then downgraded g else st)"

definition guard_states ::
  "finish_env \<Rightarrow> string \<Rightarrow> requirement_state list \<Rightarrow> driver \<Rightarrow> (task_failure, requirement_state list) result \<times> driver" where
  "guard_states env result sts d =
     (case dirty_excluded env d of
        (dirty, d1) \<Rightarrow>
          (let suspects = filter (contaminated dirty (vs_records (st_evidence (dr_stores d1)))) sts;
               ps = filter (\<lambda>p. dp_id p \<in> set (map rs_property_id suspects)) (ir_properties (de_ir (fe_driver env)))
           in if dirty = [] \<or> suspects = [] then (Inr sts, d1)
              else (case run_guard env result ps d1 of
                      (Inl e, d2) \<Rightarrow> (Inl e, d2)
                    | (Inr None, d2) \<Rightarrow> (Inr sts, d2)
                    | (Inr (Some guards), d2) \<Rightarrow> (Inr (map (guarded_state guards) sts), d2))))"

section \<open>Inheritance along the chain\<close>

definition inherited_text :: "string \<Rightarrow> string" where
  "inherited_text run = ''established by prior run '' @ run @ '' - criteria pass at this base; flip evidence lives in that run's record''"

definition inherits :: "(string \<times> string) list \<Rightarrow> requirement_state \<Rightarrow> string option" where
  "inherits prior st =
     (if rs_status st = Indeterminate
         \<and> sublist ''passed at base revision'' (case rs_reason st of Some r \<Rightarrow> r | None \<Rightarrow> [])
      then map_of prior (rs_property_id st) else None)"

fun inherit_states :: "finish_env \<Rightarrow> (string \<times> string) list \<Rightarrow> requirement_state list \<Rightarrow> driver \<Rightarrow> requirement_state list \<times> driver" where
  "inherit_states env prior [] d = ([], d)"
| "inherit_states env prior (st # sts) d =
     (case inherits prior st of
        None \<Rightarrow> (case inherit_states env prior sts d of (sts', d') \<Rightarrow> (st # sts', d'))
      | Some run \<Rightarrow>
          (case inherit_states env prior sts (record_event (fe_driver env) PROPERTY_INHERITED
                  [(''propertyId'', JString (rs_property_id st)), (''priorRunId'', JString run), (''status'', JString ''satisfied''),
                   (''reason'', JString (inherited_text run))] d) of
             (sts', d') \<Rightarrow> (st\<lparr>rs_status := Satisfied, rs_reason := Some (inherited_text run)\<rparr> # sts', d')))"

section \<open>The status\<close>

definition parked :: "driver \<Rightarrow> string list" where
  "parked d = filter (\<lambda>tid. map_option ts_status (live d tid) = Some NeedsReplan) (map task_id (plan_tasks (dr_plan d)))"

text \<open>Completion is satisfaction of the requirements, not completion of the tasks.\<close>

definition conclude_status ::
  "finish_env \<Rightarrow> scheduler_outcome \<Rightarrow> string list \<Rightarrow> requirement_state list \<Rightarrow> driver \<Rightarrow> run_status \<times> driver" where
  "conclude_status env outcome failed sts d =
     (if open_blocking (st_followups (dr_stores d)) \<noteq> [] then (RunBlocked, d)
      else if must_properties_satisfied (ir_properties (de_ir (fe_driver env))) (map_of (rev (map (\<lambda>s. (rs_property_id s, s)) sts)))
      then (Succeeded, d)
      else if outcome = RunnableWorkRemains then
        (RunFailed, blocking_followup (fe_driver env) ReplanFollowup ''Run concluded with runnable work remaining''
           (''Scheduler exit runnable_work_remains: tasks '' @ join_with '', '' (parked d)
              @ '' sit in non-terminal states. A mechanism failed to re-dispatch them - this is a defect, not a partial result; inspect the event log before retrying.'') [] d)
      else if outcome = ReplanFailed \<or> failed \<noteq> [] then (RunFailed, d)
      else (PartiallySatisfied, d))"

section \<open>finalize\<close>

definition ended_dirty :: "string list \<Rightarrow> (string \<times> string) list \<Rightarrow> string list" where
  "ended_dirty allow entries = filter (\<lambda>p. \<not> prefix ''.spc/'' p \<and> \<not> glob_match_any allow p) (map fst entries)"

definition record_dirty :: "finish_env \<Rightarrow> driver \<Rightarrow> string list \<times> driver" where
  "record_dirty env d =
     (case asks env (\<lambda>git. worktree_status git (sv_cwd (fe_env env))) d of
        (Inl e, d1) \<Rightarrow> ([], d1)
      | (Inr entries, d1) \<Rightarrow>
          (let ps = ended_dirty (fe_allow env) entries
           in (ps, if ps = [] then d1 else record_event (fe_driver env) RUN_ENDED_DIRTY [(''paths'', strings_json ps)] d1)))"

text \<open>The marker commit that carries the status, on the run's own commit only; a failure is ignored.\<close>

definition mark_status :: "finish_env \<Rightarrow> run_status \<Rightarrow> driver \<Rightarrow> driver" where
  "mark_status env status d =
     (case asks env (\<lambda>git. git_ok git (sv_cwd (fe_env env)) [''log'', ''-1'', ''--format=%B'']) d of
        (Inl e, d1) \<Rightarrow> d1
      | (Inr msg, d1) \<Rightarrow>
          if sublist (''run '' @ run_of (fe_driver env)) msg \<and> \<not> sublist ''SPC-Run-Status:'' msg
          then snd (asks env (\<lambda>git. with_identity git
                 [''commit'', ''--allow-empty'', ''-m'', ''spc: run status '' @ run_status_text status @ '' (run '' @ run_of (fe_driver env) @ '')'',
                  ''--trailer=SPC-Run-Status: '' @ run_status_text status]) d1)
          else d1)"

record run_report =
  rp_status :: run_status
  rp_dirty :: "string list"
  rp_base :: "string option"
  rp_result :: "string option"
  rp_requirements :: "requirement_state list"
  rp_followups :: "followup list"
  rp_model_calls :: nat
  rp_replans :: nat
  rp_stat :: "string option"
  rp_changed :: "nat option"
  rp_restored :: "string option"

text \<open>
  \<open>keys\<close> are the recorded requirements, reported where the caller has none of its own.
\<close>

definition reported_states :: "requirement_state list \<Rightarrow> string list \<Rightarrow> driver \<Rightarrow> requirement_state list" where
  "reported_states sts keys d = (if sts \<noteq> [] then sts else List.map_filter (run_requirements (dr_state d)) keys)"

definition completed_payload :: "run_status \<Rightarrow> string option \<Rightarrow> requirement_state list \<Rightarrow> (string \<times> json) list" where
  "completed_payload status result sts = present
     [(''status'', Some (JString (run_status_text status))), (''resultRevision'', map_option JString (when_truthy result)),
      (''requirements'', Some (requirement_statuses sts))]"

definition settle_state :: "run_status \<Rightarrow> string option \<Rightarrow> requirement_state list \<Rightarrow> driver \<Rightarrow> driver" where
  "settle_state status result sts d =
     (let d1 = merge_requirements sts d
      in d1\<lparr>dr_state := (dr_state d1)\<lparr>run_status := status,
            run_result_revision := (case when_truthy result of Some r \<Rightarrow> Some r | None \<Rightarrow> run_result_revision (dr_state d1))\<rparr>\<rparr>)"

definition finalize ::
  "finish_env \<Rightarrow> run_status \<Rightarrow> requirement_state list \<Rightarrow> string list \<Rightarrow> string option \<Rightarrow> (string \<times> nat) option \<Rightarrow> driver
     \<Rightarrow> (task_failure, run_report) result \<times> driver" where
  "finalize env status sts keys result measured d =
     (case record_dirty env (settle_state status result sts d) of
        (dirty, d1) \<Rightarrow>
          (let d2 = mark_status env status d1;
               reported = reported_states sts keys d2;
               d3 = persist (record_event (fe_driver env) RUN_COMPLETED (completed_payload status result reported) d2)
           in case attest_run (fe_env env) (de_git (fe_driver env)) (fe_anchor env) (meta_spec_id (de_meta (fe_driver env))) status result (dr_stores d3) of
                (Inl e, s) \<Rightarrow> (Inl e, d3\<lparr>dr_stores := s\<rparr>)
              | (Inr att, s) \<Rightarrow>
                  (Inr \<lparr>rp_status = status, rp_dirty = dirty, rp_base = when_truthy (run_base_revision (dr_state d3)),
                        rp_result = when_truthy result, rp_requirements = reported, rp_followups = st_followups s,
                        rp_model_calls = dr_model_calls d3, rp_replans = run_replans (dr_state d3),
                        rp_stat = when_truthy (map_option fst measured), rp_changed = map_option snd measured, rp_restored = None\<rparr>,
                   d3\<lparr>dr_stores := s\<rparr>)))"

section \<open>finishRun\<close>

text \<open>The branch the checkout was on is restored where the run switched it; a failure is a warning.\<close>

definition restore_branch :: "finish_env \<Rightarrow> run_report \<Rightarrow> driver \<Rightarrow> run_report \<times> driver" where
  "restore_branch env rp d =
     (case when_truthy (meta_original_branch (de_meta (fe_driver env))) of
        None \<Rightarrow> (rp, d)
      | Some b \<Rightarrow>
          if \<not> fe_restore env \<or> b = ''HEAD'' then (rp, d)
          else (case asks env (\<lambda>git. checkout_branch git b) d of
                  (Inl e, d1) \<Rightarrow> (rp, d1)
                | (Inr _, d1) \<Rightarrow> (rp\<lparr>rp_restored := Some b\<rparr>, d1)))"

definition record_result :: "requirement_state list \<Rightarrow> string \<Rightarrow> driver \<Rightarrow> driver" where
  "record_result sts result d =
     (let d1 = merge_requirements sts d in d1\<lparr>dr_state := (dr_state d1)\<lparr>run_result_revision := Some result\<rparr>\<rparr>)"

text \<open>The final sweep, its guard and what the chain adds.\<close>

definition final_states ::
  "finish_env \<Rightarrow> string \<Rightarrow> driver \<Rightarrow> (task_failure, requirement_state list) result \<times> driver" where
  "final_states env result d =
     (let chain = ancestors (fe_files env) (de_meta (fe_driver env));
          flips = ancestor_flips (fe_files env) chain
      in case run_revision (fe_driver env) d of
           (Inl e, d1) \<Rightarrow> (Inl e, d1)
         | (Inr revision, d1) \<Rightarrow>
             (case sweep (fe_driver env)
                 (sweep_request_of (fe_driver env) (ir_properties (de_ir (fe_driver env))) None revision flips) d1 of
                (Inl e, d2) \<Rightarrow> (Inl (sweep_failure e), d2)
              | (Inr sts, d2) \<Rightarrow>
                  (case guard_states env result sts d2 of
                     (Inl e, d3) \<Rightarrow> (Inl e, d3)
                   | (Inr sts1, d3) \<Rightarrow>
                       (case inherit_states env (prior_satisfied (fe_files env) (de_ir (fe_driver env)) chain) sts1 d3 of
                          (sts2, d4) \<Rightarrow> (Inr sts2, d4)))))"

definition finish_driver ::
  "finish_env \<Rightarrow> scheduler_outcome \<Rightarrow> string list \<Rightarrow> string list \<Rightarrow> driver \<Rightarrow> (task_failure, run_report) result \<times> driver" where
  "finish_driver env outcome failed keys d =
     (case base_revision env (persist d) of
        (Inl e, d1) \<Rightarrow> (Inl e, d1)
      | (Inr base, d1) \<Rightarrow>
          (case commit_result env d1 of
             (Inl e, d2) \<Rightarrow> (Inl e, d2)
           | (Inr result, d2) \<Rightarrow>
               (case measure_result env base result d2 of
                  (measured, d3) \<Rightarrow>
                    (case final_states env result d3 of
                       (Inl e, d4) \<Rightarrow> (Inl e, d4)
                     | (Inr sts, d4) \<Rightarrow>
                         (case conclude_status env outcome failed sts (record_result sts result d4) of
                            (status, d5) \<Rightarrow>
                              (case finalize env status sts keys (Some result) (Some measured) d5 of
                                 (Inl e, d6) \<Rightarrow> (Inl e, d6)
                               | (Inr rp, d6) \<Rightarrow> (case restore_branch env rp d6 of (rp', d7) \<Rightarrow> (Inr rp', d7))))))))"

section \<open>Finishing moves no task\<close>

text \<open>
  What the end of a run adds to the small steps: the status and the result in the live state, the
  saved state, and the stores a sweep over another tree leaves.
\<close>

locale finish_steps = driver_steps +
  assumes concluded: "R d (d\<lparr>dr_state := (dr_state d)\<lparr>run_status := x, run_result_revision := y\<rparr>\<rparr>)"
    and saved: "R d (persist d)"
    and attested: "attest_run senv git policy spec status result (dr_stores d) = (a, s) \<Longrightarrow> R d (d\<lparr>dr_stores := s\<rparr>)"
    and guarded: "guard_sweep env ps revision tree (dr_stores d) = (r, s) \<Longrightarrow> R d (d\<lparr>dr_stores := s\<rparr>)"
begin

lemma asks_step: "asks env f d = (x, d') \<Longrightarrow> R d d'"
  by (auto simp: asks_def world_step split: prod.splits)

lemma revision_step: "run_revision env d = (x, d') \<Longrightarrow> R d d'"
  by (auto simp: run_revision_def world_step split: prod.splits)

lemma base_step: "base_revision env d = (x, d') \<Longrightarrow> R d d'"
  by (auto simp: base_revision_def split: option.splits intro: revision_step)

lemma commit_result_step: "commit_result env d = (x, d') \<Longrightarrow> R d d'"
  by (auto simp: commit_result_def world_step split: prod.splits sum.splits option.splits intro: trans [OF world_step revision_step])

lemma signal_step: "R d (raise_signal env sg d)"
  unfolding raise_signal_def Let_def
  by (rule trans [OF event_step draft_step]) (simp add: moved_def task_event_types_def)

lemma lines_step: "diff_lines env a b d = (n, d') \<Longrightarrow> R d d'"
  by (auto simp: diff_lines_def split: if_splits prod.splits intro: asks_step)

lemma measure_step:
  assumes "measure_result env a b d = (m, d')"
  shows "R d d'"
proof -
  obtain stat d1 where 1: "asks env (\<lambda>git. diff_stat git a b) d = (stat, d1)" by force
  obtain n d2 where 2: "asks env (\<lambda>git. count_changed git a b) d1 = (n, d2)" by force
  obtain l d3 where 3: "diff_lines env a b d2 = (l, d3)" by force
  have "R d d3" by (rule trans [OF trans [OF asks_step [OF 1] asks_step [OF 2]] lines_step [OF 3]])
  then have "R d (fold (raise_signal env) sgs d3)" for sgs by (rule trans [OF _ fold_step [OF signal_step]])
  with assms 1 2 3 show ?thesis by (auto simp: measure_result_def Let_def simp del: fold_append)
qed

lemma dirty_step: "dirty_excluded env d = (x, d') \<Longrightarrow> R d d'"
  by (auto simp: dirty_excluded_def split: if_splits prod.splits sum.splits intro: asks_step)

lemma run_guard_step: "run_guard env result ps d = (x, d') \<Longrightarrow> R d d'"
  by (auto simp: run_guard_def split: sum.splits prod.splits if_splits intro: guarded)

lemma guard_states_step:
  assumes "guard_states env result sts d = (x, d')"
  shows "R d d'"
proof -
  obtain dirty d1 where 1: "dirty_excluded env d = (dirty, d1)" by force
  define suspects where "suspects = filter (contaminated dirty (vs_records (st_evidence (dr_stores d1)))) sts"
  obtain g d2 where 2: "run_guard env result
      (filter (\<lambda>p. dp_id p \<in> set (map rs_property_id suspects)) (ir_properties (de_ir (fe_driver env)))) d1 = (g, d2)" by force
  have "R d d1" "R d d2" using dirty_step [OF 1] run_guard_step [OF 2] trans by blast+
  with assms 1 2 show ?thesis
    by (auto simp: guard_states_def Let_def suspects_def [symmetric] split: if_splits sum.splits option.splits)
qed

lemma inherit_step: "inherit_states env prior sts d = (sts', d') \<Longrightarrow> R d d'"
proof (induction sts arbitrary: sts' d)
  case (Cons st sts)
  show ?case
  proof (cases "inherits prior st")
    case None
    with Cons show ?thesis by (auto split: prod.splits)
  next
    case (Some run)
    let ?d = "record_event (fe_driver env) PROPERTY_INHERITED
        [(''propertyId'', JString (rs_property_id st)), (''priorRunId'', JString run), (''status'', JString ''satisfied''),
         (''reason'', JString (inherited_text run))] d"
    have "R d ?d" by (rule event_step) (simp add: moved_def task_event_types_def)
    with Cons Some show ?thesis by (auto split: prod.splits intro: trans)
  qed
qed simp

lemma final_step:
  assumes "final_states env result d = (x, d')"
  shows "R d d'"
proof -
  let ?chain = "ancestors (fe_files env) (de_meta (fe_driver env))"
  obtain v d1 where 1: "run_revision (fe_driver env) d = (v, d1)" by force
  note r1 = revision_step [OF 1]
  show ?thesis
  proof (cases v)
    case (Inr revision)
    let ?q = "sweep_request_of (fe_driver env) (ir_properties (de_ir (fe_driver env))) None revision (ancestor_flips (fe_files env) ?chain)"
    obtain y d2 where 2: "sweep (fe_driver env) ?q d1 = (y, d2)" by force
    note r2 = trans [OF r1 swept [OF 2]]
    show ?thesis
    proof (cases y)
      case y: (Inr sts)
      obtain z d3 where 3: "guard_states env result sts d2 = (z, d3)" by force
      note r3 = trans [OF r2 guard_states_step [OF 3]]
      show ?thesis
      proof (cases z)
        case z: (Inr sts1)
        obtain sts2 d4 where 4: "inherit_states env (prior_satisfied (fe_files env) (de_ir (fe_driver env)) ?chain) sts1 d3 = (sts2, d4)"
          by force
        with assms 1 2 3 Inr y z trans [OF r3 inherit_step [OF 4]] show ?thesis by (simp add: final_states_def Let_def)
      qed (use assms 1 2 3 Inr y r3 in \<open>simp add: final_states_def Let_def\<close>)
    qed (use assms 1 2 Inr r2 in \<open>simp add: final_states_def Let_def\<close>)
  qed (use assms 1 r1 in \<open>simp add: final_states_def Let_def\<close>)
qed

lemma record_result_step: "R d (record_result sts result d)"
proof -
  have "R (merge_requirements sts d) (record_result sts result d)"
    using concluded [where d = "merge_requirements sts d" and x = "run_status (dr_state (merge_requirements sts d))" and y = "Some result"]
    by (simp add: record_result_def Let_def)
  then show ?thesis by (rule trans [OF requirements])
qed

lemma conclude_step: "conclude_status env outcome failed sts d = (status, d') \<Longrightarrow> R d d'"
  by (auto simp: conclude_status_def blocking_step split: if_splits)

lemma settle_state_step: "R d (settle_state status result sts d)"
  unfolding settle_state_def Let_def by (rule trans [OF requirements concluded])

lemma record_dirty_step: "record_dirty env d = (x, d') \<Longrightarrow> R d d'"
proof -
  assume a: "record_dirty env d = (x, d')"
  obtain y d1 where 1: "asks env (\<lambda>git. worktree_status git (sv_cwd (fe_env env))) d = (y, d1)" by force
  have "R d1 (record_event (fe_driver env) RUN_ENDED_DIRTY p d1)" for p
    by (rule event_step) (simp add: moved_def task_event_types_def)
  with a 1 asks_step [OF 1] show ?thesis by (auto simp: record_dirty_def Let_def split: sum.splits if_splits intro: trans)
qed

lemma mark_step: "R d (mark_status env status d)"
proof -
  obtain y d1 where 1: "asks env (\<lambda>git. git_ok git (sv_cwd (fe_env env)) [''log'', ''-1'', ''--format=%B'']) d = (y, d1)" by force
  have "R d1 (snd (asks env f d1))" for f :: "checkout git \<Rightarrow> checkout \<Rightarrow> git_answer \<times> checkout"
    by (rule asks_step [where f = f and x = "fst (asks env f d1)"]) simp
  with 1 asks_step [OF 1] show ?thesis by (auto simp: mark_status_def split: sum.splits intro: trans)
qed

end

lemma attest_run_stores:
  assumes "attest_run env git policy spec status result s = (r, s')"
  shows "(\<exists>e. r = Inl e \<and> log_of s' = log_of s) \<or> (\<exists>a e. r = Inr a \<and> at_status a = status \<and> log_of s' = log_of s @ [e] \<and> e_type e = RUN_ATTESTED)"
    "st_followups s' = st_followups s" "st_evidence s' = st_evidence s" "st_usage s' = st_usage s"
proof -
  let ?a = "commitment env spec status result s"
  obtain anchor w where w: "anchor_commit git (sv_cwd env) policy ?a (st_world s) = (anchor, w)" by force
  have p: "\<exists>e. log_of (snd (publish env a (s\<lparr>st_world := w\<rparr>))) = log_of s @ [e] \<and> e_type e = RUN_ATTESTED" for a
  proof -
    have "log_of (tick (s\<lparr>st_world := w\<rparr>)) = log_of s" by (simp add: log_of_def)
    then show ?thesis using emit_log [of env RUN_ATTESTED _ "tick (s\<lparr>st_world := w\<rparr>)"] by (simp add: publish_def Let_def) metis
  qed
  have "at_status ?a = status" by (simp add: commitment_def)
  with assms w p show "(\<exists>e. r = Inl e \<and> log_of s' = log_of s) \<or> (\<exists>a e. r = Inr a \<and> at_status a = status \<and> log_of s' = log_of s @ [e] \<and> e_type e = RUN_ATTESTED)"
    by (cases anchor) (auto simp: attest_run_def Let_def publish_def log_of_def split: prod.splits)
  from assms w show "st_followups s' = st_followups s" "st_evidence s' = st_evidence s" "st_usage s' = st_usage s"
    by (cases anchor; auto simp: attest_run_def Let_def publish_def)+
qed

text \<open>The steps as moves of no task, and as calls accounted for.\<close>

lemma guard_sweep_grows: "guard_sweep env ps revision tree s = (r, s') \<Longrightarrow> grows s s'"
  by (auto simp: guard_sweep_def grows_by_def log_of_def split: prod.splits dest!: verify_properties_grows)

lemma grows_new_events: "grows s s' \<Longrightarrow> new_events T (log_of s) (log_of s')"
  using unmoving_sweep unfolding grows_by_def appends_def new_events_def list_all_iff by metis

interpretation cf: finish_steps "calm T"
proof
  show "guard_sweep env ps revision tree (dr_stores d) = (r, s) \<Longrightarrow> calm T d (d\<lparr>dr_stores := s\<rparr>)" for env ps revision tree d r s
    using grows_new_events [OF guard_sweep_grows] by (simp add: calm_def live_def)
  fix env :: "checkout sweep_env" and d :: driver and git policy spec status result a s
  assume "attest_run env git policy spec status result (dr_stores d) = (a, s)"
  from attest_run_stores(1) [OF this] have "new_events T (log_of (dr_stores d)) (log_of s)"
    by (auto simp: new_events_def moved_def task_event_types_def)
  then show "calm T d (d\<lparr>dr_stores := s\<rparr>)" by (simp add: calm_def live_def)
qed (simp_all add: calm_def live_def persist_def)

lemma verifier_requests: "reports us us' \<Longrightarrow> filter (\<lambda>u. us_role u = ''executor'') us' = filter (\<lambda>u. us_role u = ''executor'') us"
  by (auto simp: reports_def list_all_iff filter_empty_conv)

interpretation ff: finish_steps frugal
proof
  show "guard_sweep env ps revision tree (dr_stores d) = (r, s) \<Longrightarrow> frugal d (d\<lparr>dr_stores := s\<rparr>)" for env ps revision tree d r s
    using guard_sweep_grows [of env ps revision tree "dr_stores d" r s] verifier_requests [of "st_usage (dr_stores d)" "st_usage s"]
    by (simp add: frugal_def live_def requests_def grows_by_def)
  show "attest_run env git policy spec status result (dr_stores d) = (a, s) \<Longrightarrow> frugal d (d\<lparr>dr_stores := s\<rparr>)"
    for env :: "checkout sweep_env" and git policy spec status result d a s
    by (simp add: frugal_def requests_def live_def attest_run_stores)
qed (simp_all add: frugal_def live_def persist_def requests_def)

section \<open>The last events\<close>

lemma record_dirty_frame:
  assumes "record_dirty env d = (ps, d')"
  shows "dr_state d' = dr_state d" "dr_saved d' = dr_saved d" "st_followups (dr_stores d') = st_followups (dr_stores d)"
    "dr_model_calls d' = dr_model_calls d" "st_evidence (dr_stores d') = st_evidence (dr_stores d)"
    "run_requirements (project_state m p (log_of (dr_stores d'))) = run_requirements (project_state m p (log_of (dr_stores d)))"
proof -
  show "run_requirements (project_state m p (log_of (dr_stores d'))) = run_requirements (project_state m p (log_of (dr_stores d)))"
  proof -
    obtain y d1 where 1: "asks env (\<lambda>git. worktree_status git (sv_cwd (fe_env env))) d = (y, d1)" by force
    have l: "log_of (dr_stores d1) = log_of (dr_stores d)" using 1 by (auto simp: asks_def set_world_def log_of_def split: prod.splits)
    obtain pl e where e: "log_of (dr_stores (record_event (fe_driver env) RUN_ENDED_DIRTY [(''paths'', pl)] d1)) = log_of (dr_stores d1) @ [e]"
      "e_type e = RUN_ENDED_DIRTY" "pl = strings_json ps"
      using record_log [of "fe_driver env" RUN_ENDED_DIRTY "[(''paths'', strings_json ps)]" d1] by blast
    from assms 1 l e show ?thesis
      by (auto simp: record_dirty_def Let_def apply_event_simps apply_change_requirements split: sum.splits if_splits)
  qed
qed (use assms in \<open>auto simp: record_dirty_def asks_def set_world_def record_event_def Let_def split: prod.splits sum.splits if_splits\<close>)

lemma mark_status_frame [simp]:
  "dr_state (mark_status env status d) = dr_state d" "dr_saved (mark_status env status d) = dr_saved d"
  "log_of (dr_stores (mark_status env status d)) = log_of (dr_stores d)"
  "st_followups (dr_stores (mark_status env status d)) = st_followups (dr_stores d)"
  "st_evidence (dr_stores (mark_status env status d)) = st_evidence (dr_stores d)"
  "dr_model_calls (mark_status env status d) = dr_model_calls d"
  by (auto simp: mark_status_def asks_def set_world_def log_of_def split: prod.splits sum.splits)

lemma run_status_of_text [simp]: "run_status_of (run_status_text x) = Some x"
  by (cases x) (simp_all add: run_status_of_def)

lemma completed_payload_read:
  "p_string (completed_payload status result sts) ''status'' = Some (run_status_text status)"
  "p_string (completed_payload status result sts) ''resultRevision'' = when_truthy result"
  by (auto simp: completed_payload_def p_string_def when_truthy_def split: option.splits)

text \<open>What \<open>finalize\<close> leaves: the status in the saved state and in the log, and an attestation at its end.\<close>

lemma finalize_parts:
  assumes "finalize env status sts keys result measured d = (Inr rp, d')"
  obtains d2 s a where "attest_run (fe_env env) (de_git (fe_driver env)) (fe_anchor env) (meta_spec_id (de_meta (fe_driver env))) status result
        (dr_stores (persist (record_event (fe_driver env) RUN_COMPLETED (completed_payload status result (reported_states sts keys d2)) d2))) = (Inr a, s)"
    "d' = (persist (record_event (fe_driver env) RUN_COMPLETED (completed_payload status result (reported_states sts keys d2)) d2))\<lparr>dr_stores := s\<rparr>"
    "dr_state d2 = dr_state (settle_state status result sts d)" "st_followups (dr_stores d2) = st_followups (dr_stores d)"
    "st_evidence (dr_stores d2) = st_evidence (dr_stores d)"
    "\<And>m p. run_requirements (project_state m p (log_of (dr_stores d2))) = run_requirements (project_state m p (log_of (dr_stores d)))"
    "prefix (log_of (dr_stores d)) (log_of (dr_stores d2))"
    "rp_status rp = status" "rp_requirements rp = reported_states sts keys d2" "rp_result rp = when_truthy result" "rp_followups rp = st_followups s"
proof -
  obtain dirty d1 where 1: "record_dirty env (settle_state status result sts d) = (dirty, d1)" by force
  define d2 where "d2 = mark_status env status d1"
  define d3 where "d3 = persist (record_event (fe_driver env) RUN_COMPLETED (completed_payload status result (reported_states sts keys d2)) d2)"
  obtain x s where 2: "attest_run (fe_env env) (de_git (fe_driver env)) (fe_anchor env) (meta_spec_id (de_meta (fe_driver env))) status result (dr_stores d3) = (x, s)"
    by force
  have same: "dr_stores (settle_state status result sts d) = dr_stores d" by (simp add: settle_state_def Let_def merge_requirements_def)
  note f = record_dirty_frame [OF 1, unfolded same]
  have pre: "prefix (log_of (dr_stores d)) (log_of (dr_stores d1))"
    using cf.record_dirty_step [OF 1, of "{}"] same by (auto simp: calm_def new_events_def)
  from assms obtain a where "x = Inr a" "d' = d3\<lparr>dr_stores := s\<rparr>" "rp_status rp = status" "rp_requirements rp = reported_states sts keys d2"
    "rp_result rp = when_truthy result" "rp_followups rp = st_followups s"
    unfolding finalize_def 1 prod.case Let_def d2_def [symmetric] d3_def [symmetric] 2 by (cases x) auto
  with that [of d2 a s] 2 f pre show ?thesis unfolding d3_def by (simp add: d2_def)
qed

lemma finalize_all:
  assumes "finalize env status sts keys result measured d = (Inr rp, d')"
  shows "(\<exists>es e a. log_of (dr_stores d') = log_of (dr_stores d) @ es @ [e, a] \<and> e_type e = RUN_COMPLETED \<and> e_type a = RUN_ATTESTED
         \<and> e_payload e = completed_payload status result (rp_requirements rp))
      \<and> run_requirements (project_state m p (log_of (dr_stores d'))) = run_requirements (project_state m p (log_of (dr_stores d)))
      \<and> rp_status rp = status \<and> rp_followups rp = st_followups (dr_stores d') \<and> st_followups (dr_stores d') = st_followups (dr_stores d)
      \<and> (sts \<noteq> [] \<longrightarrow> rp_requirements rp = sts) \<and> rp_result rp = when_truthy result
      \<and> map_option run_status (dr_saved d') = Some status \<and> st_evidence (dr_stores d') = st_evidence (dr_stores d)"
  using assms
proof (cases rule: finalize_parts)
  case (1 d2 s a)
  let ?d3 = "record_event (fe_driver env) RUN_COMPLETED (completed_payload status result (reported_states sts keys d2)) d2"
  obtain e where e: "log_of (dr_stores ?d3) = log_of (dr_stores d2) @ [e]" "e_type e = RUN_COMPLETED"
      "e_payload e = completed_payload status result (reported_states sts keys d2)"
    using record_log by blast
  from attest_run_stores [OF 1(1)] obtain a' where a': "log_of s = log_of (dr_stores ?d3) @ [a']" "e_type a' = RUN_ATTESTED"
    "st_followups s = st_followups (dr_stores ?d3)" "st_evidence s = st_evidence (dr_stores ?d3)" by auto
  from 1(7) obtain es where es: "log_of (dr_stores d2) = log_of (dr_stores d) @ es" by (auto simp: prefix_def)
  have q: "run_requirements (project_state m p (xs @ [e, a'])) = run_requirements (project_state m p xs)" for xs
    using project_state_snoc [of m p "xs @ [e]" a'] e(2) a'(2) by (simp add: apply_event_simps apply_change_requirements)
  have "run_status (dr_state (settle_state status result sts d)) = status" by (simp add: settle_state_def Let_def)
  with 1 e a' es q [of "log_of (dr_stores d2)"] show ?thesis
    by (simp add: persist_def record_event_def reported_states_def)
qed

lemma finalize_done:
  assumes "finalize env status sts keys result measured d = (Inr rp, d')"
  shows "rp_status rp = status" "rp_followups rp = st_followups (dr_stores d')"
    "st_followups (dr_stores d') = st_followups (dr_stores d)"
    "sts \<noteq> [] \<Longrightarrow> rp_requirements rp = sts" "rp_result rp = when_truthy result" "map_option run_status (dr_saved d') = Some status"
    "st_evidence (dr_stores d') = st_evidence (dr_stores d)"
    "\<exists>es e a. log_of (dr_stores d') = log_of (dr_stores d) @ es @ [e, a] \<and> e_type e = RUN_COMPLETED \<and> e_type a = RUN_ATTESTED
       \<and> e_payload e = completed_payload status result (rp_requirements rp)"
    "run_requirements (project_state m p (log_of (dr_stores d'))) = run_requirements (project_state m p (log_of (dr_stores d)))"
  using finalize_all [OF assms, of m p] by (blast, blast, blast, blast, blast, blast, blast, blast, blast)

context finish_steps
begin

lemma finalize_step:
  assumes "finalize env status sts keys result measured d = (r, d')"
  shows "R d d'"
proof -
  obtain dirty d1 where 1: "record_dirty env (settle_state status result sts d) = (dirty, d1)" by force
  define d2 where "d2 = mark_status env status d1"
  define d3 where "d3 = persist (record_event (fe_driver env) RUN_COMPLETED (completed_payload status result (reported_states sts keys d2)) d2)"
  obtain x s where 2: "attest_run (fe_env env) (de_git (fe_driver env)) (fe_anchor env) (meta_spec_id (de_meta (fe_driver env))) status result (dr_stores d3) = (x, s)"
    by force
  have "R d d1" by (rule trans [OF settle_state_step record_dirty_step [OF 1]])
  then have "R d d2" unfolding d2_def by (rule trans [OF _ mark_step])
  moreover have "R d2 d3" unfolding d3_def
    by (rule trans [OF event_step saved]) (simp add: moved_def task_event_types_def)
  ultimately have "R d (d3\<lparr>dr_stores := s\<rparr>)" using attested [OF 2] trans by blast
  with assms(1) show ?thesis
    unfolding finalize_def 1 prod.case Let_def d2_def [symmetric] d3_def [symmetric] 2 by (cases x) auto
qed

end

text \<open>The stages of \<open>finishRun\<close>.\<close>

lemma finish_cases:
  assumes "finish_driver env outcome failed keys d = (r, d')"
  obtains (base) e where "base_revision env (persist d) = (Inl e, d')" "r = Inl e"
  | (commit) base d1 e where "base_revision env (persist d) = (Inr base, d1)" "commit_result env d1 = (Inl e, d')" "r = Inl e"
  | (states) base d1 result d2 m d3 e where "base_revision env (persist d) = (Inr base, d1)" "commit_result env d1 = (Inr result, d2)"
      "measure_result env base result d2 = (m, d3)" "final_states env result d3 = (Inl e, d')" "r = Inl e"
  | (finalize) base d1 result d2 m d3 sts d4 status d5 e where "base_revision env (persist d) = (Inr base, d1)"
      "commit_result env d1 = (Inr result, d2)" "measure_result env base result d2 = (m, d3)" "final_states env result d3 = (Inr sts, d4)"
      "conclude_status env outcome failed sts (record_result sts result d4) = (status, d5)"
      "finalize env status sts keys (Some result) (Some m) d5 = (Inl e, d')" "r = Inl e"
  | (finished) base d1 result d2 m d3 sts d4 status d5 rp d6 rp' where "base_revision env (persist d) = (Inr base, d1)"
      "commit_result env d1 = (Inr result, d2)" "measure_result env base result d2 = (m, d3)" "final_states env result d3 = (Inr sts, d4)"
      "conclude_status env outcome failed sts (record_result sts result d4) = (status, d5)"
      "finalize env status sts keys (Some result) (Some m) d5 = (Inr rp, d6)" "restore_branch env rp d6 = (rp', d')" "r = Inr rp'"
  using assms unfolding finish_driver_def by (auto split: prod.splits sum.splits)

context finish_steps
begin

lemma restore_step: "restore_branch env rp d = (rp', d') \<Longrightarrow> R d d'"
  by (auto simp: restore_branch_def split: option.splits if_splits prod.splits sum.splits intro: asks_step)

lemma finish_step:
  assumes "finish_driver env outcome failed keys d = (r, d')"
  shows "R d d'"
  using assms(1)
proof (cases rule: finish_cases)
  case (base e)
  show ?thesis by (rule trans [OF saved base_step [OF base(1)]])
next
  case (commit b d1 e)
  show ?thesis by (rule trans [OF saved trans [OF base_step [OF commit(1)] commit_result_step [OF commit(2)]]])
next
  case (states b d1 result d2 m d3 e)
  show ?thesis
    by (rule trans [OF saved trans [OF base_step [OF states(1)] trans [OF commit_result_step [OF states(2)]
          trans [OF measure_step [OF states(3)] final_step [OF states(4)]]]]])
next
  case (finalize b d1 result d2 m d3 sts d4 status d5 e)
  show ?thesis
    by (rule trans [OF saved trans [OF base_step [OF finalize(1)] trans [OF commit_result_step [OF finalize(2)]
          trans [OF measure_step [OF finalize(3)] trans [OF final_step [OF finalize(4)]
          trans [OF record_result_step trans [OF conclude_step [OF finalize(5)] finalize_step [OF finalize(6)]]]]]]]])
next
  case (finished b d1 result d2 m d3 sts d4 status d5 rp d6 rp')
  show ?thesis
    by (rule trans [OF saved trans [OF base_step [OF finished(1)] trans [OF commit_result_step [OF finished(2)]
          trans [OF measure_step [OF finished(3)] trans [OF final_step [OF finished(4)]
          trans [OF record_result_step trans [OF conclude_step [OF finished(5)]
            trans [OF finalize_step [OF finished(6)] restore_step [OF finished(7)]]]]]]]]])
qed

end

end
