(* ===== verification/Finished.thy ===== *)
theory Finished
  imports Completion
begin

text \<open>
  What holds at the end of a run: the report, the saved state and the log agree, success has grounds,
  and a run whose git and sweeps answer comes to its report. The definitions are those of
  \<^verbatim>\<open>Completion\<close>; \<open>run_to_end\<close> is \<^verbatim>\<open>driveRun\<close> of \<^verbatim>\<open>packages/runtime/src/apply.ts\<close> as a whole.
\<close>

section \<open>The report and the log\<close>

abbreviation projected :: "finish_env \<Rightarrow> plan option \<Rightarrow> driver \<Rightarrow> run_state" where
  "projected env p d \<equiv> project_state (de_meta (fe_driver env)) p (log_of (dr_stores d))"

text \<open>A state of the log stands for a state of the report: the same status, or both count as satisfaction.\<close>

definition shown :: "run_state \<Rightarrow> requirement_state \<Rightarrow> bool" where
  "shown s st \<longleftrightarrow>
     (case run_requirements s (rs_property_id st) of
        None \<Rightarrow> False
      | Some r \<Rightarrow> rs_status r = rs_status st \<or> {rs_status r, rs_status st} \<subseteq> {Satisfied, Waived})"

definition well_shown :: "string list \<Rightarrow> run_state \<Rightarrow> requirement_state list \<Rightarrow> bool" where
  "well_shown ids s sts \<longleftrightarrow> map rs_property_id sts = ids \<and> list_all (shown s) sts"

lemma shown_cong: "run_requirements s' (rs_property_id st) = run_requirements s (rs_property_id st) \<Longrightarrow> shown s' st = shown s st"
  by (simp add: shown_def)

lemma records_shown: "records_states sts s \<Longrightarrow> st \<in> set sts \<Longrightarrow> shown s st"
  by (force simp: records_states_def shown_def)

abbreviation property_ids :: "finish_env \<Rightarrow> string list" where
  "property_ids env \<equiv> map dp_id (ir_properties (de_ir (fe_driver env)))"

lemma asks_frame:
  assumes "asks env f d = (x, d')"
  shows "log_of (dr_stores d') = log_of (dr_stores d)" "st_evidence (dr_stores d') = st_evidence (dr_stores d)"
    "st_followups (dr_stores d') = st_followups (dr_stores d)"
  using assms by (auto simp: asks_def set_world_def log_of_def split: prod.splits)

lemma dirty_frame:
  assumes "dirty_excluded env d = (x, d')"
  shows "log_of (dr_stores d') = log_of (dr_stores d)" "st_evidence (dr_stores d') = st_evidence (dr_stores d)"
  using assms asks_frame by (auto simp: dirty_excluded_def split: if_splits prod.splits sum.splits)

lemma sweep_shown:
  assumes "sweep env q d = (Inr sts, d')" "distinct (map dp_id (sq_properties q))" "[] \<notin> set (map dp_id (sq_properties q))"
  shows "well_shown (map dp_id (sq_properties q)) (project_state m p (log_of (dr_stores d'))) sts"
proof -
  obtain s where v: "verify_properties (de_sweep env) q (dr_stores d) = (Inr sts, s)" "dr_stores d' = s"
    using assms(1) by (auto simp: sweep_def split: prod.splits)
  from verify_properties_records [OF v(1) assms(2,3), of m p] v(2) records_shown show ?thesis
    by (auto simp: well_shown_def list_all_iff)
qed

lemma map_of_states: "map rs_property_id gs = ids \<Longrightarrow> map_of (rev (map (\<lambda>g. (rs_property_id g, g)) gs)) pid = Some g
    \<Longrightarrow> g \<in> set gs \<and> rs_property_id g = pid"
  by (auto dest!: map_of_SomeD)

lemma map_of_states_None: "map_of (rev (map (\<lambda>g. (rs_property_id g, g)) gs)) pid = None \<longleftrightarrow> pid \<notin> set (map rs_property_id gs)"
  by (force simp: map_of_eq_None_iff)

lemma guarded_state_shown:
  assumes g: "records_states guards s'" "map rs_property_id guards = gids"
    and frame: "\<And>pid. pid \<notin> set gids \<Longrightarrow> run_requirements s' pid = run_requirements s pid"
    and st: "shown s st" "rs_property_id st \<in> set gids \<Longrightarrow> rs_status st = Satisfied"
  shows "shown s' (guarded_state guards st) \<and> rs_property_id (guarded_state guards st) = rs_property_id st"
proof (cases "map_of (rev (map (\<lambda>g. (rs_property_id g, g)) guards)) (rs_property_id st)")
  case None
  then have out: "rs_property_id st \<notin> set gids" using g(2) unfolding map_of_states_None by auto
  have "shown s' st" using shown_cong [of s' st s] frame [OF out] st(1) by simp
  with None show ?thesis by (simp add: guarded_state_def)
next
  case (Some x)
  from map_of_states [OF g(2) this] have x: "x \<in> set guards" "rs_property_id x = rs_property_id st" by auto
  then have sat: "rs_status st = Satisfied" using st(2) g(2) by (metis image_eqI list.set_map)
  from g(1) x obtain t where t: "run_requirements s' (rs_property_id st) = Some (x\<lparr>rs_updated_at := t\<rparr>)"
    by (force simp: records_states_def)
  show ?thesis using Some sat t x(2) by (auto simp: guarded_state_def downgraded_def shown_def)
qed

lemma run_guard_shown:
  assumes "run_guard env result ps d = (Inr (Some guards), d')" "distinct (map dp_id ps)" "[] \<notin> set (map dp_id ps)"
  shows "map rs_property_id guards = map dp_id ps" "records_states guards (projected env p d')"
    "pid \<notin> set (map dp_id ps) \<Longrightarrow> run_requirements (projected env p d') pid = run_requirements (projected env p d) pid"
proof -
  from assms(1) obtain revision tree s where g: "guard_sweep env ps revision tree (dr_stores d) = (Inr guards, s)" "d' = d\<lparr>dr_stores := s\<rparr>"
    by (auto simp: run_guard_def split: sum.splits prod.splits if_splits)
  let ?env = "(fe_env env)\<lparr>sv_cwd := fe_guard_cwd env\<rparr>" and ?q = "guard_request env ps revision"
  let ?s0 = "(dr_stores d)\<lparr>st_world := tree, st_verdicts := []\<rparr>"
  obtain s1 where v: "verify_properties ?env ?q ?s0 = (Inr guards, s1)" "log_of s = log_of s1"
    using g(1) by (auto simp: guard_sweep_def log_of_def split: prod.splits)
  have q: "sq_properties ?q = ps" "log_of ?s0 = log_of (dr_stores d)" by (simp_all add: guard_request_def log_of_def)
  from verify_properties_records [OF v(1), unfolded q, OF assms(2,3), of "de_meta (fe_driver env)" p] v(2) g(2)
  show "map rs_property_id guards = map dp_id ps" "records_states guards (projected env p d')" by simp_all
  assume "pid \<notin> set (map dp_id ps)"
  from verify_properties_frame [OF v(1), unfolded q, OF assms(2,3) this] v(2) g(2)
  show "run_requirements (projected env p d') pid = run_requirements (projected env p d) pid" by simp
qed

lemma guard_states_shown:
  assumes "guard_states env result sts d = (Inr sts', d')"
    and "distinct (property_ids env)" "[] \<notin> set (property_ids env)"
    and "well_shown (property_ids env) (projected env p d) sts"
  shows "well_shown (property_ids env) (projected env p d') sts'"
proof -
  obtain dirty d1 where 1: "dirty_excluded env d = (dirty, d1)" by force
  define suspects where "suspects = filter (contaminated dirty (vs_records (st_evidence (dr_stores d1)))) sts"
  define ps where "ps = filter (\<lambda>p. dp_id p \<in> set (map rs_property_id suspects)) (ir_properties (de_ir (fe_driver env)))"
  have same: "projected env p d1 = projected env p d" using dirty_frame [OF 1] by simp
  have ids: "map rs_property_id sts = property_ids env" using assms(4) by (simp add: well_shown_def)
  obtain g d2 where 2: "run_guard env result ps d1 = (g, d2)" by force
  have r: "(Inr sts', d') = (if dirty = [] \<or> suspects = [] then (Inr sts, d1)
      else (case (g, d2) of (Inl e, d2) \<Rightarrow> (Inl e, d2) | (Inr None, d2) \<Rightarrow> (Inr sts, d2)
        | (Inr (Some guards), d2) \<Rightarrow> (Inr (map (guarded_state guards) sts), d2)))"
    using assms(1) unfolding guard_states_def 1 prod.case Let_def suspects_def [symmetric] ps_def [symmetric] 2 by (rule sym)
  show ?thesis
  proof (cases "dirty = [] \<or> suspects = []")
    case True
    with r assms(4) same show ?thesis by simp
  next
    case False
    show ?thesis
    proof (cases g)
      case (Inr x)
      show ?thesis
      proof (cases x)
        case None
        have "d2 = d1" using 2 Inr None by (auto simp: run_guard_def split: sum.splits prod.splits if_splits)
        with r False Inr None assms(4) same show ?thesis by simp
      next
        case (Some guards)
        have dist: "distinct (map dp_id ps)" "[] \<notin> set (map dp_id ps)"
          using assms(2,3) by (auto simp: ps_def distinct_map intro: inj_on_subset)
        note g = run_guard_shown [OF 2 [unfolded Inr Some] dist]
        have sat: "rs_status st = Satisfied" if "st \<in> set sts" "rs_property_id st \<in> set (map dp_id ps)" for st
        proof -
          from that(2) obtain st' where "st' \<in> set suspects" "rs_property_id st' = rs_property_id st" by (auto simp: ps_def)
          then have "st' \<in> set sts" "contaminated dirty (vs_records (st_evidence (dr_stores d1))) st'" by (auto simp: suspects_def)
          with that(1) \<open>rs_property_id st' = rs_property_id st\<close> ids assms(2) have "st' = st"
            by (metis distinct_map inj_onD)
          with \<open>contaminated _ _ st'\<close> show ?thesis by (simp add: contaminated_def)
        qed
        have each: "shown (projected env p d2) (guarded_state guards st) \<and> rs_property_id (guarded_state guards st) = rs_property_id st"
          if "st \<in> set sts" for st
          by (rule guarded_state_shown [OF g(2,1)]) (use g(3) same assms(4) that sat in \<open>auto simp: well_shown_def list_all_iff\<close>)
        have "sts' = map (guarded_state guards) sts" "d' = d2" using r False Inr Some by simp_all
        moreover have "map (rs_property_id \<circ> guarded_state guards) sts = map rs_property_id sts" using each by auto
        ultimately show ?thesis using each ids by (simp add: well_shown_def list_all_iff)
      qed
    qed (use r False in simp)
  qed
qed

lemma inherited_event:
  assumes "e_type e = PROPERTY_INHERITED"
    "e_payload e = [(''propertyId'', JString pid), (''priorRunId'', JString run), (''status'', JString ''satisfied''), (''reason'', JString why)]"
    "run_requirements s pid = Some r" "rs_property_id r = pid"
  shows "run_requirements (apply_event s e) = (run_requirements s)(pid \<mapsto> r\<lparr>rs_status := Satisfied, rs_reason := Some why\<rparr>)"
  using assms by (simp add: apply_event_simps apply_change_requirements p_string_def)

lemma inherit_states_shown:
  assumes "inherit_states env prior sts d = (sts', d')" "distinct (map rs_property_id sts)" "list_all (shown (projected env p d)) sts"
  shows "map rs_property_id sts' = map rs_property_id sts \<and> list_all (shown (projected env p d')) sts'
    \<and> (\<forall>pid. pid \<notin> set (map rs_property_id sts) \<longrightarrow> run_requirements (projected env p d') pid = run_requirements (projected env p d) pid)"
  using assms
proof (induction sts arbitrary: sts' d)
  case (Cons st sts)
  let ?pid = "rs_property_id st"
  have dist: "distinct (map rs_property_id sts)" "?pid \<notin> set (map rs_property_id sts)" using Cons.prems(2) by auto
  define d1 where "d1 = (case inherits prior st of None \<Rightarrow> d | Some run \<Rightarrow> record_event (fe_driver env) PROPERTY_INHERITED
        [(''propertyId'', JString ?pid), (''priorRunId'', JString run), (''status'', JString ''satisfied''),
         (''reason'', JString (inherited_text run))] d)"
  define st1 where "st1 = (case inherits prior st of None \<Rightarrow> st
      | Some run \<Rightarrow> st\<lparr>rs_status := Satisfied, rs_reason := Some (inherited_text run)\<rparr>)"
  obtain sts1 where r: "inherit_states env prior sts d1 = (sts1, d')" "sts' = st1 # sts1"
    using Cons.prems(1) by (auto simp: d1_def st1_def split: option.splits prod.splits)
  have step: "shown (projected env p d1) st1 \<and> (\<forall>pid. pid \<noteq> ?pid \<longrightarrow> run_requirements (projected env p d1) pid = run_requirements (projected env p d) pid)"
  proof (cases "inherits prior st")
    case None
    with Cons.prems(3) show ?thesis by (simp add: d1_def st1_def)
  next
    case (Some run)
    obtain e where e: "log_of (dr_stores d1) = log_of (dr_stores d) @ [e]" "e_type e = PROPERTY_INHERITED"
      "e_payload e = [(''propertyId'', JString ?pid), (''priorRunId'', JString run), (''status'', JString ''satisfied''),
         (''reason'', JString (inherited_text run))]"
      using record_log [of "fe_driver env" PROPERTY_INHERITED "[(''propertyId'', JString ?pid), (''priorRunId'', JString run), (''status'', JString ''satisfied''),
         (''reason'', JString (inherited_text run))]" d] by (auto simp: d1_def Some)
    obtain x where x: "run_requirements (projected env p d) ?pid = Some x"
      using Cons.prems(3) by (auto simp: shown_def split: option.splits)
    from project_requirement_id [OF x] have pid: "rs_property_id x = ?pid" by simp
    have "run_requirements (projected env p d1) = (run_requirements (projected env p d))(?pid \<mapsto> x\<lparr>rs_status := Satisfied, rs_reason := Some (inherited_text run)\<rparr>)"
      unfolding e(1) project_state_snoc by (rule inherited_event [OF e(2,3) x pid])
    then show ?thesis using Some by (simp add: st1_def shown_def)
  qed
  have "shown (projected env p d1) x" if x: "x \<in> set sts" for x
  proof -
    have "rs_property_id x \<noteq> ?pid" using x dist(2) by (metis image_eqI list.set_map)
    moreover have "shown (projected env p d) x" using Cons.prems(3) x by (simp add: list_all_iff)
    ultimately show ?thesis using shown_cong [of "projected env p d1" x "projected env p d"] step by blast
  qed
  then have "list_all (shown (projected env p d1)) sts" by (simp add: list_all_iff)
  with Cons.IH [OF r(1) dist(1)]
  have ih: "map rs_property_id sts1 = map rs_property_id sts" "list_all (shown (projected env p d')) sts1"
    "\<forall>pid. pid \<notin> set (map rs_property_id sts) \<longrightarrow> run_requirements (projected env p d') pid = run_requirements (projected env p d1) pid" by auto
  have id: "rs_property_id st1 = ?pid" by (simp add: st1_def split: option.split)
  have "shown (projected env p d') st1" using shown_cong [of "projected env p d'" st1 "projected env p d1"] ih(3) step id dist(2) by simp
  with r ih step id dist show ?case by auto
qed simp

text \<open>The stages of the final sweep.\<close>

abbreviation final_chain :: "finish_env \<Rightarrow> string list" where
  "final_chain env \<equiv> ancestors (fe_files env) (de_meta (fe_driver env))"

definition final_request :: "finish_env \<Rightarrow> string \<Rightarrow> sweep_request" where
  "final_request env revision = sweep_request_of (fe_driver env) (ir_properties (de_ir (fe_driver env))) None revision
     (ancestor_flips (fe_files env) (final_chain env))"

lemma final_parts:
  assumes "final_states env result d = (Inr sts, d')"
  obtains revision d1 sts0 d2 sts1 d3 where "run_revision (fe_driver env) d = (Inr revision, d1)"
    "sweep (fe_driver env) (final_request env revision) d1 = (Inr sts0, d2)"
    "guard_states env result sts0 d2 = (Inr sts1, d3)"
    "inherit_states env (prior_satisfied (fe_files env) (de_ir (fe_driver env)) (final_chain env)) sts1 d3 = (sts, d')"
  using assms unfolding final_states_def Let_def final_request_def [symmetric] by (auto split: prod.splits sum.splits)

lemma final_shown:
  assumes "final_states env result d = (Inr sts, d')" "distinct (property_ids env)" "[] \<notin> set (property_ids env)"
  shows "well_shown (property_ids env) (projected env p d') sts"
  using assms(1)
proof (cases rule: final_parts)
  case (1 revision d1 sts0 d2 sts1 d3)
  have q: "map dp_id (sq_properties (final_request env revision)) = property_ids env"
    by (simp add: final_request_def sweep_request_of_def)
  have "well_shown (property_ids env) (projected env p d2) sts0"
    using sweep_shown [OF 1(2), unfolded q, OF assms(2,3)] by blast
  from guard_states_shown [OF 1(3) assms(2,3) this] have s1: "well_shown (property_ids env) (projected env p d3) sts1" .
  with assms(2) inherit_states_shown [OF 1(4), of p] show ?thesis by (simp add: well_shown_def)
qed

lemma record_result_frame [simp]:
  "dr_stores (record_result sts result d) = dr_stores d"
  by (simp add: record_result_def merge_requirements_def Let_def)

lemma blocking_frame:
  "run_requirements (project_state m p (log_of (dr_stores (blocking_followup env ty title description extra d))))
     = run_requirements (project_state m p (log_of (dr_stores d)))"
  "st_evidence (dr_stores (blocking_followup env ty title description extra d)) = st_evidence (dr_stores d)"
  "open_blocking (st_followups (dr_stores (blocking_followup env ty title description extra d))) \<noteq> []"
proof -
  obtain f d1 where 1: "raise_draft env
         \<lparr>fu_type = ty, fu_blocking = True, fu_title = title, fu_description = description, fu_property_id = None,
          fu_task_id = None, fu_options = None, fu_recommended_default = None, fu_criterion_id = None, fu_command = None\<rparr> d = (f, d1)"
    by force
  then have d1: "log_of (dr_stores d1) = log_of (dr_stores d)" "st_evidence (dr_stores d1) = st_evidence (dr_stores d)"
      "st_followups (dr_stores d1) = st_followups (dr_stores d) @ [f]" "fu_status f = Open" "fu_blocking f"
    by (auto simp: raise_draft_def create_followup_def followup_create_def Let_def tick_def log_of_def followup_draft.defs followup.defs)
  define pl where "pl = [(''followupId'', JString (fu_id f)), (''blocking'', JBool True), (''type'', JString (followup_type_text ty))] @ extra"
  have b: "blocking_followup env ty title description extra d = record_event env FOLLOWUP_CREATED pl d1"
    unfolding blocking_followup_def 1 prod.case pl_def ..
  obtain e where e: "log_of (dr_stores (record_event env FOLLOWUP_CREATED pl d1)) = log_of (dr_stores d1) @ [e]" "e_type e = FOLLOWUP_CREATED"
    using record_log by blast
  show "run_requirements (project_state m p (log_of (dr_stores (blocking_followup env ty title description extra d))))
     = run_requirements (project_state m p (log_of (dr_stores d)))"
    by (simp add: b e d1 apply_event_simps apply_change_requirements)
  show "st_evidence (dr_stores (blocking_followup env ty title description extra d)) = st_evidence (dr_stores d)"
    by (simp add: b d1 record_event_def)
  show "open_blocking (st_followups (dr_stores (blocking_followup env ty title description extra d))) \<noteq> []"
    by (simp add: b d1 record_event_def open_blocking_def)
qed

definition must_hold :: "finish_env \<Rightarrow> requirement_state list \<Rightarrow> bool" where
  "must_hold env sts \<longleftrightarrow> must_properties_satisfied (ir_properties (de_ir (fe_driver env))) (map_of (rev (map (\<lambda>s. (rs_property_id s, s)) sts)))"

lemma conclude_frame:
  assumes "conclude_status env outcome failed sts d = (status, d')"
  shows "run_requirements (project_state m p (log_of (dr_stores d'))) = run_requirements (project_state m p (log_of (dr_stores d)))"
    "st_evidence (dr_stores d') = st_evidence (dr_stores d)"
  using assms blocking_frame(1,2) unfolding conclude_status_def must_hold_def [symmetric] by (auto split: if_splits)

lemma conclude_exact:
  assumes "conclude_status env outcome failed sts d = (status, d')"
  shows "status = Succeeded \<longleftrightarrow> open_blocking (st_followups (dr_stores d')) = [] \<and> must_hold env sts"
  using assms blocking_frame(3) unfolding conclude_status_def must_hold_def [symmetric] by (auto split: if_splits)

lemma must_hold_iff:
  assumes "map rs_property_id sts = property_ids env" "distinct (property_ids env)"
  shows "must_hold env sts \<longleftrightarrow> list_all (\<lambda>p. dp_priority p = Must \<longrightarrow>
      list_ex (\<lambda>st. rs_property_id st = dp_id p \<and> (rs_status st = Satisfied \<or> rs_status st = Waived)) sts) (ir_properties (de_ir (fe_driver env)))"
proof -
  have key: "(case map_of (rev (map (\<lambda>s. (rs_property_id s, s)) sts)) pid of None \<Rightarrow> False | Some s \<Rightarrow> rs_status s = Satisfied \<or> rs_status s = Waived)
      \<longleftrightarrow> list_ex (\<lambda>st. rs_property_id st = pid \<and> (rs_status st = Satisfied \<or> rs_status st = Waived)) sts" for pid
  proof (cases "map_of (rev (map (\<lambda>s. (rs_property_id s, s)) sts)) pid")
    case None
    then have "pid \<notin> set (map rs_property_id sts)" unfolding map_of_states_None .
    with None show ?thesis by (auto simp: list_ex_iff)
  next
    case (Some x)
    from map_of_states [OF assms(1) this] have x: "x \<in> set sts" "rs_property_id x = pid" by auto
    have "inj_on rs_property_id (set sts)" using assms distinct_map by metis
    then have "y = x" if "y \<in> set sts" "rs_property_id y = pid" for y using that x by (simp add: inj_on_def)
    then have "list_ex (\<lambda>st. rs_property_id st = pid \<and> (rs_status st = Satisfied \<or> rs_status st = Waived)) sts
        \<longleftrightarrow> rs_status x = Satisfied \<or> rs_status x = Waived"
      using x unfolding list_ex_iff by blast
    with Some show ?thesis by simp
  qed
  show ?thesis unfolding must_hold_def must_properties_satisfied_def key by (auto simp: list_all_iff)
qed

section \<open>What a finished run says\<close>

lemma restore_frame:
  assumes "restore_branch env rp d = (rp', d')"
  shows "log_of (dr_stores d') = log_of (dr_stores d)" "st_evidence (dr_stores d') = st_evidence (dr_stores d)"
    "dr_saved d' = dr_saved d" "rp_status rp' = rp_status rp" "rp_requirements rp' = rp_requirements rp"
    "rp_followups rp' = rp_followups rp" "rp_result rp' = rp_result rp"
  using assms by (auto simp: restore_branch_def asks_def set_world_def log_of_def split: option.splits if_splits prod.splits sum.splits)

text \<open>A report and the final states it was made of.\<close>

lemma finished_parts:
  assumes "finish_driver env outcome failed keys d = (Inr rp, d')"
    and "distinct (property_ids env)" "[] \<notin> set (property_ids env)" "property_ids env \<noteq> []"
  obtains base d1 result d2 m d3 sts d4 d5 where "base_revision env (persist d) = (Inr base, d1)"
    "commit_result env d1 = (Inr result, d2)" "measure_result env base result d2 = (m, d3)"
    "final_states env result d3 = (Inr sts, d4)" "rp_requirements rp = sts" "well_shown (property_ids env) (projected env p d4) sts"
    "conclude_status env outcome failed sts (record_result sts result d4) = (rp_status rp, d5)"
    "rp_followups rp = st_followups (dr_stores d5)" "st_evidence (dr_stores d') = st_evidence (dr_stores d4)"
    "rp_result rp = when_truthy (Some result)" "map_option run_status (dr_saved d') = Some (rp_status rp)"
    "run_requirements (projected env p d') = run_requirements (projected env p d4)"
    "\<exists>es e a. log_of (dr_stores d') = log_of (dr_stores d5) @ es @ [e, a] \<and> e_type e = RUN_COMPLETED \<and> e_type a = RUN_ATTESTED
       \<and> e_payload e = completed_payload (rp_status rp) (Some result) sts"
    "calm {} d4 d'"
  using assms(1)
proof (cases rule: finish_cases)
  case (finished base d1 result d2 m d3 sts d4 status d5 rp0 d6 rp')
  have rp: "rp' = rp" using finished(8) by simp
  note f = finalize_done [OF finished(6)] and r = restore_frame [OF finished(7), unfolded rp]
  note w = final_shown [OF finished(4) assms(2,3), of p]
  have ne: "sts \<noteq> []" using w assms(4) by (auto simp: well_shown_def)
  note q = f(4) [OF ne]
  have c: "run_requirements (projected env p d5) = run_requirements (projected env p d4)" "st_evidence (dr_stores d5) = st_evidence (dr_stores d4)"
    using conclude_frame [OF finished(5)] by simp_all
  have "calm {} d4 d'"
    by (rule calm_trans [OF cf.record_result_step calm_trans [OF cf.conclude_step [OF finished(5)]
          calm_trans [OF cf.finalize_step [OF finished(6)] cf.restore_step [OF finished(7)]]]])
  with finished f(1,2,3,5,6,7,8) f(9) [of "de_meta (fe_driver env)" p] q r w c rp
    that [of base d1 result d2 m d3 sts d4 d5] show ?thesis by simp
qed simp_all


text \<open>
  C5: a run has succeeded exactly when no blocking follow-up is open at its end and every must
  property has a reported state that is satisfied or waived, whatever became of its tasks.
\<close>
theorem finish_status_exact:
  assumes "finish_driver env outcome failed keys d = (Inr rp, d')"
    and "distinct (property_ids env)" "[] \<notin> set (property_ids env)" "property_ids env \<noteq> []"
  shows "rp_status rp = Succeeded \<longleftrightarrow> open_blocking (rp_followups rp) = []
    \<and> list_all (\<lambda>p. dp_priority p = Must \<longrightarrow> list_ex (\<lambda>st. rs_property_id st = dp_id p \<and> (rs_status st = Satisfied \<or> rs_status st = Waived))
         (rp_requirements rp)) (ir_properties (de_ir (fe_driver env)))"
  using finished_parts [OF assms, of None]
proof cases
  case (1 base d1 result d2 m d3 sts d4 d5)
  have ids: "map rs_property_id sts = property_ids env" using 1(6) by (simp add: well_shown_def)
  show ?thesis using conclude_exact [OF 1(7)] must_hold_iff [OF ids assms(2)] 1(5,8) by simp
qed

text \<open>The grounds of a must property at the end of a run.\<close>

definition verified_here :: "finish_env \<Rightarrow> evidence list \<Rightarrow> desired_property \<Rightarrow> bool" where
  "verified_here env evs p \<longleftrightarrow>
     (\<exists>revision ps prov q shown_evs. resolve_suites (final_request env revision) = Inr (ps, prov) \<and> q \<in> set ps \<and> dp_id q = dp_id p
        \<and> prefix shown_evs evs \<and> established (sweep_options (fe_env env) (final_request env revision)) shown_evs q)"

definition inheritance :: "string \<Rightarrow> string \<Rightarrow> event \<Rightarrow> bool" where
  "inheritance pid run e \<longleftrightarrow> e_type e = PROPERTY_INHERITED \<and> p_string (e_payload e) ''propertyId'' = Some pid
     \<and> p_string (e_payload e) ''priorRunId'' = Some run"

definition inherited_here :: "finish_env \<Rightarrow> event list \<Rightarrow> string \<Rightarrow> bool" where
  "inherited_here env events pid \<longleftrightarrow>
     (\<exists>run. run \<in> set (final_chain env) \<and> witnessed (fe_files env) (de_ir (fe_driver env)) pid run
        \<and> list_ex (inheritance pid run) events)"

lemma inherit_origin:
  assumes "inherit_states env prior sts d = (sts', d')" "x \<in> set sts'"
  shows "x \<in> set sts \<or> (\<exists>run. (rs_property_id x, run) \<in> set prior
    \<and> list_ex (inheritance (rs_property_id x) run) (log_of (dr_stores d')))"
  using assms
proof (induction sts arbitrary: sts' d)
  case (Cons st sts)
  show ?case
  proof (cases "inherits prior st")
    case None
    with Cons show ?thesis by (auto split: prod.splits)
  next
    case (Some run)
    define pl where "pl = [(''propertyId'', JString (rs_property_id st)), (''priorRunId'', JString run), (''status'', JString ''satisfied''),
                   (''reason'', JString (inherited_text run))]"
    define d1 where "d1 = record_event (fe_driver env) PROPERTY_INHERITED pl d"
    define st1 where "st1 = st\<lparr>rs_status := Satisfied, rs_reason := Some (inherited_text run)\<rparr>"
    obtain sts1 where r: "inherit_states env prior sts d1 = (sts1, d')" "sts' = st1 # sts1"
      using Cons.prems(1) Some by (auto simp: d1_def pl_def st1_def split: prod.splits)
    have prior: "(rs_property_id st, run) \<in> set prior" using Some by (auto simp: inherits_def map_of_SomeD split: if_splits)
    obtain e where e: "log_of (dr_stores d1) = log_of (dr_stores d) @ [e]" "e_type e = PROPERTY_INHERITED" "e_payload e = pl"
      using record_log unfolding d1_def by blast
    have "new_events {} (log_of (dr_stores d1)) (log_of (dr_stores d'))" using cf.inherit_step [OF r(1), of "{}"] by (simp add: calm_def)
    then have mem: "e \<in> set (log_of (dr_stores d'))" using e(1) by (auto simp: new_events_def)
    have pl: "p_string pl ''propertyId'' = Some (rs_property_id st)" "p_string pl ''priorRunId'' = Some run"
      by (simp_all add: pl_def p_string_def)
    have id: "rs_property_id st1 = rs_property_id st" by (simp add: st1_def)
    show ?thesis
    proof (cases "x = st1")
      case True
      have named: "list_ex (inheritance (rs_property_id st1) run) (log_of (dr_stores d'))"
        unfolding list_ex_iff id inheritance_def using mem e(2,3) pl by (intro bexI [of _ e]) simp_all
      have "(rs_property_id st1, run) \<in> set prior" using prior id by simp
      with named show ?thesis unfolding True by (intro disjI2 exI [of _ run] conjI)
    next
      case False
      with Cons.prems(2) r(2) have "x \<in> set sts1" by simp
      from Cons.IH [OF r(1) this] show ?thesis by auto
    qed
  qed
qed simp

lemma inherit_evidence: "inherit_states env prior sts d = (sts', d') \<Longrightarrow> st_evidence (dr_stores d') = st_evidence (dr_stores d)"
  by (induction sts arbitrary: sts' d) (auto simp: record_event_def split: option.splits prod.splits)

lemma guard_origin:
  assumes "guard_states env result sts d = (Inr sts', d')" "x \<in> set sts'" "rs_status x = Satisfied \<or> rs_status x = Waived"
  shows "x \<in> set sts"
  using assms
  by (auto simp: guard_states_def Let_def guarded_state_def downgraded_def split: prod.splits if_splits sum.splits option.splits)

lemma guard_evidence:
  assumes "guard_states env result sts d = (r, d')"
  shows "prefix (vs_records (st_evidence (dr_stores d))) (vs_records (st_evidence (dr_stores d')))"
proof -
  have g: "prefix (vs_records (st_evidence (dr_stores a))) (vs_records (st_evidence (dr_stores b)))" if "run_guard env result ps a = (x, b)" for ps a x b
    using that guard_sweep_grows by (auto simp: run_guard_def grows_by_def split: sum.splits prod.splits if_splits)
  obtain dirty d1 where 1: "dirty_excluded env d = (dirty, d1)" by force
  define suspects where "suspects = filter (contaminated dirty (vs_records (st_evidence (dr_stores d1)))) sts"
  obtain x d2 where 2: "run_guard env result
      (filter (\<lambda>p. dp_id p \<in> set (map rs_property_id suspects)) (ir_properties (de_ir (fe_driver env)))) d1 = (x, d2)" by force
  have "d' = d1 \<or> d' = d2" using assms 1 2
    by (auto simp: guard_states_def Let_def suspects_def [symmetric] split: if_splits sum.splits option.splits)
  with g [OF 2] dirty_frame(2) [OF 1] show ?thesis by auto
qed

lemma sweep_established:
  assumes "sweep env q d = (Inr sts, d')" "st \<in> set sts" "rs_status st = Satisfied \<or> rs_status st = Waived"
  shows "\<exists>ps prov p. resolve_suites q = Inr (ps, prov) \<and> p \<in> set ps \<and> dp_id p = rs_property_id st
    \<and> established (sweep_options (de_sweep env) q) (vs_records (st_evidence (dr_stores d'))) p"
proof -
  from assms(1) obtain s where v: "verify_properties (de_sweep env) q (dr_stores d) = (Inr sts, s)" "dr_stores d' = s"
    by (auto simp: sweep_def split: prod.splits)
  then obtain ps prov s1 where ps: "resolve_suites q = Inr (ps, prov)" "derive_states (de_sweep env) q ps s1 = (sts, s)"
    by (auto simp: verify_properties_def split: sum.splits prod.splits option.splits)
  from derive_states_each [OF ps(2)]
  have each: "list_all2 (\<lambda>p st. \<exists>now. st = evaluate_property p (vs_records (st_evidence s)) (sweep_options (de_sweep env) q) now) ps sts"
    by simp
  then obtain i p now where "i < length ps" "p = ps ! i" "st = evaluate_property p (vs_records (st_evidence s)) (sweep_options (de_sweep env) q) now"
    using assms(2) by (auto simp: list_all2_conv_all_nth in_set_conv_nth)
  with assms(3) evaluate_established ps(1) v(2) show ?thesis by (metis evaluate_property_id nth_mem)
qed

text \<open>
  C4: success has grounds: in a run that succeeded every must property was waived or demonstrated by
  evidence of the run, the suites resolved, when the final sweep judged it, and no later guard took
  that back; or it was inherited, from a run in the line of recorded parents, of the same
  specification and digest, whose saved state has it as satisfied, and the log says from which.
\<close>
theorem finish_succeeded_sound:
  assumes "finish_driver env outcome failed keys d = (Inr rp, d')" "rp_status rp = Succeeded"
    and "distinct (property_ids env)" "[] \<notin> set (property_ids env)" "property_ids env \<noteq> []"
  shows "list_all (\<lambda>p. dp_priority p = Must \<longrightarrow> verified_here env (vs_records (st_evidence (dr_stores d'))) p
      \<or> inherited_here env (log_of (dr_stores d')) (dp_id p)) (ir_properties (de_ir (fe_driver env)))"
  using finished_parts [OF assms(1,3-5), of None]
proof cases
  case (1 base d1 result d2 m d3 sts d4 d5)
  have ids: "map rs_property_id sts = property_ids env" using 1(6) by (simp add: well_shown_def)
  have must: "must_hold env sts" using conclude_exact [OF 1(7)] assms(2) by simp
  have log: "set (log_of (dr_stores d4)) \<subseteq> set (log_of (dr_stores d'))" using 1(14) by (auto simp: calm_def new_events_def)
  from 1(4) obtain revision e1 sts0 e2 sts1 e3 where f: "sweep (fe_driver env) (final_request env revision) e1 = (Inr sts0, e2)"
      "guard_states env result sts0 e2 = (Inr sts1, e3)"
      "inherit_states env (prior_satisfied (fe_files env) (de_ir (fe_driver env)) (final_chain env)) sts1 e3 = (sts, d4)"
    by (rule final_parts)
  have pre: "prefix (vs_records (st_evidence (dr_stores e2))) (vs_records (st_evidence (dr_stores d')))"
    using guard_evidence [OF f(2)] inherit_evidence [OF f(3)] 1(9) by simp
  have "verified_here env (vs_records (st_evidence (dr_stores d'))) p \<or> inherited_here env (log_of (dr_stores d')) (dp_id p)"
    if p: "p \<in> set (ir_properties (de_ir (fe_driver env)))" "dp_priority p = Must" for p
  proof -
    from must p obtain st where st: "st \<in> set sts" "rs_property_id st = dp_id p" "rs_status st = Satisfied \<or> rs_status st = Waived"
      unfolding must_hold_iff [OF ids assms(3)] list_all_iff list_ex_iff by blast
    from inherit_origin [OF f(3) st(1)] show ?thesis
    proof
      assume "st \<in> set sts1"
      from sweep_established [OF f(1) guard_origin [OF f(2) this st(3)] st(3)] pre st(2)
      show ?thesis unfolding verified_here_def by metis
    next
      assume "\<exists>run. (rs_property_id st, run) \<in> set (prior_satisfied (fe_files env) (de_ir (fe_driver env)) (final_chain env))
        \<and> list_ex (inheritance (rs_property_id st) run) (log_of (dr_stores d4))"
      then obtain run where run: "(dp_id p, run) \<in> set (prior_satisfied (fe_files env) (de_ir (fe_driver env)) (final_chain env))"
        "list_ex (inheritance (dp_id p) run) (log_of (dr_stores d4))" using st(2) by auto
      from run(2) log have "list_ex (inheritance (dp_id p) run) (log_of (dr_stores d'))" unfolding list_ex_iff by blast
      with prior_satisfied_sound [OF run(1)] show ?thesis unfolding inherited_here_def by blast
    qed
  qed
  then show ?thesis by (simp add: list_all_iff)
qed

section \<open>A run comes to its end\<close>

text \<open>The driver and its tail: \<^verbatim>\<open>driveRun\<close> as a whole.\<close>

definition run_to_end :: "finish_env \<Rightarrow> string list \<Rightarrow> driver \<Rightarrow> ((task_failure, run_report) result \<times> driver) option" where
  "run_to_end env keys d = map_option (\<lambda>(outcome, failed, d'). finish_driver env outcome failed keys d') (drive_run (fe_driver env) d)"

text \<open>Finishing asks the executor for nothing.\<close>

lemma finish_requests:
  "finish_driver env outcome failed keys d = (r, d') \<Longrightarrow> requests d' = requests d \<and> dr_model_calls d' = dr_model_calls d"
  using ff.finish_step unfolding frugal_def by blast

text \<open>
  A git that works: no command times out, and all succeed but the two whose exit status is their
  answer, whether something is staged and whether an identity is configured.
\<close>

definition probes :: "string list set" where
  "probes = {[''diff'', ''--cached'', ''--quiet''], [''var'', ''GIT_AUTHOR_IDENT'']}"

definition answers :: "'w git \<Rightarrow> bool" where
  "answers git \<longleftrightarrow> (\<forall>args w. \<not> ga_timed_out (fst (git args w)) \<and> (args \<in> probes \<or> ga_ok (fst (git args w))))"

lemma answers_ok: "answers git \<Longrightarrow> args \<notin> probes \<Longrightarrow> \<exists>out w'. git_ok git cwd args w = (Inr out, w')"
  by (auto simp: answers_def git_ok_def split: prod.splits) (metis fst_conv)+

lemma answers_identity:
  assumes "answers git" "hd args = ''commit''" "args \<noteq> []"
  shows "\<exists>out w'. git_ok (with_identity git) cwd args w = (Inr out, w')"
proof -
  obtain r w1 where 1: "git [''var'', ''GIT_AUTHOR_IDENT''] w = (r, w1)" by force
  define full where "full = (if ga_ok r then [] else [''-c'', ''user.name=spc'', ''-c'', ''user.email=spc@local'']) @ args"
  obtain a w2 where 2: "git full w1 = (a, w2)" by force
  have "full \<notin> probes" using assms(2,3) by (cases args) (auto simp: full_def probes_def)
  with assms(1) 2 have "ga_ok a" "\<not> ga_timed_out a" unfolding answers_def by (metis fst_conv)+
  moreover have "with_identity git args w = (a, w2)" unfolding with_identity_def 1 prod.case full_def [symmetric] 2 ..
  ultimately show ?thesis by (simp add: git_ok_def)
qed

lemma answers_revision: "answers git \<Longrightarrow> \<exists>r w'. current_revision git cwd w = (Inr r, w')"
  using answers_ok [of git "[''rev-parse'', ''HEAD'']" cwd w] by (auto simp: current_revision_def probes_def)

lemma answers_status: "answers git \<Longrightarrow> \<exists>es w'. worktree_status git cwd w = (Inr es, w')"
  using answers_ok [of git "[''status'', ''--porcelain'', ''-uall'']" cwd w] by (auto simp: worktree_status_def probes_def)

lemma answers_staged:
  assumes "answers git"
  shows "\<exists>r w'. commit_staged git cwd message trailers w = (Inr r, w')"
proof -
  obtain a w1 where 1: "git [''diff'', ''--cached'', ''--quiet''] w = (a, w1)" by force
  obtain out w2 where 2: "git_ok (with_identity git) cwd [''commit'', ''-m'', commit_message message trailers] w1 = (Inr out, w2)"
    using answers_identity [OF assms, of "[''commit'', ''-m'', commit_message message trailers]" cwd w1] by auto
  obtain r w3 where 3: "current_revision git cwd w2 = (Inr r, w3)" using answers_revision [OF assms] by blast
  show ?thesis using 1 2 3 by (simp add: commit_staged_def)
qed

lemma answers_commit_all:
  assumes "answers git"
  shows "\<exists>r w'. commit_all git cwd message trailers exclude w = (Inr r, w')"
proof -
  obtain es w1 where 1: "worktree_status git cwd w = (Inr es, w1)" using answers_status [OF assms] by blast
  have add: "\<exists>out w2. git_ok git cwd ([''add'', ''--''] @ ps) w1 = (Inr out, w2)" for ps
    by (rule answers_ok [OF assms]) (simp add: probes_def)
  obtain o1 w2 where 2: "git_ok git cwd [''add'', ''-A''] w1 = (Inr o1, w2)"
    using answers_ok [OF assms, of "[''add'', ''-A'']" cwd w1] by (auto simp: probes_def)
  obtain o2 w3 where 3: "git_ok git cwd ([''reset'', ''-q'', ''--''] @ spc_state_paths) w2 = (Inr o2, w3)"
    using answers_ok [OF assms, of "[''reset'', ''-q'', ''--''] @ spc_state_paths" cwd w2] by (auto simp: probes_def)
  define ps where "ps = filter (committable (opt_list exclude)) (map fst es)"
  obtain o3 w4 where 4: "git_ok git cwd ([''add'', ''--''] @ ps) w1 = (Inr o3, w4)" using add by blast
  obtain r3 v3 where 5: "commit_staged git cwd message trailers w3 = (Inr r3, v3)" using answers_staged [OF assms] by blast
  obtain r4 v4 where 6: "commit_staged git cwd message trailers w4 = (Inr r4, v4)" using answers_staged [OF assms] by blast
  show ?thesis unfolding commit_all_def 1 prod.case sum.case Let_def ps_def [symmetric] 2 3 4 5 6 by simp
qed

lemma answers_anchor:
  assumes "answers git"
  shows "\<exists>r w'. anchor_commit git cwd policy a w = (Inr r, w')"
proof -
  obtain o1 w1 where 1: "git_ok (with_identity git) cwd [''commit'', ''--allow-empty'', ''-m'', commit_message (attest_title (at_run_id a) (at_status a)) (attestation_trailers a)] w = (Inr o1, w1)"
    using answers_identity [OF assms, of "[''commit'', ''--allow-empty'', ''-m'', commit_message (attest_title (at_run_id a) (at_status a)) (attestation_trailers a)]" cwd w] by auto
  obtain r1 v1 where 2: "current_revision git cwd w1 = (Inr r1, v1)" using answers_revision [OF assms] by blast
  obtain r2 v2 where 3: "current_revision git cwd w = (Inr r2, v2)" using answers_revision [OF assms] by blast
  show ?thesis unfolding anchor_commit_def commit_empty_def 1 prod.case sum.case 2 3
    by (auto split: option.split prod.split)
qed

text \<open>Sweeps over properties of the specification return: no provider throws, every suite is known.\<close>

definition sweeps_return :: "finish_env \<Rightarrow> bool" where
  "sweeps_return env \<longleftrightarrow>
     (\<forall>cwd q s. set (sq_properties q) \<subseteq> set (ir_properties (de_ir (fe_driver env))) \<longrightarrow> sq_suites q = Some (de_suites (fe_driver env))
        \<longrightarrow> (\<exists>sts s'. verify_properties ((fe_env env)\<lparr>sv_cwd := cwd\<rparr>) q s = (Inr sts, s')))"

lemma run_guard_returns:
  assumes "answers (de_git (fe_driver env))" "sweeps_return env" "\<And>r w. \<exists>t. fe_guard_tree env r w = Inr t"
    and "set ps \<subseteq> set (ir_properties (de_ir (fe_driver env)))"
  shows "\<exists>x d'. run_guard env result ps d = (Inr x, d')"
proof -
  obtain tree where 1: "fe_guard_tree env result (world d) = Inr tree" using assms(3) by blast
  obtain po tree1 where 2: "fe_prepare env tree = (po, tree1)" by force
  obtain revision tree2 where 3: "current_revision (de_git (fe_driver env)) (fe_guard_cwd env) tree1 = (Inr revision, tree2)"
    using answers_revision [OF assms(1)] by blast
  have "sq_properties (guard_request env ps revision) = ps" "sq_suites (guard_request env ps revision) = Some (de_suites (fe_driver env))"
    by (simp_all add: guard_request_def)
  with assms(2,4) obtain sts s where "verify_properties ((fe_env env)\<lparr>sv_cwd := fe_guard_cwd env\<rparr>) (guard_request env ps revision)
      ((dr_stores d)\<lparr>st_world := tree2, st_verdicts := []\<rparr>) = (Inr sts, s)"
    unfolding sweeps_return_def by metis
  then obtain s' where 4: "guard_sweep env ps revision tree2 (dr_stores d) = (Inr sts, s')" by (simp add: guard_sweep_def)
  show ?thesis unfolding run_guard_def 1 2 3 4 prod.case sum.case by auto
qed

lemma guard_returns:
  assumes "answers (de_git (fe_driver env))" "sweeps_return env" "\<And>r w. \<exists>t. fe_guard_tree env r w = Inr t"
  shows "\<exists>x d'. guard_states env result sts d = (Inr x, d')"
proof -
  obtain dirty d1 where 1: "dirty_excluded env d = (dirty, d1)" by force
  define suspects where "suspects = filter (contaminated dirty (vs_records (st_evidence (dr_stores d1)))) sts"
  define ps where "ps = filter (\<lambda>p. dp_id p \<in> set (map rs_property_id suspects)) (ir_properties (de_ir (fe_driver env)))"
  have "set ps \<subseteq> set (ir_properties (de_ir (fe_driver env)))" by (auto simp: ps_def)
  from run_guard_returns [OF assms this] obtain x d2 where 2: "run_guard env result ps d1 = (Inr x, d2)" by blast
  show ?thesis unfolding guard_states_def 1 prod.case Let_def suspects_def [symmetric] ps_def [symmetric] 2 by (auto split: option.split)
qed

lemma revision_returns: "answers (de_git e) \<Longrightarrow> \<exists>r d'. run_revision e d = (Inr r, d')"
  using answers_revision [of "de_git e" "sv_cwd (de_sweep e)" "world d"] by (auto simp: run_revision_def)

lemma final_returns:
  assumes "answers (de_git (fe_driver env))" "sweeps_return env" "\<And>r w. \<exists>t. fe_guard_tree env r w = Inr t"
  shows "\<exists>sts d'. final_states env result d = (Inr sts, d')"
proof -
  obtain revision d1 where 1: "run_revision (fe_driver env) d = (Inr revision, d1)" using revision_returns [OF assms(1)] by blast
  have q: "sq_properties (final_request env revision) = ir_properties (de_ir (fe_driver env))"
    "sq_suites (final_request env revision) = Some (de_suites (fe_driver env))"
    by (simp_all add: final_request_def sweep_request_of_def)
  have "(fe_env env)\<lparr>sv_cwd := sv_cwd (fe_env env)\<rparr> = fe_env env" by simp
  with assms(2) q obtain sts s where "verify_properties (fe_env env) (final_request env revision) (dr_stores d1) = (Inr sts, s)"
    unfolding sweeps_return_def by (metis order_refl)
  then obtain d2 where 2: "sweep (fe_driver env) (final_request env revision) d1 = (Inr sts, d2)" by (simp add: sweep_def)
  obtain sts1 d3 where 3: "guard_states env result sts d2 = (Inr sts1, d3)" using guard_returns [OF assms] by blast
  show ?thesis unfolding final_states_def Let_def 1 prod.case sum.case final_request_def [symmetric] 2 3
    by (auto split: prod.split)
qed

lemma attest_returns: "answers git \<Longrightarrow> \<exists>a s'. attest_run env git policy spec status result s = (Inr a, s')"
  using answers_anchor [of git "sv_cwd env" policy "commitment env spec status result s" "st_world s"]
  by (auto simp: attest_run_def Let_def split: prod.split)

lemma commit_returns:
  assumes "answers (de_git (fe_driver env))"
  shows "\<exists>r d'. commit_result env d = (Inr r, d')"
proof -
  define m where "m = ''spc: apply plan '' @ plan_id (dr_plan d) @ '' for '' @ meta_spec_id (de_meta (fe_driver env))
            @ '' (run '' @ run_of (fe_driver env) @ '')''"
  obtain r w where 1: "commit_changes (fe_driver env) m (result_trailers env d) (Some (fe_allow env)) (world d) = (Inr r, w)"
    unfolding commit_changes_def using answers_commit_all [OF assms] by blast
  obtain v d1 where 2: "run_revision (fe_driver env) (set_world w d) = (Inr v, d1)" using revision_returns [OF assms] by blast
  show ?thesis unfolding commit_result_def m_def [symmetric] 1 prod.case sum.case 2 by (simp split: option.split)
qed

lemma finish_returns:
  assumes "answers (de_git (fe_driver env))" "sweeps_return env" "\<And>r w. \<exists>t. fe_guard_tree env r w = Inr t"
  shows "\<exists>rp d'. finish_driver env outcome failed keys d = (Inr rp, d')"
proof -
  obtain base d1 where 1: "base_revision env (persist d) = (Inr base, d1)"
    using revision_returns [OF assms(1), of "persist d"] by (cases "meta_base_revision (de_meta (fe_driver env))") (auto simp: base_revision_def)
  obtain result d2 where 2: "commit_result env d1 = (Inr result, d2)" using commit_returns [OF assms(1)] by blast
  obtain m d3 where 3: "measure_result env base result d2 = (m, d3)" by (rule prod.exhaust)
  obtain sts d4 where 4: "final_states env result d3 = (Inr sts, d4)" using final_returns [OF assms] by blast
  obtain status d5 where 5: "conclude_status env outcome failed sts (record_result sts result d4) = (status, d5)" by force
  have "\<exists>rp d6. finalize env status sts keys (Some result) (Some m) d5 = (Inr rp, d6)"
  proof -
    obtain dirty e1 where a: "record_dirty env (settle_state status (Some result) sts d5) = (dirty, e1)" by force
    define e2 where "e2 = mark_status env status e1"
    define e3 where "e3 = persist (record_event (fe_driver env) RUN_COMPLETED (completed_payload status (Some result) (reported_states sts keys e2)) e2)"
    obtain att s where b: "attest_run (fe_env env) (de_git (fe_driver env)) (fe_anchor env) (meta_spec_id (de_meta (fe_driver env))) status
        (Some result) (dr_stores e3) = (Inr att, s)" using attest_returns [OF assms(1)] by blast
    show ?thesis unfolding finalize_def a prod.case Let_def e2_def [symmetric] e3_def [symmetric] b by simp
  qed
  then obtain rp d6 where 6: "finalize env status sts keys (Some result) (Some m) d5 = (Inr rp, d6)" by blast
  show ?thesis unfolding finish_driver_def 1 2 3 4 5 6 prod.case sum.case by (auto split: prod.split)
qed

lemma finish_last_events:
  assumes "finish_driver env outcome failed keys d = (Inr rp, d')"
  shows "\<exists>es e a. log_of (dr_stores d') = es @ [e, a] \<and> e_type e = RUN_COMPLETED \<and> e_type a = RUN_ATTESTED
    \<and> p_string (e_payload e) ''status'' = Some (run_status_text (rp_status rp))"
  using assms
proof (cases rule: finish_cases)
  case (finished base d1 result d2 m d3 sts d4 status d5 rp0 d6 rp')
  note r = restore_frame [OF finished(7)]
  from finalize_done(8) [OF finished(6)] obtain es e a where "log_of (dr_stores d6) = (log_of (dr_stores d5) @ es) @ [e, a]" "e_type e = RUN_COMPLETED" "e_type a = RUN_ATTESTED"
      "e_payload e = completed_payload status (Some result) (rp_requirements rp0)" by auto
  with r finished(8) finalize_done(1) [OF finished(6)] completed_payload_read(1) show ?thesis by (intro exI [of _ "log_of (dr_stores d5) @ es"] exI [of _ e] exI [of _ a]) simp
qed simp_all


section \<open>A sample run\<close>

definition sample_must :: desired_property where
  "sample_must = sample_property [FileCriterion ''REQ-001-a'' ''src/a.ts'' \<lparr>assert_exists = Some True, assert_contains = None, assert_not_contains = None\<rparr> None]"

definition sample_finish :: finish_env where
  "sample_finish =
     \<lparr>fe_driver = (sample_driver_env honest)\<lparr>de_ir := sample_ir_for [sample_must]\<rparr>,
      fe_files = \<lparr>rf_runs = [], rf_meta = (\<lambda>_. None), rf_state = (\<lambda>_. None), rf_evidence = (\<lambda>_. None), rf_followups = (\<lambda>_. None)\<rparr>,
      fe_allow = [], fe_wall = None, fe_diff = None, fe_changed = None, fe_millis = (\<lambda>_. None),
      fe_guard_tree = (\<lambda>r w. Inr w), fe_prepare = (\<lambda>w. (\<lparr>po_mode = NoPreparation, po_exit_code = None, po_detail = None\<rparr>, w)), fe_guard_cwd = ''/guard'',
      fe_anchor = \<lparr>an_in_git = False, an_in_place_current = False, an_worktree = True, an_branch = ''spc/demo/run-1''\<rparr>, fe_restore = False\<rparr>"

abbreviation sample_start :: driver where "sample_start \<equiv> sample_driver [sample_t]"

definition sample_states :: "(requirement_status list \<times> bool) option" where
  "sample_states = (case final_states sample_finish ''abc'' (persist sample_start) of
     (Inl e, _) \<Rightarrow> None | (Inr sts, d) \<Rightarrow> Some (map rs_status sts, open_blocking (st_followups (dr_stores d)) = []))"

lemma sample_states: "sample_states = Some ([Satisfied], True)"
  by code_simp

lemma sample_parts:
  "base_revision sample_finish d = (Inr ''base'', d)" "commit_result sample_finish d = (Inr ''abc'', d)"
  "snd (measure_result sample_finish a b d) = d"
proof -
  have g: "\<And>args w. plain_git args w = (fst (plain_git args w), w)" by (simp add: plain_git_def)
  have t: "trim ''abc'' = ''abc''" by code_simp
  have e: "status_porcelain [] = []" by code_simp
  have w: "set_world (world d) d = d" by (simp add: set_world_def world_def)
  show "base_revision sample_finish d = (Inr ''base'', d)"
    by (simp add: base_revision_def sample_finish_def sample_driver_env_def sample_meta_def)
  have r: "run_revision (fe_driver sample_finish) d = (Inr ''abc'', d)"
    by (simp add: run_revision_def current_revision_def git_ok_def plain_git_def sample_finish_def sample_driver_env_def t w)
  have "commit_changes (fe_driver sample_finish) m tr x w = (Inr None, w)" for m tr x w
    by (simp add: commit_changes_def commit_all_def worktree_status_def git_ok_def plain_git_def sample_finish_def sample_driver_env_def e)
  then show "commit_result sample_finish d = (Inr ''abc'', d)" by (simp add: commit_result_def r w)
  have a: "asks sample_finish f d = (fst (f plain_git (world d)), d)" if "\<And>w. snd (f plain_git w) = w" for f :: "checkout git \<Rightarrow> checkout \<Rightarrow> 'x \<times> checkout"
    using that [of "world d"] w by (cases "f plain_git (world d)") (simp add: asks_def sample_finish_def sample_driver_env_def)
  have "fe_wall sample_finish = None" "fe_diff sample_finish = None" "fe_changed sample_finish = None" by (simp_all add: sample_finish_def)
  moreover have "asks sample_finish (\<lambda>git. diff_stat git a b) d = (fst (diff_stat plain_git a b (world d)), d)"
    "asks sample_finish (\<lambda>git. count_changed git a b) d = (fst (count_changed plain_git a b (world d)), d)"
    by (rule a, simp add: diff_stat_def count_changed_def plain_git_def)+
  ultimately show "snd (measure_result sample_finish a b d) = d"
    by (simp add: measure_result_def diff_lines_def over_def Let_def split: option.split)
qed

lemma sample_ids: "distinct (property_ids sample_finish)" "[] \<notin> set (property_ids sample_finish)" "property_ids sample_finish \<noteq> []"
  by (simp_all add: sample_finish_def sample_ir_for_def sample_driver_env_def sample_must_def sample_property_def)

lemma plain_answers: "answers (de_git (fe_driver sample_finish))"
  by (simp add: answers_def sample_finish_def sample_driver_env_def plain_git_def)

lemma file_criterion_swept:
  "sweep_criterion env q approved prov p (FileCriterion cid path a disc) s = (None, snd (sweep_criterion env q approved prov p (FileCriterion cid path a disc) s))"
  by (simp add: sweep_criterion_def split: prod.split)

lemma sample_sweeps: "sweeps_return sample_finish"
  unfolding sweeps_return_def
proof (intro allI impI)
  fix cwd and q :: sweep_request and s :: "checkout run_stores"
  let ?env = "(fe_env sample_finish)\<lparr>sv_cwd := cwd\<rparr>"
  assume a: "set (sq_properties q) \<subseteq> set (ir_properties (de_ir (fe_driver sample_finish)))" "sq_suites q = Some (de_suites (fe_driver sample_finish))"
  then have ps: "set (sq_properties q) \<subseteq> {sample_must}" by (simp add: sample_finish_def sample_ir_for_def)
  have norm: "set ps \<subseteq> {sample_must} \<Longrightarrow> normalize_suite_criteria suites [] ps = Inr (ps, [])" for suites ps
    by (induction ps) (auto simp: sample_must_def sample_property_def)
  have swept: "set ps \<subseteq> {sample_must} \<Longrightarrow> fst (sweep_criteria ?env q approved prov (criteria_of ps) s) = None" for ps approved prov s
  proof (induction ps arbitrary: s)
    case (Cons p ps)
    then have "criteria_of (p # ps) = (p, FileCriterion ''REQ-001-a'' ''src/a.ts''
        \<lparr>assert_exists = Some True, assert_contains = None, assert_not_contains = None\<rparr> None) # criteria_of ps"
      by (simp add: criteria_of_def sample_must_def sample_property_def)
    moreover obtain s1 where "sweep_criterion ?env q approved prov p (FileCriterion ''REQ-001-a'' ''src/a.ts''
        \<lparr>assert_exists = Some True, assert_contains = None, assert_not_contains = None\<rparr> None) s = (None, s1)"
      using file_criterion_swept by blast
    ultimately show ?case using Cons by simp
  qed (simp add: criteria_of_def)
  have r: "resolve_suites q = Inr (sq_properties q, [])" using norm [OF ps] a(2) by (simp add: resolve_suites_def)
  obtain s1 where s1: "sweep_criteria ?env q (approved_commands (st_followups s)) [] (criteria_of (sq_properties q))
      (if sq_shared q then s else s\<lparr>st_runs := []\<rparr>) = (None, s1)"
    using swept [OF ps] by (metis prod.collapse)
  show "\<exists>sts s'. verify_properties ?env q s = (Inr sts, s')"
    unfolding verify_properties_def r prod.case sum.case s1 by (simp split: prod.split)
qed

lemma sample_tree: "\<exists>t. fe_guard_tree sample_finish r w = Inr t" by (simp add: sample_finish_def)

lemma sample_succeeds: "\<exists>rp d'. finish_driver sample_finish Done [] [] sample_start = (Inr rp, d') \<and> rp_status rp = Succeeded"
proof -
  obtain rp d' where f: "finish_driver sample_finish Done [] [] sample_start = (Inr rp, d')"
    using finish_returns [OF plain_answers sample_sweeps sample_tree] by blast
  from finished_parts [OF f sample_ids, of None] have "rp_status rp = Succeeded"
  proof cases
    case (1 base d1 result d2 m d3 sts d4 d5)
    then have "d3 = persist sample_start" "result = ''abc''" using sample_parts by (auto, metis snd_conv)
    with 1(4) sample_states have s: "map rs_status sts = [Satisfied]" "open_blocking (st_followups (dr_stores d4)) = []"
      by (auto simp: sample_states_def)
    have "must_hold sample_finish sts"
      using 1(6) s(1) unfolding well_shown_def by (subst must_hold_iff) (auto simp: sample_ids list_all_iff list_ex_iff
        sample_finish_def sample_ir_for_def sample_driver_env_def)
    with 1(7) s(2) show ?thesis unfolding conclude_status_def must_hold_def [symmetric] by simp
  qed
  with f show ?thesis by blast
qed


lemma sample_agrees: "agrees (fe_driver sample_finish) (Some (sample_plan [sample_t])) sample_start"
  by (rule as_logged_agrees)
    (simp add: as_logged_def live_def sample_driver_def sample_finish_def sample_driver_env_def log_of_def open_log_def project_state_def)


lemma finish_status_exact_witness:
  "\<exists>rp d'. finish_driver sample_finish Done [] [] sample_start = (Inr rp, d') \<and> rp_status rp = Succeeded \<and> open_blocking (rp_followups rp) = []"
proof -
  obtain rp d' where f: "finish_driver sample_finish Done [] [] sample_start = (Inr rp, d')" "rp_status rp = Succeeded"
    using sample_succeeds by blast
  from finish_status_exact [OF f(1) sample_ids] f show ?thesis by blast
qed

lemma finish_succeeded_sound_witness:
  "\<exists>rp d'. finish_driver sample_finish Done [] [] sample_start = (Inr rp, d')
     \<and> (verified_here sample_finish (vs_records (st_evidence (dr_stores d'))) sample_must
        \<or> inherited_here sample_finish (log_of (dr_stores d')) (dp_id sample_must))"
proof -
  obtain rp d' where f: "finish_driver sample_finish Done [] [] sample_start = (Inr rp, d')" "rp_status rp = Succeeded"
    using sample_succeeds by blast
  have "ir_properties (de_ir (fe_driver sample_finish)) = [sample_must]" "dp_priority sample_must = Must"
    by (simp_all add: sample_finish_def sample_ir_for_def sample_must_def sample_property_def)
  with finish_succeeded_sound [OF f sample_ids] f(1) show ?thesis by auto
qed


end
