(* ===== verification/Spec2Isabelle.thy ===== *)
theory Spec2Isabelle
  imports CoreContracts Amendment PlanValidate Planning Resolve Executor EvidenceLog RunState Patch RepoContent
    Commands Enforce TouchSet Scheduler Driver Git Attest Runs Finished
begin

text \<open>
  Root of the development.
\<close>

end
